(* ===== verification/Prelude.thy ===== *)
theory Prelude
  imports Main "HOL-Library.Word" "HOL-Library.Sublist" "HOL-Library.Char_ord"
begin

unbundle bit_operations_syntax

text \<open>
  Shared vocabulary of the development: machine integers and byte strings, fallible results, the
  operations of Rust's slices and strings that the program uses, and two interfaces
  (self-delimiting codecs and invariants of transition systems) that several components share.

  A Rust \<^verbatim>\<open>usize\<close> is a \<^typ>\<open>nat\<close>: every length and index the program computes is bounded by
  the length of a buffer that exists in memory, so no wrap-around can occur.  \<^verbatim>\<open>u8\<close>, \<^verbatim>\<open>u16\<close>,
  \<^verbatim>\<open>u32\<close> and \<^verbatim>\<open>u64\<close> are words of that width.  A \<^verbatim>\<open>Vec<u8>\<close> or \<^verbatim>\<open>&[u8]\<close> is a list of
  bytes.  A Rust \<^verbatim>\<open>str\<close> is its UTF-8 encoding, one \<^typ>\<open>char\<close> per code unit.
\<close>

type_synonym u8 = "8 word"
type_synonym u16 = "16 word"
type_synonym u32 = "32 word"
type_synonym u64 = "64 word"
type_synonym bytes = "u8 list"

named_theorems str_simps \<open>rewriting of the string operations\<close>
named_theorems codec_simps \<open>rewriting of encoders and decoders\<close>
named_theorems inv_rules \<open>preservation of invariants\<close>

section \<open>Results\<close>

text \<open>\<^verbatim>\<open>Result<T, E>\<close> is the sum \<open>'e + 'a\<close>; the operator \<^verbatim>\<open>?\<close> is \<open>and_then\<close>.\<close>

definition and_then :: "'e + 'a \<Rightarrow> ('a \<Rightarrow> 'e + 'b) \<Rightarrow> 'e + 'b" where
  "and_then m f = (case m of Inl e \<Rightarrow> Inl e | Inr x \<Rightarrow> f x)"

definition map_err :: "('e \<Rightarrow> 'f) \<Rightarrow> 'e + 'a \<Rightarrow> 'f + 'a" where
  "map_err g m = (case m of Inl e \<Rightarrow> Inl (g e) | Inr x \<Rightarrow> Inr x)"

definition ok_or :: "'e \<Rightarrow> 'a option \<Rightarrow> 'e + 'a" where
  "ok_or e m = (case m of None \<Rightarrow> Inl e | Some x \<Rightarrow> Inr x)"

section \<open>Slices and big-endian integers\<close>

definition slice :: "'a list \<Rightarrow> nat \<Rightarrow> nat \<Rightarrow> 'a list" where
  "slice xs i j = take (j - i) (drop i xs)"

text \<open>\<^verbatim>\<open>slice::chunks\<close>; Rust panics on a chunk size of 0, and the one caller excludes it.\<close>

function chunks :: "nat \<Rightarrow> 'a list \<Rightarrow> 'a list list" where
  "chunks n xs = (if xs = [] \<or> n = 0 then [] else take n xs # chunks n (drop n xs))"
  by pat_completeness auto
termination
  by (relation "measure (\<lambda>(n, xs). length xs)") auto

declare chunks.simps [simp del]

primrec to_be_bytes :: "nat \<Rightarrow> 'a::len word \<Rightarrow> bytes" where
  "to_be_bytes 0 w = []"
| "to_be_bytes (Suc n) w = ucast (drop_bit (8 * n) w) # to_be_bytes n w"

definition be_step :: "u8 \<Rightarrow> 'a::len word \<Rightarrow> 'a word" where
  "be_step b v = push_bit 8 v OR ucast b"

definition from_be_bytes :: "bytes \<Rightarrow> 'a::len word" where
  "from_be_bytes bs = fold be_step bs 0"

text \<open>\<^verbatim>\<open>u8::try_from\<close> and \<^verbatim>\<open>u16::try_from\<close> on a length: defined only where it fits.\<close>

definition try_from_len :: "nat \<Rightarrow> 'a::len word option" where
  "try_from_len n = (if n < 2 ^ LENGTH('a) then Some (word_of_nat n) else None)"

section \<open>Strings\<close>

definition as_bytes :: "string \<Rightarrow> bytes" where
  "as_bytes s = map (\<lambda>c. word_of_nat (of_char c)) s"

definition str_of_bytes :: "bytes \<Rightarrow> string" where
  "str_of_bytes bs = map (\<lambda>b. char_of (unat b)) bs"

text \<open>
  Length of the well-formed UTF-8 sequence at the front of a byte string, if there is one
  (table 3-7 of the Unicode standard, which is what \<^verbatim>\<open>core::str::from_utf8\<close> implements).
\<close>

definition utf8_cont :: "u8 \<Rightarrow> bool" where
  "utf8_cont b \<longleftrightarrow> 0x80 \<le> b \<and> b \<le> 0xbf"

definition utf8_second :: "u8 \<Rightarrow> u8 \<Rightarrow> bool" where
  "utf8_second b c \<longleftrightarrow>
     (if b = 0xe0 then 0xa0 \<le> c \<and> c \<le> 0xbf
      else if b = 0xed then 0x80 \<le> c \<and> c \<le> 0x9f
      else if b = 0xf0 then 0x90 \<le> c \<and> c \<le> 0xbf
      else if b = 0xf4 then 0x80 \<le> c \<and> c \<le> 0x8f
      else utf8_cont c)"

definition utf8_len :: "bytes \<Rightarrow> nat option" where
  "utf8_len bs = (case bs of
     [] \<Rightarrow> None
   | b # r \<Rightarrow>
       if b < 0x80 then Some 1
       else if 0xc2 \<le> b \<and> b \<le> 0xdf then
         (case r of c # _ \<Rightarrow> if utf8_cont c then Some 2 else None | [] \<Rightarrow> None)
       else if 0xe0 \<le> b \<and> b \<le> 0xef then
         (case r of c # d # _ \<Rightarrow> if utf8_second b c \<and> utf8_cont d then Some 3 else None | _ \<Rightarrow> None)
       else if 0xf0 \<le> b \<and> b \<le> 0xf4 then
         (case r of c # d # e # _ \<Rightarrow>
            if utf8_second b c \<and> utf8_cont d \<and> utf8_cont e then Some 4 else None
          | _ \<Rightarrow> None)
       else None)"

function utf8_valid :: "bytes \<Rightarrow> bool" where
  "utf8_valid bs = (if bs = [] then True else
     (case utf8_len bs of None \<Rightarrow> False | Some n \<Rightarrow> utf8_valid (drop (max 1 n) bs)))"
  by pat_completeness auto
termination
  by (relation "measure length") (auto simp: max_def)

declare utf8_valid.simps [simp del]

definition from_utf8 :: "bytes \<Rightarrow> string option" where
  "from_utf8 bs = (if utf8_valid bs then Some (str_of_bytes bs) else None)"

definition split_once :: "char \<Rightarrow> string \<Rightarrow> (string \<times> string) option" where
  "split_once c s =
     (if c \<in> set s then Some (takeWhile (\<lambda>x. x \<noteq> c) s, tl (dropWhile (\<lambda>x. x \<noteq> c) s)) else None)"

definition rsplit_once :: "char \<Rightarrow> string \<Rightarrow> (string \<times> string) option" where
  "rsplit_once c s = map_option (\<lambda>(a, b). (rev b, rev a)) (split_once c (rev s))"

fun split_once_str :: "string \<Rightarrow> string \<Rightarrow> (string \<times> string) option" where
  "split_once_str pat s =
     (if prefix pat s then Some ([], drop (length pat) s)
      else (case s of [] \<Rightarrow> None
            | x # xs \<Rightarrow> map_option (\<lambda>(a, b). (x # a, b)) (split_once_str pat xs)))"

declare split_once_str.simps [simp del]

text \<open>\<^verbatim>\<open>str::find\<close> with a character: the index of its first occurrence.\<close>

definition str_find :: "char \<Rightarrow> string \<Rightarrow> nat option" where
  "str_find c s = (if c \<in> set s then Some (length (takeWhile (\<lambda>x. x \<noteq> c) s)) else None)"

definition strip_prefix :: "string \<Rightarrow> string \<Rightarrow> string option" where
  "strip_prefix p s = (if prefix p s then Some (drop (length p) s) else None)"

definition strip_suffix :: "string \<Rightarrow> string \<Rightarrow> string option" where
  "strip_suffix p s = map_option rev (strip_prefix (rev p) (rev s))"

definition ascii_lower :: "char \<Rightarrow> char" where
  "ascii_lower c = (if 65 \<le> (of_char c :: nat) \<and> (of_char c :: nat) \<le> 90
                    then char_of ((of_char c :: nat) + 32) else c)"

definition to_ascii_lowercase :: "string \<Rightarrow> string" where
  "to_ascii_lowercase s = map ascii_lower s"

definition eq_ignore_ascii_case :: "string \<Rightarrow> string \<Rightarrow> bool" where
  "eq_ignore_ascii_case s t \<longleftrightarrow> to_ascii_lowercase s = to_ascii_lowercase t"

text \<open>The encodings of the characters with the Unicode property \<^verbatim>\<open>White_Space\<close>, as \<^verbatim>\<open>str::trim\<close> uses.\<close>

definition white_space :: "string list" where
  "white_space = map (map char_of) ([[9], [10], [11], [12], [13], [32],
     [0xc2, 0x85], [0xc2, 0xa0], [0xe1, 0x9a, 0x80],
     [0xe2, 0x80, 0x80], [0xe2, 0x80, 0x81], [0xe2, 0x80, 0x82], [0xe2, 0x80, 0x83],
     [0xe2, 0x80, 0x84], [0xe2, 0x80, 0x85], [0xe2, 0x80, 0x86], [0xe2, 0x80, 0x87],
     [0xe2, 0x80, 0x88], [0xe2, 0x80, 0x89], [0xe2, 0x80, 0x8a], [0xe2, 0x80, 0xa8],
     [0xe2, 0x80, 0xa9], [0xe2, 0x80, 0xaf], [0xe2, 0x81, 0x9f], [0xe3, 0x80, 0x80]] :: nat list list)"

function trim_start_of :: "string list \<Rightarrow> string \<Rightarrow> string" where
  "trim_start_of ws s =
     (case find (\<lambda>w. w \<noteq> [] \<and> prefix w s) ws of
        None \<Rightarrow> s
      | Some w \<Rightarrow> trim_start_of ws (drop (max 1 (length w)) s))"
  by pat_completeness auto
termination
  by (relation "measure (\<lambda>(ws, s). length s)") (auto simp: find_Some_iff prefix_def)

declare trim_start_of.simps [simp del]

definition trim :: "string \<Rightarrow> string" where
  "trim s = rev (trim_start_of (map rev white_space) (rev (trim_start_of white_space s)))"

text \<open>\<^verbatim>\<open>str::lines\<close>: split after each line feed, dropping it and a carriage return before it.\<close>

definition newline :: char where
  "newline = CHR 0x0A"

definition strip_cr :: "string \<Rightarrow> string" where
  "strip_cr s = (case strip_suffix [CHR 0x0D] s of None \<Rightarrow> s | Some t \<Rightarrow> t)"

function lines :: "string \<Rightarrow> string list" where
  "lines s = (if s = [] then [] else
     (case split_once newline s of
        None \<Rightarrow> [s]
      | Some (a, b) \<Rightarrow> strip_cr a # lines b))"
  by pat_completeness auto
termination
proof (relation "measure length", goal_cases)
  case (2 s ab a b)
  then have "b = tl (dropWhile (\<lambda>x. x \<noteq> newline) s)" and "s \<noteq> []"
    by (auto simp: split_once_def split: if_splits)
  moreover have "length (dropWhile (\<lambda>x. x \<noteq> newline) s) \<le> length s"
    by (rule length_dropWhile_le)
  ultimately show ?case
    by (cases s) (auto simp: less_Suc_eq_le split: if_splits)
qed simp

declare lines.simps [simp del]

section \<open>Interfaces\<close>

text \<open>
  A self-delimiting codec: an encoder for the values satisfying \<open>wf\<close> whose output a decoder
  recognises at the front of any buffer, reporting how many bytes it took.
\<close>

locale prefix_codec =
  fixes enc :: "'a \<Rightarrow> bytes"
    and dec :: "bytes \<Rightarrow> ('a \<times> nat) option"
    and wf :: "'a \<Rightarrow> bool"
  assumes dec_enc: "wf v \<Longrightarrow> dec (enc v @ r) = Some (v, length (enc v))"
    and dec_bounds: "dec b = Some (v, n) \<Longrightarrow> 0 < n \<and> n \<le> length b"
    and dec_wf: "dec b = Some (v, n) \<Longrightarrow> wf v"
    and dec_local: "dec b = Some (v, n) \<Longrightarrow> dec (take n b @ r) = Some (v, n)"
begin

lemma enc_nonempty: "wf v \<Longrightarrow> enc v \<noteq> []"
  using dec_enc [of v "[]"] dec_bounds by fastforce

lemma enc_prefix_free:
  assumes "wf v" "wf w" "enc v @ r = enc w @ q"
  shows "v = w \<and> r = q"
proof -
  have "Some (v, length (enc v)) = Some (w, length (enc w))"
    using assms dec_enc by metis
  then have "v = w" by simp
  with assms(3) show ?thesis by simp
qed

lemma enc_inj: "wf v \<Longrightarrow> wf w \<Longrightarrow> enc v = enc w \<Longrightarrow> v = w"
  using enc_prefix_free [of v w "[]" "[]"] by simp

text \<open>Two fields in a row: the second starts where the first ended.\<close>

lemma dec_enc_drop: "wf v \<Longrightarrow> dec (enc v @ r) = Some (v, n) \<Longrightarrow> drop n (enc v @ r) = r"
  using dec_enc [of v r] by simp

lemma dec_take: "dec b = Some (v, n) \<Longrightarrow> dec (take n b) = Some (v, n)"
  using dec_local [of b v n "[]"] by simp

end

text \<open>A transition system with an inductive invariant.\<close>

locale invariant_system =
  fixes init :: "'s \<Rightarrow> bool"
    and step :: "'s \<Rightarrow> 's \<Rightarrow> bool"
    and inv :: "'s \<Rightarrow> bool"
  assumes init_inv: "init s \<Longrightarrow> inv s"
    and step_inv: "inv s \<Longrightarrow> step s t \<Longrightarrow> inv t"
begin

lemma steps_inv: "step\<^sup>*\<^sup>* s t \<Longrightarrow> inv s \<Longrightarrow> inv t"
  by (induction rule: rtranclp_induct) (auto intro: step_inv)

lemma reach_inv: "init s \<Longrightarrow> step\<^sup>*\<^sup>* s t \<Longrightarrow> inv t"
  by (auto intro: steps_inv init_inv)

end

section \<open>Lemmas on results\<close>

lemma and_then_simps [simp]:
  "and_then (Inl e) f = Inl e"
  "and_then (Inr x) f = f x"
  by (simp_all add: and_then_def)

lemma map_err_simps [simp]:
  "map_err g (Inl e) = Inl (g e)"
  "map_err g (Inr x) = Inr x"
  by (simp_all add: map_err_def)

lemma ok_or_simps [simp]:
  "ok_or e None = Inl e"
  "ok_or e (Some x) = Inr x"
  by (simp_all add: ok_or_def)

lemma and_then_Inr_iff: "and_then m f = Inr y \<longleftrightarrow> (\<exists>x. m = Inr x \<and> f x = Inr y)"
  by (cases m) auto

lemma and_then_Inl_iff: "and_then m f = Inl e \<longleftrightarrow> m = Inl e \<or> (\<exists>x. m = Inr x \<and> f x = Inl e)"
  by (cases m) auto

lemma map_err_Inr_iff: "map_err g m = Inr y \<longleftrightarrow> m = Inr y"
  by (cases m) auto

lemma ok_or_Inr_iff: "ok_or e m = Inr y \<longleftrightarrow> m = Some y"
  by (cases m) auto

lemmas result_iffs = and_then_Inr_iff and_then_Inl_iff map_err_Inr_iff ok_or_Inr_iff

section \<open>Lemmas on lists\<close>

text \<open>The first element satisfying \<open>Q\<close> with all elements before it satisfying \<open>P\<close>, one step at a time.\<close>

lemma split_first_Cons:
  "(\<exists>pre x post. y # ys = pre @ x # post \<and> (\<forall>p \<in> set pre. P p) \<and> Q x) \<longleftrightarrow>
     Q y \<or> (P y \<and> (\<exists>pre x post. ys = pre @ x # post \<and> (\<forall>p \<in> set pre. P p) \<and> Q x))"
    (is "?L \<longleftrightarrow> ?R")
proof
  assume ?L
  then obtain pre x post where "y # ys = pre @ x # post" "\<forall>p \<in> set pre. P p" "Q x" by blast
  then show ?R by (cases pre) auto
next
  assume ?R
  then show ?L
  proof
    assume "Q y"
    then have "y # ys = [] @ y # ys \<and> (\<forall>p \<in> set []. P p) \<and> Q y" by simp
    then show ?L by blast
  next
    assume "P y \<and> (\<exists>pre x post. ys = pre @ x # post \<and> (\<forall>p \<in> set pre. P p) \<and> Q x)"
    then obtain pre x post where "y # ys = (y # pre) @ x # post" "\<forall>p \<in> set (y # pre). P p" "Q x"
      by auto
    then show ?L by blast
  qed
qed

lemma find_Some_split:
  "find P xs = Some x \<longleftrightarrow> (\<exists>pre post. xs = pre @ x # post \<and> P x \<and> (\<forall>y \<in> set pre. \<not> P y))"
proof -
  have "find P xs = Some x \<longleftrightarrow>
      (\<exists>pre z post. xs = pre @ z # post \<and> (\<forall>y \<in> set pre. \<not> P y) \<and> (P z \<and> z = x))"
  proof (induction xs)
    case (Cons a xs)
    then show ?case by (simp only: split_first_Cons) auto
  qed simp
  then show ?thesis by blast
qed

lemma chunks_Nil [simp]: "chunks n [] = []"
  by (simp add: chunks.simps)

lemma concat_chunks: "0 < n \<Longrightarrow> concat (chunks n xs) = xs"
proof (induction n xs rule: chunks.induct)
  case (1 n xs)
  then show ?case by (cases "xs = []") (simp_all add: chunks.simps [of n xs])
qed

lemma chunks_elem: "0 < n \<Longrightarrow> c \<in> set (chunks n xs) \<Longrightarrow> c \<noteq> [] \<and> length c \<le> n \<and> set c \<subseteq> set xs"
proof (induction n xs rule: chunks.induct)
  case (1 n xs)
  then show ?case
    by (cases "xs = []") (auto simp: chunks.simps [of n xs] dest: in_set_takeD in_set_dropD)
qed

section \<open>Lemmas on big-endian integers\<close>

lemma length_to_be_bytes [simp]: "length (to_be_bytes n w) = n"
  by (induction n) auto

lemma be_fold:
  "fold be_step (to_be_bytes n (w :: 'b::len word)) (v :: 'a::len word) =
     push_bit (8 * n) v OR take_bit (8 * n) (ucast w)"
proof (induction n arbitrary: v)
  case (Suc n)
  have "push_bit (8 * n) (be_step (ucast (drop_bit (8 * n) w)) v) OR take_bit (8 * n) (ucast w)
      = push_bit (8 * Suc n) v OR take_bit (8 * Suc n) (ucast w :: 'a word)"
    by (rule bit_word_eqI) (auto simp: be_step_def bit_simps ac_simps)
  then show ?case by (simp add: Suc del: mult_Suc_right)
qed simp

lemma from_to_be_bytes:
  "LENGTH('a::len) = 8 * n \<Longrightarrow> from_be_bytes (to_be_bytes n (w :: 'a word)) = w"
  by (simp add: from_be_bytes_def be_fold take_bit_word_eq_self)

lemma to_be_bytes_u16: "to_be_bytes 2 (w :: u16) = [ucast (drop_bit 8 w), ucast w]"
  by (simp add: numeral_2_eq_2)

lemma from_be_bytes_u16 [simp]: "from_be_bytes [ucast (drop_bit 8 w), ucast w] = (w :: u16)"
  using from_to_be_bytes [of 2 w] by (simp add: to_be_bytes_u16)

lemma take_bit_ucast_small:
  fixes v :: "'a::len word"
  assumes "v < 2 ^ k" and "k < LENGTH('a)"
  shows "take_bit k (ucast v :: 'b::len word) = ucast v"
proof -
  from assms have "take_bit k v = v"
    by (simp add: less_mask_eq take_bit_eq_mask)
  then show ?thesis by (metis unsigned_take_bit_eq)
qed

lemma drop_bit_or_small: "take_bit k w = w \<Longrightarrow> drop_bit k (w OR f) = drop_bit k f"
  for w :: "'a::len word"
  by (rule bit_word_eqI)
    (metis bit_drop_bit_eq bit_or_iff bit_take_bit_iff comp_apply le_add1 not_less)

lemma try_from_len_Some:
  "try_from_len n = Some (w :: 'a::len word) \<longleftrightarrow> n < 2 ^ LENGTH('a) \<and> unat w = n"
  by (auto simp: try_from_len_def unat_of_nat)

section \<open>Lemmas on strings\<close>

lemma as_bytes_Nil [simp]: "as_bytes [] = []"
  by (simp add: as_bytes_def)

lemma length_as_bytes [simp]: "length (as_bytes s) = length s"
  by (simp add: as_bytes_def)

lemma unat_of_char [simp]: "unat (word_of_nat (of_char c) :: u8) = of_char c"
  using nat_of_char_less_256 [of c] by (simp add: unat_of_nat)

lemma word_of_unat_mod [simp]: "word_of_nat (unat b mod 256) = (b :: u8)"
  using unsigned_less [of b, where 'a = nat] by simp

lemma as_bytes_append [simp]: "as_bytes (s @ t) = as_bytes s @ as_bytes t"
  by (simp add: as_bytes_def)

lemma str_of_as_bytes [simp]: "str_of_bytes (as_bytes s) = s"
  by (simp add: str_of_bytes_def as_bytes_def comp_def)

lemma as_bytes_of_str [simp]: "as_bytes (str_of_bytes bs) = bs"
  by (simp add: str_of_bytes_def as_bytes_def comp_def)

lemma as_bytes_inj: "as_bytes s = as_bytes t \<Longrightarrow> s = t"
  by (metis str_of_as_bytes)

lemma as_bytes_inj_iff [simp]: "as_bytes s = as_bytes t \<longleftrightarrow> s = t"
  using as_bytes_inj by blast

subsection \<open>Splitting strings\<close>

lemma split_once_append [str_simps]:
  "c \<notin> set a \<Longrightarrow> split_once c (a @ c # b) = Some (a, b)"
  by (simp add: split_once_def takeWhile_append dropWhile_append)

lemma split_once_Some: "split_once c s = Some (a, b) \<Longrightarrow> s = a @ c # b \<and> c \<notin> set a"
proof -
  assume split: "split_once c s = Some (a, b)"
  then have c: "c \<in> set s" by (simp add: split_once_def split: if_splits)
  then obtain x y where s: "s = x @ c # y" "c \<notin> set x" by (meson split_list_first)
  with split show ?thesis by (simp add: split_once_append)
qed

lemma split_once_None [str_simps]: "split_once c s = None \<longleftrightarrow> c \<notin> set s"
  by (simp add: split_once_def)

lemma split_once_str_None: "pat \<noteq> [] \<Longrightarrow> split_once_str pat s = None \<longleftrightarrow> \<not> sublist pat s"
proof (induction s)
  case Nil
  then show ?case by (simp add: split_once_str.simps)
next
  case (Cons x xs)
  then show ?case
    by (subst split_once_str.simps) (auto simp: sublist_Cons_right)
qed

lemma split_once_str_Some:
  "split_once_str pat s = Some (a, b) \<Longrightarrow>
     s = a @ pat @ b \<and> (\<forall>a' b'. s = a' @ pat @ b' \<longrightarrow> length a \<le> length a')"
proof (induction s arbitrary: a)
  case Nil
  then show ?case by (auto simp: split_once_str.simps split: if_splits)
next
  case (Cons x xs)
  show ?case
  proof (cases "prefix pat (x # xs)")
    case True
    with Cons.prems show ?thesis
      by (auto simp: split_once_str.simps [of pat "x # xs"] prefix_def)
  next
    case False
    with Cons.prems obtain a1 where a: "a = x # a1" "split_once_str pat xs = Some (a1, b)"
      by (auto simp: split_once_str.simps [of pat "x # xs"])
    have "length a \<le> length a'" if "x # xs = a' @ pat @ b'" for a' b'
      using that False Cons.IH [OF a(2)] a(1) by (cases a') (auto simp: prefix_def)
    with Cons.IH [OF a(2)] a(1) show ?thesis by simp
  qed
qed

lemma split_once_str_first:
  assumes "\<And>a' b'. s @ pat @ t = a' @ pat @ b' \<Longrightarrow> length s \<le> length a'" and "pat \<noteq> []"
  shows "split_once_str pat (s @ pat @ t) = Some (s, t)"
proof (cases "split_once_str pat (s @ pat @ t)")
  case None
  then show ?thesis using assms(2) by (auto simp: split_once_str_None)
next
  case (Some ab)
  obtain a b where ab: "ab = (a, b)" by (cases ab)
  have eq: "s @ pat @ t = a @ pat @ b" and le: "length a \<le> length s"
    using split_once_str_Some [OF Some [unfolded ab]] by blast+
  with assms(1) [OF eq] have "length a = length s" by simp
  with eq show ?thesis using Some ab by auto
qed

lemma str_find_append: "c \<notin> set a \<Longrightarrow> str_find c (a @ c # b) = Some (length a)"
  by (simp add: str_find_def takeWhile_append)

lemma str_find_None: "str_find c s = None \<longleftrightarrow> c \<notin> set s"
  by (simp add: str_find_def)

lemma str_find_Some:
  assumes "str_find c s = Some i"
  shows "i < length s" "s ! i = c" "c \<notin> set (take i s)"
proof -
  from assms have c: "c \<in> set s" and i: "i = length (takeWhile (\<lambda>x. x \<noteq> c) s)"
    by (auto simp: str_find_def split: if_splits)
  from c obtain x y where s: "s = x @ c # y" "c \<notin> set x" by (meson split_list_first)
  then have "i = length x" using i by (simp add: takeWhile_append)
  with s show "i < length s" "s ! i = c" "c \<notin> set (take i s)" by simp_all
qed

lemma rsplit_once_append [str_simps]:
  "c \<notin> set b \<Longrightarrow> rsplit_once c (a @ c # b) = Some (a, b)"
  by (simp add: rsplit_once_def split_once_append)

lemma rsplit_once_None [str_simps]: "rsplit_once c s = None \<longleftrightarrow> c \<notin> set s"
  by (simp add: rsplit_once_def split_once_None)

lemma strip_prefix_Cons: "strip_prefix [c] s = (case s of [] \<Rightarrow> None | x # xs \<Rightarrow> if x = c then Some xs else None)"
  by (auto simp: strip_prefix_def split: list.splits)

lemma strip_prefix_append [simp]: "strip_prefix p (p @ s) = Some s"
  by (simp add: strip_prefix_def)

lemma strip_suffix_append [simp]: "strip_suffix p (s @ p) = Some s"
  by (simp add: strip_suffix_def)

subsection \<open>Letter case\<close>

lemma ascii_lower_idem [simp]: "ascii_lower (ascii_lower c) = ascii_lower c"
proof -
  have "(of_char c :: nat) < 256" by (rule nat_of_char_less_256)
  then show ?thesis by (simp add: ascii_lower_def of_char_of)
qed

lemma to_ascii_lowercase_idem [simp]: "to_ascii_lowercase (to_ascii_lowercase s) = to_ascii_lowercase s"
  by (simp add: to_ascii_lowercase_def comp_def)

subsection \<open>White space and lines\<close>

text \<open>Visible ASCII characters; trimming leaves a string alone that starts and ends with one.\<close>

definition graphic :: "char \<Rightarrow> bool" where
  "graphic c \<longleftrightarrow> 33 \<le> (of_char c :: nat) \<and> (of_char c :: nat) \<le> 126"

lemma white_space_ends: "w \<in> set white_space \<Longrightarrow> w \<noteq> [] \<and> \<not> graphic (hd w) \<and> \<not> graphic (last w)"
  unfolding white_space_def graphic_def by (auto simp: of_char_of)

lemma trim_start_of_graphic:
  assumes "\<And>w. w \<in> set ws \<Longrightarrow> w = [] \<or> \<not> graphic (hd w)" and "s = [] \<or> graphic (hd s)"
  shows "trim_start_of ws s = s"
proof -
  have "find (\<lambda>w. w \<noteq> [] \<and> prefix w s) ws = None"
    using assms(2) by (auto simp: find_None_iff prefix_def dest: assms(1))
  then show ?thesis by (subst trim_start_of.simps) simp
qed

lemma trim_graphic:
  assumes "s = [] \<or> graphic (hd s) \<and> graphic (last s)"
  shows "trim s = s"
proof -
  have "trim_start_of white_space s = s"
    using assms white_space_ends by (intro trim_start_of_graphic) auto
  moreover have "trim_start_of (map rev white_space) (rev s) = rev s"
    using assms white_space_ends by (intro trim_start_of_graphic) (auto simp: hd_rev)
  ultimately show ?thesis by (simp add: trim_def)
qed

lemma strip_cr_graphic: "s = [] \<or> graphic (last s) \<Longrightarrow> strip_cr s = s"
  by (cases s rule: rev_cases)
    (auto simp: strip_cr_def strip_suffix_def strip_prefix_Cons graphic_def split: list.splits)

lemma lines_Nil [simp]: "lines [] = []"
  by (simp add: lines.simps)

lemma lines_append:
  assumes "newline \<notin> set l" and "l = [] \<or> graphic (last l)"
  shows "lines (l @ newline # r) = l # lines r"
  using assms by (subst lines.simps) (simp add: split_once_append strip_cr_graphic)

lemma lines_concat:
  assumes "\<forall>l \<in> set ls. newline \<notin> set l \<and> (l = [] \<or> graphic (last l))"
  shows "lines (concat (map (\<lambda>l. l @ [newline]) ls) @ r) = ls @ lines r"
  using assms by (induction ls) (auto simp: lines_append)

lemma graphic_not_newline: "graphic c \<Longrightarrow> c \<noteq> newline"
  by (auto simp: graphic_def newline_def)

lemma utf8_valid_ascii: "\<forall>b \<in> set bs. b < 0x80 \<Longrightarrow> utf8_valid bs"
proof (induction bs)
  case (Cons b bs)
  then show ?case by (subst utf8_valid.simps) (simp add: utf8_len_def)
qed (simp add: utf8_valid.simps)

lemma utf8_valid_as_bytes:
  assumes "\<forall>c \<in> set s. (of_char c :: nat) < 128"
  shows "utf8_valid (as_bytes s)"
  using assms by (intro utf8_valid_ascii) (auto simp: as_bytes_def word_less_nat_alt)

end
