(* ===== verification/Varint.thy ===== *)
theory Varint
  imports Prelude
begin

text \<open>
  QUIC variable-length integers, \<^verbatim>\<open>src/src/varint.rs\<close>: \<open>varint_decode\<close>, \<open>encoded_len\<close> and
  \<open>varint_encode\<close>.  The two high bits of the first byte select a length of 1, 2, 4 or 8 bytes;
  the remaining 6, 14, 30 or 62 bits are the value in network order.
\<close>

section \<open>Definitions\<close>

definition varint_decode :: "bytes \<Rightarrow> (u64 \<times> nat) option" where
  "varint_decode buf = (case buf of
     [] \<Rightarrow> None
   | first # _ \<Rightarrow>
       (let len = push_bit (unat (drop_bit 6 first)) 1 in
        if length buf < len then None
        else Some (fold be_step (slice buf 1 len) (ucast (first AND 0x3f)), len)))"

definition encoded_len :: "u64 \<Rightarrow> nat" where
  "encoded_len value =
     (if value \<le> 63 then 1 else if value \<le> 16383 then 2 else if value \<le> 1073741823 then 4 else 8)"

definition varint_encode :: "u64 \<Rightarrow> bytes \<Rightarrow> bytes" where
  "varint_encode value out =
     (let n = encoded_len value in
      if n = 1 then out @ [ucast value]
      else if n = 2 then out @ to_be_bytes 2 ((ucast value :: u16) OR 0x4000)
      else if n = 4 then out @ to_be_bytes 4 ((ucast value :: u32) OR 0x80000000)
      else out @ to_be_bytes 8 (value OR 0xc000000000000000))"

text \<open>The values a varint can carry.\<close>

definition varint_range :: "u64 \<Rightarrow> bool" where
  "varint_range v \<longleftrightarrow> v < 2 ^ 62"

section \<open>Lengths\<close>

lemma encoded_len_cases: "encoded_len v \<in> {1, 2, 4, 8}"
  by (simp add: encoded_len_def)

lemma encoded_len_bounds: "1 \<le> encoded_len v \<and> encoded_len v \<le> 8"
  by (simp add: encoded_len_def)

lemma length_varint_encode [simp]: "length (varint_encode v out) = length out + encoded_len v"
  by (simp add: varint_encode_def encoded_len_def Let_def)

lemma varint_encode_append: "varint_encode v out = out @ varint_encode v []"
  by (simp add: varint_encode_def Let_def)

section \<open>Decoding what was encoded\<close>

lemma mask6: "(b :: u8) AND 0x3f = take_bit 6 b"
  by (simp add: take_bit_eq_mask mask_eq_exp_minus_1)

lemma tag_byte:
  fixes x :: "'a::len word"
  assumes "LENGTH('a) = 8 * n + 8"
  shows "drop_bit 6 (ucast (drop_bit (8 * n) x) :: u8) = ucast (drop_bit (8 * n + 6) x)"
  using assms by (intro bit_word_eqI) (auto simp: bit_simps ac_simps dest: bit_imp_le_length)

lemma varint_decode_be:
  fixes x :: "'a::len word"
  assumes L: "8 * Suc n \<le> LENGTH('a)"
    and tag: "2 ^ unat (drop_bit 6 (ucast (drop_bit (8 * n) x) :: u8)) = Suc n"
  shows "varint_decode (to_be_bytes (Suc n) x @ r) = Some (take_bit (8 * n + 6) (ucast x), Suc n)"
proof -
  have "push_bit (8 * n) (ucast (take_bit 6 (ucast (drop_bit (8 * n) x) :: u8)))
          OR take_bit (8 * n) (ucast x)
      = take_bit (8 * n + 6) (ucast x :: u64)"
    using L by (intro bit_word_eqI) (auto simp: bit_simps)
  then show ?thesis
    using tag by (simp add: varint_decode_def slice_def be_fold mask6 push_bit_eq_mult)
qed

text \<open>A value written below a length tag \<open>f\<close> decodes to its low \<open>8 * m - 2\<close> bits.\<close>

lemma varint_decode_tagged:
  fixes f :: "'a::len word" and v :: u64
  assumes L: "LENGTH('a) = 8 * m" "0 < m" "m \<le> 8"
    and tag: "drop_bit (8 * m - 2) ((ucast v :: 'a word) OR f) = drop_bit (8 * m - 2) f"
    and f: "take_bit (8 * m - 2) f = 0" "2 ^ unat (ucast (drop_bit (8 * m - 2) f) :: u8) = m"
  shows "varint_decode (to_be_bytes m ((ucast v :: 'a word) OR f) @ r)
       = Some (take_bit (8 * m - 2) v, m)"
proof -
  let ?x = "(ucast v :: 'a word) OR f"
  from L obtain n where n: "m = Suc n" by (cases m) auto
  then have k: "8 * m - 2 = 8 * n + 6" by simp
  have "take_bit (8 * n + 6) (ucast ?x) = ucast (take_bit (8 * n + 6) ?x)"
    by (rule unsigned_take_bit_eq [symmetric])
  also have "\<dots> = ucast (take_bit (8 * n + 6) (ucast v :: 'a word))"
    using f unfolding k by simp
  also have "\<dots> = take_bit (8 * n + 6) v"
    using n L by (intro bit_word_eqI) (auto simp: bit_simps)
  finally have "take_bit (8 * n + 6) (ucast ?x) = take_bit (8 * n + 6) v" .
  moreover have "2 ^ unat (drop_bit 6 (ucast (drop_bit (8 * n) ?x) :: u8)) = Suc n"
    using tag f L n unfolding k by (subst tag_byte) simp_all
  ultimately show ?thesis
    using varint_decode_be [of n ?x r] L n unfolding k by simp
qed

lemma or_mask_top: "2 \<le> k \<Longrightarrow> drop_bit 62 (v :: u64) OR mask k = mask k"
  by (rule bit_word_eqI) (auto simp: bit_simps dest: bit_imp_le_length)

lemma or_top_bits: "drop_bit 62 (v :: u64) OR 3 = 3"
  using or_mask_top [of 2 v] by (simp add: mask_eq_exp_minus_1)

lemmas varint_encode_simps = varint_encode_def encoded_len_def Let_def

lemma varint_decode_encode_take:
  "varint_decode (varint_encode v [] @ r) = Some (take_bit 62 v, encoded_len v)"
proof -
  consider (1) "v \<le> 63" | (2) "\<not> v \<le> 63" "v \<le> 16383"
    | (4) "\<not> v \<le> 16383" "v \<le> 1073741823" | (8) "\<not> v \<le> 1073741823"
    by blast
  then show ?thesis
  proof cases
    case 1
    then have v: "v < 2 ^ 6" "v < 2 ^ 62" by (simp_all add: word_less_nat_alt word_le_nat_alt)
    note small = take_bit_ucast_small [OF v(1), where 'b = 8] take_bit_ucast_small [OF v(1), where 'b = 64]
      take_bit_ucast_small [OF v(2), where 'b = 64]
    show ?thesis
      using 1 small varint_decode_tagged [of 1 v "0 :: u8" r] drop_bit_or_small [of 6 "ucast v :: u8" 0]
      by (simp add: varint_encode_simps)
  next
    case 2
    then have v: "v < 2 ^ 14" "v < 2 ^ 62" by (simp_all add: word_less_nat_alt word_le_nat_alt)
    note small = take_bit_ucast_small [OF v(1), where 'b = 16] take_bit_ucast_small [OF v(1), where 'b = 64]
      take_bit_ucast_small [OF v(2), where 'b = 64]
    show ?thesis
      using 2 small varint_decode_tagged [of 2 v "0x4000 :: u16" r]
        drop_bit_or_small [of 14 "ucast v :: u16" "0x4000"]
      by (simp add: varint_encode_simps)
  next
    case 4
    then have v: "v < 2 ^ 30" "v < 2 ^ 62" and "\<not> v \<le> 63"
      by (simp_all add: word_less_nat_alt word_le_nat_alt)
    note small = take_bit_ucast_small [OF v(1), where 'b = 32] take_bit_ucast_small [OF v(1), where 'b = 64]
      take_bit_ucast_small [OF v(2), where 'b = 64]
    show ?thesis
      using 4 \<open>\<not> v \<le> 63\<close> small varint_decode_tagged [of 4 v "0x80000000 :: u32" r]
        drop_bit_or_small [of 30 "ucast v :: u32" "0x80000000"]
      by (simp add: varint_encode_simps)
  next
    case 8
    then have "\<not> v \<le> 63" "\<not> v \<le> 16383" by (simp_all add: word_less_nat_alt word_le_nat_alt)
    then show ?thesis
      using 8 varint_decode_tagged [of 8 v "0xc000000000000000 :: u64" r]
      by (simp add: varint_encode_simps or_top_bits)
  qed
qed

lemma varint_range_take: "varint_range v \<longleftrightarrow> take_bit 62 v = v"
proof
  assume "take_bit 62 v = v"
  moreover have "unat (take_bit 62 v) < 2 ^ 62"
    by (simp add: unsigned_take_bit_eq take_bit_nat_def)
  ultimately show "varint_range v"
    by (simp add: varint_range_def word_less_nat_alt)
qed (use take_bit_ucast_small [of v 62, where 'b = 64] in \<open>simp add: varint_range_def\<close>)

section \<open>Decoding any buffer\<close>

lemma varint_decode_Cons:
  "varint_decode (b # r) =
     (if Suc (length r) < 2 ^ unat (drop_bit 6 b) then None
      else Some (fold be_step (take (2 ^ unat (drop_bit 6 b) - 1) r) (ucast (take_bit 6 b)),
                 2 ^ unat (drop_bit 6 b)))"
  by (simp add: varint_decode_def slice_def push_bit_eq_mult Let_def mask6)

lemma varint_decode_Nil [simp]: "varint_decode [] = None"
  by (simp add: varint_decode_def)

lemma tag_less: "unat (drop_bit 6 (b :: u8)) < 4"
proof -
  have "unat b < 256" using unsigned_less [of b, where 'a = nat] by simp
  then show ?thesis by (simp add: drop_bit_eq_div unat_div_distrib)
qed

lemma fold_be_step_bound:
  "take_bit k (v :: u64) = v \<Longrightarrow>
     take_bit (k + 8 * length bs) (fold be_step bs v) = fold be_step bs v"
proof (induction bs arbitrary: v k)
  case (Cons b bs)
  have "take_bit (k + 8) (be_step b v) = be_step b v"
    unfolding be_step_def
    by (subst Cons.prems [symmetric], rule bit_word_eqI) (auto simp: bit_simps dest: bit_imp_le_length)
  from Cons.IH [OF this] show ?case by (simp add: add.assoc)
qed simp

lemma varint_decode_Cons_Some:
  assumes "varint_decode (b # r) = Some (v, n)"
  shows "n = 2 ^ unat (drop_bit 6 b)" and "n \<le> Suc (length r)"
    and "v = fold be_step (take (n - 1) r) (ucast (take_bit 6 b))"
  using assms unfolding varint_decode_Cons by (auto simp only: split: if_splits)

lemma varint_decode_fits:
  assumes "varint_decode buf = Some (v, n)"
  shows "take_bit (8 * n - 2) v = v" and "n \<in> {1, 2, 4, 8}"
proof -
  from assms obtain b r where buf: "buf = b # r" by (cases buf) auto
  note dec = varint_decode_Cons_Some [OF assms [unfolded buf]]
  have "unat (drop_bit 6 b) \<in> {0, 1, 2, 3}" using tag_less [of b] by auto
  then show n: "n \<in> {1, 2, 4, 8}" unfolding dec(1) by auto
  have "take_bit 6 (ucast (take_bit 6 b) :: u64) = ucast (take_bit 6 b)"
    by (rule bit_word_eqI) (auto simp: bit_simps)
  then have "take_bit (6 + 8 * length (take (n - 1) r)) v = v"
    unfolding dec(3) by (rule fold_be_step_bound)
  moreover have "6 + 8 * length (take (n - 1) r) = 8 * n - 2"
    using n dec(2) by auto
  ultimately show "take_bit (8 * n - 2) v = v" by (simp only:)
qed

lemma varint_decode_range:
  assumes "varint_decode buf = Some (v, n)"
  shows "varint_range v"
proof -
  have "8 * n - 2 \<le> 62" using varint_decode_fits(2) [OF assms] by auto
  then show ?thesis
    using varint_decode_fits(1) [OF assms] unfolding varint_range_take
    by (metis min.absorb2 take_bit_take_bit)
qed

lemma varint_decode_bounds: "varint_decode buf = Some (v, n) \<Longrightarrow> 0 < n \<and> n \<le> length buf"
  by (cases buf) (auto dest: varint_decode_Cons_Some)

lemma varint_decode_local:
  assumes "varint_decode buf = Some (v, n)"
  shows "varint_decode (take n buf @ r) = Some (v, n)"
proof -
  obtain b q where buf: "buf = b # q" using assms by (cases buf) auto
  note dec = varint_decode_Cons_Some [OF assms [unfolded buf]]
  obtain m where m: "n = Suc m" using varint_decode_bounds [OF assms] gr0_conv_Suc by blast
  have "take n buf @ r = b # take m q @ r" by (simp add: buf m)
  moreover have "length (take m q) = m" using dec(2) m by simp
  ultimately show ?thesis
    using dec(1,3) m by (simp add: varint_decode_Cons)
qed

interpretation vi: prefix_codec "\<lambda>v. varint_encode v []" varint_decode varint_range
proof unfold_locales
  show "varint_decode (varint_encode v [] @ r) = Some (v, length (varint_encode v []))"
    if "varint_range v" for v r
    using that by (simp add: varint_decode_encode_take varint_range_take)
qed (auto dest: varint_decode_bounds varint_decode_range varint_decode_local)

lemma take_bit_u64_le: "take_bit k v = v \<Longrightarrow> k < 64 \<Longrightarrow> unat (v :: u64) < 2 ^ k"
  by (metis take_bit_nat_less_exp unsigned_take_bit_eq)

section \<open>Properties\<close>

text \<open>C38. Decoding a value that \<^const>\<open>varint_encode\<close> appended to any buffer, whatever follows it,
  yields the value's low 62 bits and the encoded length; below \<open>2 ^ 62\<close> this is the value itself.\<close>

theorem varint_decode_encode:
  "varint_decode (drop (length out) (varint_encode v out) @ r) = Some (take_bit 62 v, encoded_len v)
   \<and> (take_bit 62 v = v \<longleftrightarrow> v < 2 ^ 62)"
  using varint_decode_encode_take [of v r] varint_encode_append [of v out] varint_range_take [of v]
  by (simp add: varint_range_def)

text \<open>The encoder is canonical: no accepted encoding of a value is shorter than the one
  \<^const>\<open>varint_encode\<close> produces.\<close>

theorem encoded_len_minimal:
  assumes "varint_decode buf = Some (v, n)"
  shows "encoded_len v \<le> n \<and> length (varint_encode v []) \<le> n"
proof -
  have n: "n \<in> {1, 2, 4, 8}" and fits: "take_bit (8 * n - 2) v = v"
    using varint_decode_fits [OF assms] by auto
  have "unat v < 2 ^ (8 * n - 2)" using n by (intro take_bit_u64_le [OF fits]) auto
  then show ?thesis
    using n by (auto simp: encoded_len_def word_le_nat_alt)
qed

theorem encoded_len_minimal_witness:
  "varint_decode [0x40, 0x25] = Some (0x25, 2) \<and> encoded_len 0x25 \<le> 2"
proof -
  have "varint_decode [0x40, 0x25] = Some (0x25, 2)"
    by (simp add: varint_decode_Cons be_step_def)
  with encoded_len_minimal [OF this] show ?thesis by simp
qed

text \<open>Decoding fails exactly on a buffer shorter than the length its first byte announces;
  otherwise it consumes that many bytes, 1, 2, 4 or 8, and never reads past them.\<close>

theorem varint_decode_total:
  "(varint_decode buf = None \<longleftrightarrow> buf = [] \<or> length buf < 2 ^ unat (drop_bit 6 (hd buf)))
   \<and> (\<forall>v n. varint_decode buf = Some (v, n) \<longrightarrow>
        n = 2 ^ unat (drop_bit 6 (hd buf)) \<and> n \<in> {1, 2, 4, 8} \<and> n \<le> length buf \<and> v < 2 ^ 62
        \<and> (\<forall>r. varint_decode (take n buf @ r) = Some (v, n)))"
proof (cases buf)
  case (Cons b r)
  have "varint_decode buf = None \<longleftrightarrow> length buf < 2 ^ unat (drop_bit 6 (hd buf))"
    by (simp add: Cons varint_decode_Cons)
  moreover have "n = 2 ^ unat (drop_bit 6 (hd buf)) \<and> n \<in> {1, 2, 4, 8} \<and> n \<le> length buf \<and> v < 2 ^ 62
        \<and> (\<forall>r. varint_decode (take n buf @ r) = Some (v, n))"
    if "varint_decode buf = Some (v, n)" for v n
    using varint_decode_Cons_Some(1,2) [OF that [unfolded Cons]] varint_decode_fits(2) [OF that]
      vi.dec_wf [OF that] vi.dec_local [OF that]
    by (simp add: Cons varint_range_def)
  ultimately show ?thesis by (simp add: Cons)
qed simp

theorem varint_decode_total_witness:
  "varint_decode [0x7b, 0xbd] = Some (15293, 2) \<and> varint_decode [0x80, 0x00] = None \<and> (2::nat) \<in> {1, 2, 4, 8}"
proof -
  have "varint_decode [0x7b, 0xbd] = Some (15293, 2)"
    by (simp add: varint_decode_Cons be_step_def)
  then show ?thesis
    using varint_decode_total [of "[0x7b, 0xbd]"] varint_decode_total [of "[0x80, 0x00]"] by simp
qed

end
