(* ===== verification/Dgram.thy ===== *)
theory Dgram
  imports Varint
begin

text \<open>
  CONNECT-UDP datagram framing, \<^verbatim>\<open>src/src/dgram.rs\<close>: a quarter stream id and a context id, both
  varints, then the UDP payload.  Context 0 is a raw UDP payload.
\<close>

section \<open>Definitions\<close>

definition CONTEXT_ID_UDP :: u64 where
  "CONTEXT_ID_UDP = 0"

definition dgram_encode :: "u64 \<Rightarrow> bytes \<Rightarrow> bytes" where
  "dgram_encode flow_id udp_payload =
     (let out = [];
          out = varint_encode flow_id out;
          out = varint_encode CONTEXT_ID_UDP out
      in out @ udp_payload)"

record parsed =
  p_flow_id :: u64
  p_context_id :: u64
  p_payload :: bytes

definition dgram_decode :: "bytes \<Rightarrow> parsed option" where
  "dgram_decode buf = (case varint_decode buf of
     None \<Rightarrow> None
   | Some (fid, n1) \<Rightarrow>
       (case varint_decode (drop n1 buf) of
          None \<Rightarrow> None
        | Some (ctx, n2) \<Rightarrow> Some \<lparr>p_flow_id = fid, p_context_id = ctx, p_payload = drop (n1 + n2) buf\<rparr>))"

section \<open>Lemmas\<close>

lemma context_id_range [simp]: "varint_range CONTEXT_ID_UDP"
  by (simp add: varint_range_def CONTEXT_ID_UDP_def)

lemma encode_context [simp]: "varint_encode CONTEXT_ID_UDP [] = [0]"
  by (simp add: varint_encode_simps CONTEXT_ID_UDP_def)

lemma dgram_encode_append: "dgram_encode f p = varint_encode f [] @ varint_encode CONTEXT_ID_UDP [] @ p"
  unfolding dgram_encode_def Let_def
  by (subst varint_encode_append [of CONTEXT_ID_UDP "varint_encode f []"]) simp

lemma length_dgram_encode: "length (dgram_encode f p) = encoded_len f + 1 + length p"
  by (simp add: dgram_encode_append)

lemma dgram_decode_encode:
  assumes "varint_range f"
  shows "dgram_decode (dgram_encode f p) = Some \<lparr>p_flow_id = f, p_context_id = CONTEXT_ID_UDP, p_payload = p\<rparr>"
  using vi.dec_enc [OF assms, of "varint_encode CONTEXT_ID_UDP [] @ p"]
    vi.dec_enc [OF context_id_range, of p]
  by (simp add: dgram_decode_def dgram_encode_append)

lemma dgram_decode_Some:
  assumes "dgram_decode buf = Some d"
  obtains n1 n2 where "varint_decode buf = Some (p_flow_id d, n1)"
    "varint_decode (drop n1 buf) = Some (p_context_id d, n2)"
    "p_payload d = drop (n1 + n2) buf" "n1 + n2 \<le> length buf" "0 < n1" "0 < n2"
proof -
  from assms obtain n1 n2 where 1: "varint_decode buf = Some (p_flow_id d, n1)"
    and 2: "varint_decode (drop n1 buf) = Some (p_context_id d, n2)" "p_payload d = drop (n1 + n2) buf"
    by (auto simp: dgram_decode_def split: option.splits)
  have "n1 + n2 \<le> length buf" "0 < n1" "0 < n2"
    using vi.dec_bounds [OF 1] vi.dec_bounds [OF 2(1)] by auto
  with that [OF 1 2] show thesis by blast
qed

lemma varint_range_flow: "varint_range (stream_id div 4)"
proof -
  have "unat stream_id < 2 ^ 64" using unsigned_less [of stream_id, where 'a = nat] by simp
  then show ?thesis by (simp add: varint_range_def word_less_nat_alt unat_div_distrib)
qed

section \<open>Properties\<close>

text \<open>A payload framed for a flow comes back, byte for byte, on the same flow and in the raw-UDP
  context.  Every flow id the program uses is a stream id divided by 4, so the bound always holds.\<close>

theorem dgram_roundtrip:
  "dgram_decode (dgram_encode (stream_id div 4) p)
     = Some \<lparr>p_flow_id = stream_id div 4, p_context_id = CONTEXT_ID_UDP, p_payload = p\<rparr>"
  by (rule dgram_decode_encode [OF varint_range_flow])

text \<open>What any received datagram decodes to: the payload is exactly the bytes after the two
  varints, whose combined length is between 2 and 16, and framing the payload again for the decoded
  flow is never longer than the received datagram.\<close>

theorem dgram_decode_payload:
  assumes "dgram_decode buf = Some d"
  shows "suffix (p_payload d) buf \<and> length (p_payload d) + 2 \<le> length buf \<and> length buf \<le> length (p_payload d) + 16
    \<and> p_flow_id d < 2 ^ 62 \<and> p_context_id d < 2 ^ 62
    \<and> length (dgram_encode (p_flow_id d) (p_payload d)) \<le> length buf"
proof -
  obtain n1 n2 where n: "varint_decode buf = Some (p_flow_id d, n1)"
    "varint_decode (drop n1 buf) = Some (p_context_id d, n2)"
    "p_payload d = drop (n1 + n2) buf" "n1 + n2 \<le> length buf" "0 < n1" "0 < n2"
    using dgram_decode_Some [OF assms] .
  have "encoded_len (p_flow_id d) \<le> n1"
    using varint_decode_fits [OF n(1)] take_bit_u64_le [of "8 * n1 - 2" "p_flow_id d"]
    by (auto simp: encoded_len_def word_le_nat_alt)
  moreover have "n1 \<in> {1, 2, 4, 8}" "n2 \<in> {1, 2, 4, 8}"
    using varint_decode_fits(2) n(1,2) by blast+
  moreover have "varint_range (p_flow_id d)" "varint_range (p_context_id d)"
    using vi.dec_wf n(1,2) by blast+
  ultimately show ?thesis
    using n(3-6) by (auto simp: suffix_drop length_dgram_encode varint_range_def)
qed

theorem dgram_decode_payload_witness:
  "dgram_decode [7, 0, 0x68, 0x69] = Some \<lparr>p_flow_id = 7, p_context_id = 0, p_payload = [0x68, 0x69]\<rparr>
   \<and> length (dgram_encode 7 [0x68, 0x69]) \<le> 4"
proof -
  have d: "dgram_decode [7, 0, 0x68, 0x69] = Some \<lparr>p_flow_id = 7, p_context_id = 0, p_payload = [0x68, 0x69]\<rparr>"
    by (simp add: dgram_decode_def varint_decode_Cons)
  show ?thesis using d dgram_decode_payload [OF d] by simp
qed

text \<open>Datagrams of different flows, or with different payloads, are different byte strings.\<close>

theorem dgram_encode_inj:
  assumes "f < 2 ^ 62" "g < 2 ^ 62" "dgram_encode f p = dgram_encode g q"
  shows "f = g \<and> p = q"
  using assms vi.enc_prefix_free [of f g "varint_encode CONTEXT_ID_UDP [] @ p"
      "varint_encode CONTEXT_ID_UDP [] @ q"]
  by (simp add: dgram_encode_append varint_range_def)

theorem dgram_encode_inj_witness: "dgram_encode 3 [1] \<noteq> dgram_encode 70 [1]"
  using dgram_encode_inj [of 3 70 "[1]" "[1]"] by auto

end
