(* ===== verification/Net.thy ===== *)
theory Net
  imports Prelude
begin

text \<open>
  The part of Rust's \<^verbatim>\<open>std::net\<close> and \<^verbatim>\<open>std::time\<close> that the program uses: IP and socket
  addresses, and durations and instants as numbers of nanoseconds.
\<close>

type_synonym duration = nat
type_synonym instant = nat

definition from_secs :: "u64 \<Rightarrow> duration" where
  "from_secs s = unat s * 10 ^ 9"

definition from_millis :: "u64 \<Rightarrow> duration" where
  "from_millis s = unat s * 10 ^ 6"

text \<open>\<^verbatim>\<open>Instant::duration_since\<close> saturates to zero, as subtraction on \<^typ>\<open>nat\<close> does.\<close>

definition duration_since :: "instant \<Rightarrow> instant \<Rightarrow> duration" where
  "duration_since now earlier = now - earlier"

datatype ip_addr = V4 u32 | V6 "128 word"

datatype socket_addr =
    SocketV4 u32 u16
  | SocketV6 "128 word" u16 u32 u32

fun addr_ip :: "socket_addr \<Rightarrow> ip_addr" where
  "addr_ip (SocketV4 a _) = V4 a"
| "addr_ip (SocketV6 a _ _ _) = V6 a"

fun addr_port :: "socket_addr \<Rightarrow> u16" where
  "addr_port (SocketV4 _ p) = p"
| "addr_port (SocketV6 _ p _ _) = p"

fun socket_addr_new :: "ip_addr \<Rightarrow> u16 \<Rightarrow> socket_addr" where
  "socket_addr_new (V4 a) p = SocketV4 a p"
| "socket_addr_new (V6 a) p = SocketV6 a p 0 0"

fun ip_is_ipv4 :: "ip_addr \<Rightarrow> bool" where
  "ip_is_ipv4 (V4 _) = True"
| "ip_is_ipv4 (V6 _) = False"

definition addr_is_ipv4 :: "socket_addr \<Rightarrow> bool" where
  "addr_is_ipv4 a = ip_is_ipv4 (addr_ip a)"

text \<open>\<^verbatim>\<open>IpAddr::to_canonical\<close>: an IPv4-mapped address \<^verbatim>\<open>::ffff:a.b.c.d\<close> becomes \<^verbatim>\<open>a.b.c.d\<close>.\<close>

fun to_canonical :: "ip_addr \<Rightarrow> ip_addr" where
  "to_canonical (V4 a) = V4 a"
| "to_canonical (V6 a) = (if drop_bit 32 a = 0xffff then V4 (ucast a) else V6 a)"

text \<open>The wildcard addresses \<^verbatim>\<open>0.0.0.0:0\<close> and \<^verbatim>\<open>[::]:0\<close>.\<close>

definition any_v4 :: socket_addr where
  "any_v4 = SocketV4 0 0"

definition any_v6 :: socket_addr where
  "any_v6 = SocketV6 0 0 0 0"

lemma addr_ip_new [simp]: "addr_ip (socket_addr_new i p) = i"
  by (cases i) auto

lemma addr_port_new [simp]: "addr_port (socket_addr_new i p) = p"
  by (cases i) auto

lemma to_canonical_idem [simp]: "to_canonical (to_canonical i) = to_canonical i"
  by (cases i) auto

end
