(* ===== verification/Kernel.thy ===== *)
theory Kernel
  imports Net
begin

text \<open>
  The operating system as the program sees it.  Every system call, clock reading and received message is
  an event of a trace; a \<^emph>\<open>kernel\<close> is any function that answers a call from the trace so far, so that a
  statement for all kernels covers every behaviour of the machine.  Also the fragment of
  \<^verbatim>\<open>std::io::Error\<close> the program inspects.
\<close>

section \<open>Errors\<close>

type_synonym errno = int
type_synonym fd = int

datatype error_kind = WouldBlock | Interrupted | AddrInUse | WriteZero | InvalidData | OtherKind

record io_error =
  err_kind :: error_kind
  raw_os_error :: "errno option"

definition EINTR :: errno where "EINTR = 4"
definition EIO :: errno where "EIO = 5"
definition EAGAIN :: errno where "EAGAIN = 11"
definition EINVAL :: errno where "EINVAL = 22"
definition ENOTSUP :: errno where "ENOTSUP = 95"
definition EADDRINUSE :: errno where "EADDRINUSE = 98"

text \<open>\<^verbatim>\<open>io::Error::last_os_error\<close> on Linux, for the kinds the program tells apart.\<close>

definition last_os_error :: "errno \<Rightarrow> io_error" where
  "last_os_error e =
     \<lparr>err_kind = (if e = EAGAIN then WouldBlock else if e = EINTR then Interrupted
        else if e = EADDRINUSE then AddrInUse else OtherKind),
      raw_os_error = Some e\<rparr>"

text \<open>\<^verbatim>\<open>io::Error::new\<close>: an error without an \<^verbatim>\<open>errno\<close>.\<close>

definition io_error_new :: "error_kind \<Rightarrow> io_error" where
  "io_error_new knd = \<lparr>err_kind = knd, raw_os_error = None\<rparr>"

section \<open>Calls, events and kernels\<close>

datatype syscall =
    Udp_Bind socket_addr
  | Socket_New bool
  | Setsockopt fd int int int
  | Bind fd socket_addr
  | Connect fd socket_addr
  | Set_Nonblocking fd
  | From_Std fd
  | Local_Addr fd
  | Close fd
  | Sendmsg fd "socket_addr option" bytes "u16 option"
  | Await_Writable fd
  | Await_Readable fd
  | Signalfd
  | Block_Sighup
  | Ignore_Sighup

text \<open>A peer address as \<^verbatim>\<open>recvmsg\<close> leaves it: the family and, for the two Internet families, the fields
  in network byte order.\<close>

datatype sockaddr_storage =
    Sockaddr_In "u8 list" "u8 list"
  | Sockaddr_In6 "u8 list" "u8 list" u32 u32
  | Sockaddr_Other int

record cmsg =
  cmsg_level :: int
  cmsg_type :: int
  cmsg_data :: u16

record received =
  rc_data :: bytes
  rc_name :: sockaddr_storage
  rc_control :: "cmsg list"

datatype event =
    Call syscall "errno + int"
  | Recvmsg fd nat "errno + received"
  | Now instant

type_synonym trace = "event list"

record kernel =
  k_call :: "trace \<Rightarrow> syscall \<Rightarrow> errno + int"
  k_recvmsg :: "trace \<Rightarrow> fd \<Rightarrow> nat \<Rightarrow> errno + received"
  k_now :: "trace \<Rightarrow> instant"

definition sys :: "kernel \<Rightarrow> syscall \<Rightarrow> trace \<Rightarrow> (errno + int) \<times> trace" where
  "sys k s t = (let r = k_call k t s in (r, t @ [Call s r]))"

definition recvmsg :: "kernel \<Rightarrow> fd \<Rightarrow> nat \<Rightarrow> trace \<Rightarrow> (errno + received) \<times> trace" where
  "recvmsg k fd n t = (let r = k_recvmsg k t fd n in (r, t @ [Recvmsg fd n r]))"

text \<open>\<^verbatim>\<open>Instant::now\<close>.\<close>

definition instant_now :: "kernel \<Rightarrow> trace \<Rightarrow> instant \<times> trace" where
  "instant_now k t = (let n = k_now k t in (n, t @ [Now n]))"

section \<open>What reaches the wire\<close>

text \<open>The datagrams a successful \<^verbatim>\<open>sendmsg\<close> puts on the wire: the payload, or with \<^verbatim>\<open>UDP_SEGMENT\<close> its
  pieces of the given size (\<^verbatim>\<open>udp(7)\<close>; size 0 turns segmentation off).\<close>

definition gso_segments :: "u16 option \<Rightarrow> bytes \<Rightarrow> bytes list" where
  "gso_segments gso payload =
     (case gso of None \<Rightarrow> [payload]
      | Some s \<Rightarrow> if s = 0 then [payload] else chunks (unat s) payload)"

fun wire_event :: "event \<Rightarrow> (fd \<times> socket_addr option \<times> bytes) list" where
  "wire_event (Call (Sendmsg fd dst payload gso) (Inr n)) = map (\<lambda>p. (fd, dst, p)) (gso_segments gso payload)"
| "wire_event _ = []"

definition wire :: "trace \<Rightarrow> (fd \<times> socket_addr option \<times> bytes) list" where
  "wire t = concat (map wire_event t)"

lemma wire_append [simp]: "wire (t @ u) = wire t @ wire u"
  by (simp add: wire_def)

lemma wire_Nil [simp]: "wire [] = []"
  by (simp add: wire_def)

lemma wire_Cons [simp]: "wire (e # u) = wire_event e @ wire u"
  by (simp add: wire_def)

lemma sys_eq: "sys k s t = (k_call k t s, t @ [Call s (k_call k t s)])"
  by (simp add: sys_def Let_def)

lemma fst_sys [simp]: "fst (sys k s t) = k_call k t s"
  by (simp add: sys_def Let_def)

lemma snd_sys [simp]: "snd (sys k s t) = t @ [Call s (k_call k t s)]"
  by (simp add: sys_def Let_def)

text \<open>Descriptors the trace has opened and not closed.\<close>

fun open_event :: "event \<Rightarrow> fd set \<Rightarrow> fd set" where
  "open_event (Call (Udp_Bind _) (Inr n)) fds = insert n fds"
| "open_event (Call (Socket_New _) (Inr n)) fds = insert n fds"
| "open_event (Call Signalfd (Inr n)) fds = insert n fds"
| "open_event (Call (Close fd) _) fds = fds - {fd}"
| "open_event _ fds = fds"

definition open_fds :: "trace \<Rightarrow> fd set" where
  "open_fds t = fold open_event t {}"

lemma open_fds_snoc [simp]: "open_fds (t @ [e]) = open_event e (open_fds t)"
  by (simp add: open_fds_def)

text \<open>A machine on which every call succeeds at once and nothing is ever received.\<close>

fun calm_call :: "syscall \<Rightarrow> errno + int" where
  "calm_call (Sendmsg _ _ payload _) = Inr (int (length payload))"
| "calm_call (Udp_Bind _) = Inr 3"
| "calm_call (Socket_New _) = Inr 3"
| "calm_call Signalfd = Inr 4"
| "calm_call _ = Inr 0"

definition calm_kernel :: kernel where
  "calm_kernel = \<lparr>k_call = (\<lambda>_. calm_call), k_recvmsg = (\<lambda>_ _ _. Inl EAGAIN), k_now = (\<lambda>t. length t)\<rparr>"

end
