(* ===== verification/Quic_Socket.thy ===== *)
theory Quic_Socket
  imports Kernel
begin

text \<open>
  The size constants and the socket-option helpers of \<^verbatim>\<open>src/src/quic.rs\<close>, for Linux.
\<close>

definition MAX_UDP_PAYLOAD :: nat where
  "MAX_UDP_PAYLOAD = 1400"

definition MAX_DATAGRAM_SIZE :: nat where
  "MAX_DATAGRAM_SIZE = MAX_UDP_PAYLOAD"

definition CAPSULE_PROTOCOL_TRUE :: bytes where
  "CAPSULE_PROTOCOL_TRUE = as_bytes ''?1''"

definition SOCKET_BUFFER_BYTES :: int where
  "SOCKET_BUFFER_BYTES = 8 * 1024 * 1024"

text \<open>The Linux numbers of the options the program sets.\<close>

definition SOL_IP :: int where "SOL_IP = 0"
definition SOL_SOCKET :: int where "SOL_SOCKET = 1"
definition SOL_UDP :: int where "SOL_UDP = 17"
definition SOL_IPV6 :: int where "SOL_IPV6 = 41"
definition SO_SNDBUF :: int where "SO_SNDBUF = 7"
definition SO_RCVBUF :: int where "SO_RCVBUF = 8"
definition SO_REUSEADDR :: int where "SO_REUSEADDR = 2"
definition SO_MARK :: int where "SO_MARK = 36"
definition UDP_GRO :: int where "UDP_GRO = 104"
definition IP_TRANSPARENT :: int where "IP_TRANSPARENT = 19"
definition IPV6_TRANSPARENT :: int where "IPV6_TRANSPARENT = 75"

definition set_sockopt_int :: "kernel \<Rightarrow> fd \<Rightarrow> int \<Rightarrow> int \<Rightarrow> int \<Rightarrow> trace \<Rightarrow> (io_error + unit) \<times> trace" where
  "set_sockopt_int k fd level optname value t =
     (case sys k (Setsockopt fd level optname value) t of
        (Inl e, t) \<Rightarrow> (Inl (last_os_error e), t)
      | (Inr _, t) \<Rightarrow> (Inr (), t))"

definition enlarge_udp_buffers :: "kernel \<Rightarrow> fd \<Rightarrow> trace \<Rightarrow> trace" where
  "enlarge_udp_buffers k fd t =
     fold (\<lambda>opt t. snd (set_sockopt_int k fd SOL_SOCKET opt SOCKET_BUFFER_BYTES t)) [SO_RCVBUF, SO_SNDBUF] t"

definition enable_udp_gro :: "kernel \<Rightarrow> fd \<Rightarrow> trace \<Rightarrow> trace" where
  "enable_udp_gro k fd t = snd (set_sockopt_int k fd SOL_UDP UDP_GRO 1 t)"

text \<open>Setting an option sends nothing and opens or closes no descriptor.\<close>

lemma set_sockopt_int_trace:
  "\<exists>r. snd (set_sockopt_int k fd l opt v t) = t @ [Call (Setsockopt fd l opt v) r]"
  by (auto simp: set_sockopt_int_def sys_def Let_def split: sum.splits)

lemma set_sockopt_int_effects [simp]:
  "wire (snd (set_sockopt_int k fd l opt v t)) = wire t"
  "open_fds (snd (set_sockopt_int k fd l opt v t)) = open_fds t"
  using set_sockopt_int_trace [of k fd l opt v t] by (elim exE, simp)+

lemma enlarge_udp_buffers_effects [simp]:
  "wire (enlarge_udp_buffers k fd t) = wire t" "open_fds (enlarge_udp_buffers k fd t) = open_fds t"
  by (simp_all add: enlarge_udp_buffers_def)

lemma enable_udp_gro_effects [simp]:
  "wire (enable_udp_gro k fd t) = wire t" "open_fds (enable_udp_gro k fd t) = open_fds t"
  by (simp_all add: enable_udp_gro_def)

end
