(* ===== verification/Quiche.thy ===== *)
theory Quiche
  imports Net
begin

text \<open>
  The interface of the \<^verbatim>\<open>quiche\<close> crate that the program calls, as a record of functions: the QUIC and HTTP/3
  connection states and the configuration are opaque types, each operation takes the state and returns its
  result with the new state.  The server and the client are written over this record.
\<close>

datatype quic_error = Done | BufferTooShort | StreamLimit | Quic_Error string

datatype h3_error = H3_Done | StreamBlocked | TransportError quic_error | H3_Error string

datatype packet_type = Initial | Packet_Other

record packet_header =
  hdr_ty :: packet_type
  hdr_version :: u32
  hdr_dcid :: bytes
  hdr_scid :: bytes

record header =
  h_name :: bytes
  h_value :: bytes

datatype h3_event =
    Headers "header list"
  | Data
  | Finished
  | Reset u64
  | H3_Other

datatype shutdown = Shutdown_Read | Shutdown_Write

record ('c, 'h, 'g) quiche =
  q_header_from_slice :: "bytes \<Rightarrow> nat \<Rightarrow> quic_error + packet_header"
  q_version_is_supported :: "u32 \<Rightarrow> bool"
  q_negotiate_version :: "bytes \<Rightarrow> bytes \<Rightarrow> nat \<Rightarrow> quic_error + bytes"
  q_accept :: "bytes \<Rightarrow> socket_addr \<Rightarrow> socket_addr \<Rightarrow> 'g \<Rightarrow> quic_error + 'c"
  q_connect :: "string \<Rightarrow> bytes \<Rightarrow> socket_addr \<Rightarrow> socket_addr \<Rightarrow> 'g \<Rightarrow> quic_error + 'c"
  q_recv :: "'c \<Rightarrow> bytes \<Rightarrow> socket_addr \<Rightarrow> socket_addr \<Rightarrow> (quic_error + nat) \<times> 'c"
  q_send :: "'c \<Rightarrow> nat \<Rightarrow> (quic_error + bytes \<times> socket_addr) \<times> 'c"
  q_timeout :: "'c \<Rightarrow> duration option"
  q_on_timeout :: "'c \<Rightarrow> 'c"
  q_is_closed :: "'c \<Rightarrow> bool"
  q_is_established :: "'c \<Rightarrow> bool"
  q_is_in_early_data :: "'c \<Rightarrow> bool"
  q_dgram_send :: "'c \<Rightarrow> bytes \<Rightarrow> (quic_error + unit) \<times> 'c"
  q_dgram_recv :: "'c \<Rightarrow> nat \<Rightarrow> (quic_error + bytes) \<times> 'c"
  q_stream_shutdown :: "'c \<Rightarrow> u64 \<Rightarrow> shutdown \<Rightarrow> u64 \<Rightarrow> (quic_error + unit) \<times> 'c"
  q_send_ack_eliciting :: "'c \<Rightarrow> (quic_error + unit) \<times> 'c"
  h3_with_transport :: "'c \<Rightarrow> (h3_error + 'h) \<times> 'c"
  h3_poll :: "'h \<Rightarrow> 'c \<Rightarrow> (h3_error + u64 \<times> h3_event) \<times> 'h \<times> 'c"
  h3_recv_body :: "'h \<Rightarrow> 'c \<Rightarrow> u64 \<Rightarrow> nat \<Rightarrow> (h3_error + nat) \<times> 'h \<times> 'c"
  h3_send_response :: "'h \<Rightarrow> 'c \<Rightarrow> u64 \<Rightarrow> header list \<Rightarrow> bool \<Rightarrow> (h3_error + unit) \<times> 'h \<times> 'c"
  h3_send_request :: "'h \<Rightarrow> 'c \<Rightarrow> header list \<Rightarrow> bool \<Rightarrow> (h3_error + u64) \<times> 'h \<times> 'c"

text \<open>A connection that plays back a script: it hands out the listed packets, events and datagrams and
  records what it is given and has handed out; its HTTP/3 state is the number of requests sent, from which stream identifiers are
  drawn.  It instantiates the interface in examples.\<close>

record script =
  sc_packets :: "(bytes \<times> socket_addr) list"
  sc_events :: "(u64 \<times> h3_event) list"
  sc_dgrams :: "bytes list"
  sc_taken :: "bytes list"
  sc_up :: bool
  sc_closed :: bool
  sc_sent_dgrams :: "bytes list"
  sc_responses :: "(u64 \<times> header list \<times> bool) list"

definition idle_script :: script where
  "idle_script = \<lparr>sc_packets = [], sc_events = [], sc_dgrams = [], sc_taken = [], sc_up = True, sc_closed = False,
     sc_sent_dgrams = [], sc_responses = []\<rparr>"

definition scripted_for :: "script \<Rightarrow> (script, nat, 'g) quiche" where
  "scripted_for start =
     \<lparr>q_header_from_slice = (\<lambda>pkt n. if pkt = [] then Inl (Quic_Error ''InvalidPacket'') else
          Inr \<lparr>hdr_ty = Initial, hdr_version = 1, hdr_dcid = pkt, hdr_scid = []\<rparr>),
      q_version_is_supported = (\<lambda>v. v = 1),
      q_negotiate_version = (\<lambda>scid dcid n. Inr [0]),
      q_accept = (\<lambda>scid laddr from cfg. Inr start),
      q_connect = (\<lambda>name scid laddr peer cfg. Inr start),
      q_recv = (\<lambda>c pkt dst from. (Inr (length pkt), c)),
      q_send = (\<lambda>c n. case sc_packets c of
          [] \<Rightarrow> (Inl Done, c)
        | (out, dst) # ps \<Rightarrow> if 0 < length out \<and> length out \<le> n then (Inr (out, dst), c\<lparr>sc_packets := ps\<rparr>)
            else (Inl Done, c)),
      q_timeout = (\<lambda>c. None),
      q_on_timeout = (\<lambda>c. c),
      q_is_closed = (\<lambda>c. sc_closed start),
      q_is_established = sc_up,
      q_is_in_early_data = (\<lambda>c. False),
      q_dgram_send = (\<lambda>c d. (Inr (), c\<lparr>sc_sent_dgrams := sc_sent_dgrams c @ [d]\<rparr>)),
      q_dgram_recv = (\<lambda>c n. case sc_dgrams c of
          [] \<Rightarrow> (Inl Done, c)
        | d # ds \<Rightarrow> if length d \<le> n then (Inr d, c\<lparr>sc_dgrams := ds, sc_taken := sc_taken c @ [d]\<rparr>) else (Inl BufferTooShort, c)),
      q_stream_shutdown = (\<lambda>c sid dir err. (Inr (), c)),
      q_send_ack_eliciting = (\<lambda>c. (Inr (), c)),
      h3_with_transport = (\<lambda>c. (Inr 0, c)),
      h3_poll = (\<lambda>h c. case sc_events c of
          [] \<Rightarrow> (Inl H3_Done, h, c) | e # es \<Rightarrow> (Inr e, h, c\<lparr>sc_events := es\<rparr>)),
      h3_recv_body = (\<lambda>h c sid n. (Inl H3_Done, h, c)),
      h3_send_response = (\<lambda>h c sid hs fin. (Inr (), h, c\<lparr>sc_responses := sc_responses c @ [(sid, hs, fin)]\<rparr>)),
      h3_send_request = (\<lambda>h c hs fin. if h < 2 ^ 62 then (Inr (word_of_nat (4 * h)), Suc h, c) else (Inl (TransportError StreamLimit), h, c))\<rparr>"

abbreviation scripted :: "script \<Rightarrow> (script, nat, unit) quiche" where
  "scripted \<equiv> scripted_for"

lemmas scripted_def = scripted_for_def

text \<open>Handing a list of datagrams to a connection; each is taken or dropped by \<^verbatim>\<open>quiche\<close>, and no caller looks.\<close>

definition send_dgrams :: "('c, 'h, 'g) quiche \<Rightarrow> bytes list \<Rightarrow> 'c \<Rightarrow> 'c" where
  "send_dgrams q ds c = fold (\<lambda>d c. snd (q_dgram_send q c d)) ds c"

lemma send_dgrams_simps [simp]:
  "send_dgrams q [] c = c"
  "send_dgrams q (d # ds) c = send_dgrams q ds (snd (q_dgram_send q c d))"
  "send_dgrams q (ds @ es) c = send_dgrams q es (send_dgrams q ds c)"
  by (simp_all add: send_dgrams_def)

end
