(* ===== verification/Endpoint.thy ===== *)
theory Endpoint
  imports Prelude
begin

text \<open>
  Proxy endpoints, \<^verbatim>\<open>src/src/endpoint.rs\<close>: splitting \<^verbatim>\<open>scheme://authority/path?query\<close> without a
  URL library, and matching request paths with the query ignored.
\<close>

section \<open>Definitions\<close>

definition path_only :: "string \<Rightarrow> string" where
  "path_only p = (case split_once (CHR ''?'') p of Some (path, _) \<Rightarrow> path | None \<Rightarrow> p)"

record endpoint =
  ep_authority :: string
  ep_path :: string

datatype endpoint_error = Not_Absolute | No_Authority

definition endpoint_parse :: "string \<Rightarrow> endpoint_error + endpoint" where
  "endpoint_parse raw =
     and_then (ok_or Not_Absolute (map_option snd (split_once_str ''://'' raw)))
       (\<lambda>after_scheme.
          let (auth, p) = (case str_find (CHR ''/'') after_scheme of
                             Some idx \<Rightarrow> (take idx after_scheme, drop idx after_scheme)
                           | None \<Rightarrow> (after_scheme, ''/''))
          in if auth = [] then Inl No_Authority
             else Inr \<lparr>ep_authority = auth, ep_path = p\<rparr>)"

definition endpoint_matches :: "endpoint \<Rightarrow> string \<Rightarrow> bool" where
  "endpoint_matches self p \<longleftrightarrow> path_only p = path_only (ep_path self)"

section \<open>Paths and endpoints\<close>

text \<open>A scheme has no colon, so the separator is found right after it.\<close>

lemma split_scheme:
  assumes "CHR '':'' \<notin> set s"
  shows "split_once_str ''://'' (s @ ''://'' @ t) = Some (s, t)"
proof (rule split_once_str_first)
  fix a' b' assume eq: "s @ ''://'' @ t = a' @ ''://'' @ b'"
  show "length s \<le> length a'"
  proof (rule ccontr)
    assume "\<not> length s \<le> length a'"
    then have "(s @ ''://'' @ t) ! length a' = s ! length a'" and "length a' < length s"
      by (simp_all add: nth_append)
    moreover have "(a' @ ''://'' @ b') ! length a' = CHR '':''" by simp
    ultimately show False using assms eq by (metis nth_mem)
  qed
qed simp

lemma path_only_query [str_simps]: "CHR ''?'' \<notin> set p \<Longrightarrow> path_only (p @ CHR ''?'' # q) = p"
  by (simp add: path_only_def str_simps)

lemma path_only_plain [str_simps]: "CHR ''?'' \<notin> set p \<Longrightarrow> path_only p = p"
  by (simp add: path_only_def split_once_def)

lemma path_only_append [simp]: "path_only (s @ CHR ''?'' # t) = path_only s"
proof (cases "CHR ''?'' \<in> set s")
  case True
  then obtain x y where "s = x @ CHR ''?'' # y" "CHR ''?'' \<notin> set x" by (meson split_list_first)
  then show ?thesis by (simp add: str_simps)
qed (simp add: str_simps)

lemma path_only_clean: "CHR ''?'' \<notin> set (path_only p)"
  by (auto simp: path_only_def str_simps dest: split_once_Some split: option.splits)

lemma path_only_prefix: "prefix (path_only p) p"
  by (auto simp: path_only_def prefix_def dest: split_once_Some split: option.splits)

text \<open>What a successful parse says about the text.\<close>

lemma endpoint_parse_Inr:
  assumes "endpoint_parse raw = Inr e"
  obtains scheme rest where "raw = scheme @ ''://'' @ ep_authority e @ rest"
    "ep_authority e \<noteq> []" "CHR ''/'' \<notin> set (ep_authority e)"
    "(if rest = [] then ep_path e = ''/'' else ep_path e = rest \<and> hd rest = CHR ''/'')"
proof -
  from assms obtain scheme rest where split: "split_once_str ''://'' raw = Some (scheme, rest)"
    and e: "(let (auth, p) = (case str_find (CHR ''/'') rest of
                             Some idx \<Rightarrow> (take idx rest, drop idx rest)
                           | None \<Rightarrow> (rest, ''/''))
          in if auth = [] then Inl No_Authority
             else Inr \<lparr>ep_authority = auth, ep_path = p\<rparr>) = (Inr e :: endpoint_error + endpoint)"
    by (auto simp: endpoint_parse_def result_iffs)
  have raw: "raw = scheme @ ''://'' @ rest" using split_once_str_Some [OF split] by simp
  show thesis
  proof (cases "str_find (CHR ''/'') rest")
    case None
    with e have "ep_authority e = rest" "ep_path e = ''/''" "rest \<noteq> []"
      by (auto split: if_splits)
    with None raw show thesis by (intro that [of scheme "[]"]) (auto simp: str_find_None)
  next
    case (Some i)
    note f = str_find_Some [OF Some]
    from Some e have a: "ep_authority e = take i rest" "ep_path e = drop i rest" "take i rest \<noteq> []"
      by (auto split: if_splits)
    have "drop i rest \<noteq> []" "hd (drop i rest) = CHR ''/''" using f by (auto simp: hd_drop_conv_nth)
    with a f raw show thesis by (intro that [of scheme "drop i rest"]) auto
  qed
qed

section \<open>Properties\<close>

text \<open>Parsing the text of an endpoint recovers its authority and path; an absent path becomes
  \<^verbatim>\<open>/\<close>.  The scheme is not inspected.\<close>

theorem endpoint_parse_print:
  assumes "CHR '':'' \<notin> set scheme" and "auth \<noteq> []" and "CHR ''/'' \<notin> set auth"
    and "p = [] \<or> hd p = CHR ''/''"
  shows "endpoint_parse (scheme @ ''://'' @ auth @ p)
       = Inr \<lparr>ep_authority = auth, ep_path = (if p = [] then ''/'' else p)\<rparr>"
proof (cases p)
  case Nil
  then have "str_find (CHR ''/'') (auth @ p) = None" using assms(3) by (simp add: str_find_None)
  then show ?thesis
    using assms Nil split_scheme [OF assms(1), of auth] by (simp add: endpoint_parse_def)
next
  case (Cons c q)
  with assms have "str_find (CHR ''/'') (auth @ p) = Some (length auth)"
    by (simp add: str_find_append)
  then show ?thesis
    using assms Cons split_scheme [OF assms(1), of "auth @ p"] by (simp add: endpoint_parse_def)
qed

theorem endpoint_parse_print_witness:
  "endpoint_parse ''https://localhost:4433/connect''
     = Inr \<lparr>ep_authority = ''localhost:4433'', ep_path = ''/connect''\<rparr>"
  using endpoint_parse_print [of "''https''" "''localhost:4433''" "''/connect''"] by simp

text \<open>Parsing fails in exactly two ways: the text has no \<^verbatim>\<open>://\<close>, or nothing stands between it and
  the next slash.  Whatever is accepted has a non-empty authority without a slash and a path that
  starts with one.\<close>

theorem endpoint_parse_cases:
  "(endpoint_parse raw = Inl Not_Absolute \<longleftrightarrow> \<not> sublist ''://'' raw)
   \<and> (endpoint_parse raw = Inl No_Authority \<longleftrightarrow>
        (\<exists>s t. split_once_str ''://'' raw = Some (s, t) \<and> (t = [] \<or> hd t = CHR ''/'')))
   \<and> (\<forall>e. endpoint_parse raw = Inr e \<longrightarrow>
        ep_authority e \<noteq> [] \<and> CHR ''/'' \<notin> set (ep_authority e) \<and> hd (ep_path e) = CHR ''/''
        \<and> sublist (''://'' @ ep_authority e) raw)"
proof (intro conjI allI impI)
  show "endpoint_parse raw = Inl Not_Absolute \<longleftrightarrow> \<not> sublist ''://'' raw"
    using split_once_str_None [of "''://''" raw]
    by (auto simp: endpoint_parse_def ok_or_def Let_def split: option.splits prod.splits if_splits)
  show "endpoint_parse raw = Inl No_Authority \<longleftrightarrow>
        (\<exists>s t. split_once_str ''://'' raw = Some (s, t) \<and> (t = [] \<or> hd t = CHR ''/''))"
  proof (cases "split_once_str ''://'' raw")
    case (Some st)
    obtain s t where st: "st = (s, t)" by (cases st)
    show ?thesis by (cases t) (auto simp: endpoint_parse_def str_find_def Some st)
  qed (simp add: endpoint_parse_def)
next
  fix e assume "endpoint_parse raw = Inr e"
  then obtain scheme rest where raw: "raw = scheme @ ''://'' @ ep_authority e @ rest"
    and e: "ep_authority e \<noteq> []" "CHR ''/'' \<notin> set (ep_authority e)"
    "(if rest = [] then ep_path e = ''/'' else ep_path e = rest \<and> hd rest = CHR ''/'')"
    by (rule endpoint_parse_Inr)
  from e show "ep_authority e \<noteq> []" "CHR ''/'' \<notin> set (ep_authority e)" "hd (ep_path e) = CHR ''/''"
    by (auto split: if_splits)
  have "raw = scheme @ (''://'' @ ep_authority e) @ rest" by (simp add: raw)
  then show "sublist (''://'' @ ep_authority e) raw" by (metis sublist_appendI)
qed

theorem endpoint_parse_cases_witness:
  "endpoint_parse ''/connect'' = Inl Not_Absolute \<and> endpoint_parse ''https:///x'' = Inl No_Authority
   \<and> endpoint_parse ''https://a'' = Inr \<lparr>ep_authority = ''a'', ep_path = ''/''\<rparr>"
proof -
  have "\<not> sublist ''://'' ''/connect''" by (simp add: sublist_Cons_right)
  moreover have "split_once_str ''://'' ''https:///x'' = Some (''https'', ''/x'')"
    by (simp add: split_once_str.simps)
  moreover have "endpoint_parse ''https://a'' = Inr \<lparr>ep_authority = ''a'', ep_path = ''/''\<rparr>"
    by (simp add: endpoint_parse_def split_once_str.simps str_find_def)
  ultimately show ?thesis
    using endpoint_parse_cases [of "''/connect''"] endpoint_parse_cases [of "''https:///x''"] by simp
qed

text \<open>Path matching ignores the query on both sides: whether an endpoint matches depends only on
  the text before the first question mark, and appending a query to either side changes nothing.\<close>

lemma endpoint_matches_query:
  "endpoint_matches e (p @ CHR ''?'' # q) = endpoint_matches e p
   \<and> endpoint_matches (e\<lparr>ep_path := ep_path e @ CHR ''?'' # q\<rparr>) p = endpoint_matches e p
   \<and> endpoint_matches e (ep_path e)"
  by (simp add: endpoint_matches_def)

end
