(* ===== verification/Rules.thy ===== *)
theory Rules
  imports Endpoint Net
begin

text \<open>
  The server's rule table, \<^verbatim>\<open>src/src/rules.rs\<close>.  Reading a file, parsing JSON (\<^verbatim>\<open>serde_json\<close>)
  and resolving names (the operating system) are parameters; what the code does with their results is
  modelled.  A JSON rule arrives as a \<open>raw_rule\<close> whose optional keys may be missing; \<open>rule_spec_of\<close> fills
  in the defaults that the \<^verbatim>\<open>serde\<close> attributes name.
\<close>

section \<open>Definitions\<close>

definition host_of_authority :: "string \<Rightarrow> string" where
  "host_of_authority auth =
     (case Option.bind (strip_prefix ''['' auth) (split_once (CHR '']'')) of
        Some (host, _) \<Rightarrow> host
      | None \<Rightarrow> (case rsplit_once (CHR '':'') auth of Some (h, _) \<Rightarrow> h | None \<Rightarrow> auth))"

definition default_idle_secs :: u64 where
  "default_idle_secs = 35"

record raw_rule =
  raw_endpoint :: string
  raw_target :: string
  raw_transparent :: "bool option"
  raw_fwmark :: "u32 option"
  raw_idle_timeout :: "u64 option"

record rule_spec =
  spec_endpoint :: string
  spec_target :: string
  spec_transparent :: bool
  spec_fwmark :: "u32 option"
  spec_idle_timeout :: u64

definition rule_spec_of :: "raw_rule \<Rightarrow> rule_spec" where
  "rule_spec_of r = \<lparr>
     spec_endpoint = raw_endpoint r,
     spec_target = raw_target r,
     spec_transparent = (case raw_transparent r of None \<Rightarrow> False | Some b \<Rightarrow> b),
     spec_fwmark = raw_fwmark r,
     spec_idle_timeout = (case raw_idle_timeout r of None \<Rightarrow> default_idle_secs | Some n \<Rightarrow> n)\<rparr>"

record rule =
  r_endpoint :: endpoint
  r_target :: socket_addr
  r_transparent :: bool
  r_fwmark :: "u32 option"
  r_idle_timeout :: "duration option"

record rule_match =
  m_target :: socket_addr
  m_transparent :: bool
  m_fwmark :: "u32 option"
  m_idle_timeout :: "duration option"

record rule_table =
  rules :: "rule list"

datatype load_error =
    Read_Error
  | Json_Error
  | Empty_Table
  | Rule_Endpoint string endpoint_error
  | Rule_Target string
  | No_Addresses string

definition resolve :: "(string \<Rightarrow> socket_addr list option) \<Rightarrow> string \<Rightarrow> load_error + socket_addr" where
  "resolve to_socket_addrs s = (case to_socket_addrs s of
     None \<Rightarrow> Inl (Rule_Target s)
   | Some [] \<Rightarrow> Inl (No_Addresses s)
   | Some (a # _) \<Rightarrow> Inr a)"

definition load_rule :: "(string \<Rightarrow> socket_addr list option) \<Rightarrow> rule_spec \<Rightarrow> load_error + rule" where
  "load_rule to_socket_addrs spec =
     and_then (map_err (Rule_Endpoint (spec_endpoint spec)) (endpoint_parse (spec_endpoint spec))) (\<lambda>ep.
     and_then (resolve to_socket_addrs (spec_target spec)) (\<lambda>target.
       Inr \<lparr>r_endpoint = ep,
            r_target = target,
            r_transparent = spec_transparent spec,
            r_fwmark = spec_fwmark spec,
            r_idle_timeout = (if spec_idle_timeout spec \<noteq> 0
                              then Some (from_secs (spec_idle_timeout spec)) else None)\<rparr>))"

fun load_rules :: "(string \<Rightarrow> socket_addr list option) \<Rightarrow> rule_spec list \<Rightarrow> rule list \<Rightarrow>
    load_error + rule list" where
  "load_rules to_socket_addrs [] acc = Inr acc"
| "load_rules to_socket_addrs (spec # specs) acc =
     and_then (load_rule to_socket_addrs spec)
       (\<lambda>r. load_rules to_socket_addrs specs (acc @ [r]))"

definition rule_table_load ::
  "(string \<Rightarrow> string option) \<Rightarrow> (string \<Rightarrow> raw_rule list option) \<Rightarrow>
   (string \<Rightarrow> socket_addr list option) \<Rightarrow> string \<Rightarrow> load_error + rule_table" where
  "rule_table_load read_to_string from_json to_socket_addrs p =
     and_then (ok_or Read_Error (read_to_string p)) (\<lambda>data.
     and_then (ok_or Json_Error (map_option (map rule_spec_of) (from_json data))) (\<lambda>specs.
       if specs = [] then Inl Empty_Table
       else and_then (load_rules to_socket_addrs specs []) (\<lambda>rs. Inr \<lparr>rules = rs\<rparr>)))"

definition rule_applies :: "string \<Rightarrow> string \<Rightarrow> rule \<Rightarrow> bool" where
  "rule_applies auth p r \<longleftrightarrow> ep_authority (r_endpoint r) = auth \<and> endpoint_matches (r_endpoint r) p"

definition rule_decision :: "rule \<Rightarrow> rule_match" where
  "rule_decision r = \<lparr>m_target = r_target r, m_transparent = r_transparent r,
     m_fwmark = r_fwmark r, m_idle_timeout = r_idle_timeout r\<rparr>"

definition match_target :: "rule_table \<Rightarrow> string \<Rightarrow> string \<Rightarrow> rule_match option" where
  "match_target t auth p = map_option rule_decision (find (rule_applies auth p) (rules t))"

definition rule_table_len :: "rule_table \<Rightarrow> nat" where
  "rule_table_len t = length (rules t)"

fun collect_hosts :: "rule list \<Rightarrow> string list \<Rightarrow> string list" where
  "collect_hosts [] hosts = hosts"
| "collect_hosts (r # rs) hosts =
     (let host = to_ascii_lowercase (host_of_authority (ep_authority (r_endpoint r)))
      in collect_hosts rs (if host \<in> set hosts then hosts else hosts @ [host]))"

definition allowed_sni_hosts :: "rule_table \<Rightarrow> string list" where
  "allowed_sni_hosts t = collect_hosts (rules t) []"

definition privileged_count :: "rule_table \<Rightarrow> nat" where
  "privileged_count t = length (filter (\<lambda>r. r_transparent r \<or> r_fwmark r \<noteq> None) (rules t))"

section \<open>Loading\<close>

lemma load_rules_Inr:
  "load_rules res specs acc = Inr rs \<longleftrightarrow>
     (\<exists>rs'. rs = acc @ rs' \<and> list_all2 (\<lambda>spec r. load_rule res spec = Inr r) specs rs')"
proof (induction specs arbitrary: acc)
  case (Cons spec specs)
  then show ?case by (auto simp: result_iffs list_all2_Cons1)
qed auto

lemma load_rules_Inl:
  "load_rules res specs acc = Inl e \<longleftrightarrow>
     (\<exists>pre spec post. specs = pre @ spec # post \<and> (\<forall>s \<in> set pre. \<exists>r. load_rule res s = Inr r)
        \<and> load_rule res spec = Inl e)"
proof (induction specs arbitrary: acc)
  case (Cons s specs)
  show ?case
    unfolding split_first_Cons by (cases "load_rule res s") (simp_all add: Cons)
qed simp

text \<open>What a loaded rule has to do with the entry it came from.\<close>

definition rule_from :: "(string \<Rightarrow> socket_addr list option) \<Rightarrow> raw_rule \<Rightarrow> rule \<Rightarrow> bool" where
  "rule_from res raw r \<longleftrightarrow>
     endpoint_parse (raw_endpoint raw) = Inr (r_endpoint r)
     \<and> (\<exists>addrs. res (raw_target raw) = Some (r_target r # addrs))
     \<and> r_transparent r = (raw_transparent raw = Some True)
     \<and> r_fwmark r = raw_fwmark raw
     \<and> r_idle_timeout r = (case raw_idle_timeout raw of
          None \<Rightarrow> Some (from_secs 35)
        | Some n \<Rightarrow> if n = 0 then None else Some (from_secs n))"

lemma resolve_Inr: "resolve res s = Inr a \<longleftrightarrow> (\<exists>addrs. res s = Some (a # addrs))"
  by (auto simp: resolve_def split: option.splits list.splits)

lemma load_rule_Inr: "load_rule res (rule_spec_of raw) = Inr r \<longleftrightarrow> rule_from res raw r"
  by (cases r)
    (auto simp: load_rule_def rule_from_def rule_spec_of_def result_iffs resolve_Inr default_idle_secs_def
      split: option.splits)

section \<open>Hosts\<close>

lemma set_collect_hosts:
  "set (collect_hosts rs hosts) =
     set hosts \<union> (\<lambda>r. to_ascii_lowercase (host_of_authority (ep_authority (r_endpoint r)))) ` set rs"
  by (induction rs arbitrary: hosts) (auto simp: Let_def)

lemma distinct_collect_hosts: "distinct hosts \<Longrightarrow> distinct (collect_hosts rs hosts)"
  by (induction rs arbitrary: hosts) (auto simp: Let_def)

lemma host_of_authority_port:
  "CHR ''['' \<notin> set h \<Longrightarrow> CHR '':'' \<notin> set p \<Longrightarrow> h \<noteq> [] \<Longrightarrow> host_of_authority (h @ CHR '':'' # p) = h"
  using rsplit_once_append [of "CHR '':''" p h]
  by (cases h) (auto simp: host_of_authority_def strip_prefix_Cons)

lemma host_of_authority_brackets:
  "CHR '']'' \<notin> set h \<Longrightarrow> host_of_authority (CHR ''['' # h @ CHR '']'' # r) = h"
  by (simp add: host_of_authority_def strip_prefix_Cons split_once_append)

lemma host_of_authority_plain:
  "CHR ''['' \<notin> set h \<Longrightarrow> CHR '':'' \<notin> set h \<Longrightarrow> host_of_authority h = h"
  by (cases h) (auto simp: host_of_authority_def strip_prefix_Cons rsplit_once_def split_once_def)

section \<open>Properties\<close>


text \<open>A two-rule table used to exercise the properties below.\<close>

definition sample_rule :: "string \<Rightarrow> string \<Rightarrow> u16 \<Rightarrow> rule" where
  "sample_rule auth p port =
     \<lparr>r_endpoint = \<lparr>ep_authority = auth, ep_path = p\<rparr>, r_target = SocketV4 0x7f000001 port,
      r_transparent = False, r_fwmark = None, r_idle_timeout = Some (from_secs 35)\<rparr>"

definition sample_table :: rule_table where
  "sample_table = \<lparr>rules = [sample_rule ''a:4433'' ''/dns'' 53, sample_rule ''a:4433'' ''/ntp'' 123]\<rparr>"

lemma sample_table_match:
  "match_target sample_table ''a:4433'' ''/ntp?h=1'' = Some (rule_decision (sample_rule ''a:4433'' ''/ntp'' 123))"
  by (simp add: match_target_def sample_table_def sample_rule_def rule_applies_def endpoint_matches_def
      path_only_def split_once_def)


text \<open>Whatever query string a client sends, and whether or not the configured endpoint has one, the
  forwarding decision is the same: a client cannot influence the target through the query.\<close>

theorem match_target_query: "match_target t auth (p @ CHR ''?'' # q) = match_target t auth p"
  by (simp add: match_target_def rule_applies_def [abs_def] endpoint_matches_def)

text \<open>The allowed SNI hosts are the lower-cased host parts of the rules' authorities, each once.\<close>

theorem allowed_sni_hosts_spec:
  "set (allowed_sni_hosts t) =
     (\<lambda>r. to_ascii_lowercase (host_of_authority (ep_authority (r_endpoint r)))) ` set (rules t)
   \<and> distinct (allowed_sni_hosts t)
   \<and> map to_ascii_lowercase (allowed_sni_hosts t) = allowed_sni_hosts t"
proof (intro conjI)
  show eq: "set (allowed_sni_hosts t) =
     (\<lambda>r. to_ascii_lowercase (host_of_authority (ep_authority (r_endpoint r)))) ` set (rules t)"
    by (simp add: allowed_sni_hosts_def set_collect_hosts)
  show "distinct (allowed_sni_hosts t)"
    by (simp add: allowed_sni_hosts_def distinct_collect_hosts)
  show "map to_ascii_lowercase (allowed_sni_hosts t) = allowed_sni_hosts t"
    by (rule map_idI) (auto simp: eq)
qed

text \<open>C39. Loading a table succeeds exactly when the file can be read and parsed, is not empty, and every
  rule has a parsable endpoint and a resolvable target; the loaded rules are the specifications in
  order, with the first resolved address as the target, an idle timeout of 35 seconds by default and
  a zero idle timeout read as none.\<close>

theorem rule_table_load_ok:
  "rule_table_load rd js res p = Inr t \<longleftrightarrow>
     (\<exists>data raws. rd p = Some data \<and> js data = Some raws \<and> raws \<noteq> []
        \<and> list_all2 (rule_from res) raws (rules t))"
proof -
  have "load_rules res (map rule_spec_of raws) [] = Inr rs \<longleftrightarrow> list_all2 (rule_from res) raws rs"
    for raws rs
    by (simp add: load_rules_Inr list_all2_map1 load_rule_Inr)
  moreover have "(\<lparr>rules = rs\<rparr> = t) = (rs = rules t)" for rs
    by (cases t) simp
  ultimately show ?thesis
    by (auto simp: rule_table_load_def result_iffs)
qed

theorem rule_table_load_ok_witness:
  "rule_table_load (\<lambda>_. Some []) (\<lambda>_. Some [\<lparr>raw_endpoint = ''https://a/x'', raw_target = ''t'',
      raw_transparent = None, raw_fwmark = None, raw_idle_timeout = Some 0\<rparr>])
     (\<lambda>_. Some [any_v4]) ''rules.json''
   = Inr \<lparr>rules = [\<lparr>r_endpoint = \<lparr>ep_authority = ''a'', ep_path = ''/x''\<rparr>, r_target = any_v4,
       r_transparent = False, r_fwmark = None, r_idle_timeout = None\<rparr>]\<rparr>"
  unfolding rule_table_load_ok
  by (simp add: rule_from_def endpoint_parse_def split_once_str.simps str_find_def)

text \<open>When loading fails, the error is that of the first stage that failed: reading, parsing, an
  empty table, or the first rule that does not load.  No partially loaded table is ever returned.\<close>

theorem rule_table_load_err:
  "rule_table_load rd js res p = Inl e \<longleftrightarrow>
       (rd p = None \<and> e = Read_Error)
     \<or> (\<exists>data. rd p = Some data \<and> (js data = None \<and> e = Json_Error \<or> js data = Some [] \<and> e = Empty_Table
          \<or> (\<exists>raws pre spec post. js data = Some raws \<and> map rule_spec_of raws = pre @ spec # post
               \<and> (\<forall>s \<in> set pre. \<exists>r. load_rule res s = Inr r)
               \<and> load_rule res spec = Inl e)))"
  by (cases "rd p"; cases "js (the (rd p))")
    (auto simp: rule_table_load_def result_iffs load_rules_Inl)

theorem rule_table_load_err_witness:
  "rule_table_load (\<lambda>_. Some []) (\<lambda>_. Some []) (\<lambda>_. None) ''rules.json'' = Inl Empty_Table"
  using rule_table_load_err [of "\<lambda>_. Some []" "\<lambda>_. Some []" "\<lambda>_. None" "''rules.json''" Empty_Table]
  by simp

end
