(* ===== verification/Connect_Udp.thy ===== *)
theory Connect_Udp
  imports Quic_Socket Quiche Rules
begin

text \<open>
  The HTTP/3 messages that open a flow, which the client and the server build and read independently:
  the request headers and the status reader of \<^verbatim>\<open>src/src/client.rs\<close>, and the request parser and the
  responses of \<^verbatim>\<open>src/src/server.rs\<close>.
\<close>

section \<open>Definitions\<close>

definition header_new :: "bytes \<Rightarrow> bytes \<Rightarrow> header" where
  "header_new name v = \<lparr>h_name = name, h_value = v\<rparr>"

subsection \<open>Numbers as text\<close>

text \<open>\<^verbatim>\<open>u16::to_string\<close>.\<close>

fun nat_to_string :: "nat \<Rightarrow> string" where
  "nat_to_string n =
     (if n < 10 then [char_of (48 + n)] else nat_to_string (n div 10) @ [char_of (48 + n mod 10)])"

definition u16_to_string :: "u16 \<Rightarrow> string" where
  "u16_to_string w = nat_to_string (unat w)"

text \<open>\<^verbatim>\<open>str::parse::<u16>\<close>: an optional plus sign, then decimal digits, no overflow.\<close>

fun parse_digits :: "nat \<Rightarrow> string \<Rightarrow> nat option" where
  "parse_digits acc [] = Some acc"
| "parse_digits acc (c # cs) =
     (let n = of_char c in
      if 48 \<le> n \<and> n \<le> 57 \<and> acc * 10 + (n - 48) \<le> 65535 then parse_digits (acc * 10 + (n - 48)) cs else None)"

definition parse_u16 :: "string \<Rightarrow> u16 option" where
  "parse_u16 s =
     (let ds = (case s of c # d # cs \<Rightarrow> if c = CHR ''+'' then d # cs else s | _ \<Rightarrow> s) in
      if ds = [] then None else map_option word_of_nat (parse_digits 0 ds))"

subsection \<open>Client side\<close>

definition connect_headers :: "string \<Rightarrow> string \<Rightarrow> header list" where
  "connect_headers authority p =
     [header_new (as_bytes '':method'') (as_bytes ''CONNECT''),
      header_new (as_bytes '':protocol'') (as_bytes ''connect-udp''),
      header_new (as_bytes '':scheme'') (as_bytes ''https''),
      header_new (as_bytes '':authority'') (as_bytes authority),
      header_new (as_bytes '':path'') (as_bytes p),
      header_new (as_bytes ''capsule-protocol'') CAPSULE_PROTOCOL_TRUE]"

definition status_of :: "header list \<Rightarrow> u16 option" where
  "status_of headers =
     Option.bind (find (\<lambda>h. h_name h = as_bytes '':status'') headers)
       (\<lambda>h. Option.bind (from_utf8 (h_value h)) parse_u16)"

definition host_of :: "string \<Rightarrow> string" where
  "host_of authority =
     (case Option.bind (strip_prefix ''['' authority) (\<lambda>rest. map_option (\<lambda>end. take end rest) (str_find (CHR '']'') rest)) of
        Some host \<Rightarrow> host
      | None \<Rightarrow> (case rsplit_once (CHR '':'') authority of Some (h, _) \<Rightarrow> h | None \<Rightarrow> authority))"

subsection \<open>Server side\<close>

record connect_request =
  cr_authority :: string
  cr_path :: string

record request_fields =
  rf_method :: "bytes option"
  rf_protocol :: "bytes option"
  rf_authority :: "bytes option"
  rf_path :: "bytes option"

fun collect_fields :: "header list \<Rightarrow> request_fields \<Rightarrow> request_fields" where
  "collect_fields [] f = f"
| "collect_fields (h # hs) f =
     collect_fields hs
       (if h_name h = as_bytes '':method'' then f\<lparr>rf_method := Some (h_value h)\<rparr>
        else if h_name h = as_bytes '':protocol'' then f\<lparr>rf_protocol := Some (h_value h)\<rparr>
        else if h_name h = as_bytes '':authority'' then f\<lparr>rf_authority := Some (h_value h)\<rparr>
        else if h_name h = as_bytes '':path'' then f\<lparr>rf_path := Some (h_value h)\<rparr>
        else f)"

definition connect_request_parse :: "header list \<Rightarrow> u16 + connect_request" where
  "connect_request_parse headers =
     (let f = collect_fields headers \<lparr>rf_method = None, rf_protocol = None, rf_authority = None, rf_path = None\<rparr> in
      if rf_method f \<noteq> Some (as_bytes ''CONNECT'') then Inl 405
      else if rf_protocol f \<noteq> Some (as_bytes ''connect-udp'') then Inl 501
      else
        and_then (ok_or 400 (rf_authority f)) (\<lambda>authority.
        and_then (ok_or 400 (from_utf8 authority)) (\<lambda>authority.
        and_then (ok_or 400 (rf_path f)) (\<lambda>p.
        and_then (ok_or 400 (from_utf8 p)) (\<lambda>p.
          Inr \<lparr>cr_authority = authority, cr_path = p\<rparr>)))))"

definition status_headers :: "u16 \<Rightarrow> header list" where
  "status_headers status = [header_new (as_bytes '':status'') (as_bytes (u16_to_string status))]"

definition accept_headers :: "header list" where
  "accept_headers =
     [header_new (as_bytes '':status'') (as_bytes ''200''),
      header_new (as_bytes ''capsule-protocol'') CAPSULE_PROTOCOL_TRUE]"

section \<open>Numbers round trip\<close>

declare nat_to_string.simps [simp del]

lemma of_digit: "d < 10 \<Longrightarrow> of_char (char_of (48 + d) :: char) = (48 + d :: nat)"
  by (simp add: of_char_of)

lemma parse_digits_nat_to_string:
  "n \<le> 65535 \<Longrightarrow> parse_digits 0 (nat_to_string n @ cs) = parse_digits n cs"
proof (induction n arbitrary: cs rule: nat_to_string.induct)
  case (1 n)
  show ?case
  proof (cases "n < 10")
    case True
    then show ?thesis by (subst nat_to_string.simps) (simp add: of_digit)
  next
    case False
    have "n div 10 * 10 + n mod 10 = n" "n mod 10 \<le> 9" by simp_all
    with False 1 show ?thesis
      by (subst nat_to_string.simps) (simp add: of_digit)
  qed
qed

lemma nat_to_string_digits: "c \<in> set (nat_to_string n) \<Longrightarrow> 48 \<le> (of_char c :: nat) \<and> (of_char c :: nat) \<le> 57"
proof (induction n rule: nat_to_string.induct)
  case (1 n)
  then show ?case
    by (subst (asm) (2) nat_to_string.simps) (auto simp: of_digit split: if_splits)
qed

lemma nat_to_string_nonempty [simp]: "nat_to_string n \<noteq> []"
  by (subst nat_to_string.simps) simp

lemma parse_u16_to_string [simp]: "parse_u16 (u16_to_string w) = Some w"
proof -
  have w: "unat w \<le> 65535" using unsigned_less [of w, where 'a = nat] by simp
  have "\<forall>c \<in> set (nat_to_string (unat w)). c \<noteq> CHR ''+''"
    using nat_to_string_digits by fastforce
  then have "(case nat_to_string (unat w) of c # d # cs \<Rightarrow> if c = CHR ''+'' then d # cs else nat_to_string (unat w)
      | _ \<Rightarrow> nat_to_string (unat w)) = nat_to_string (unat w)"
    by (auto split: list.split)
  moreover have "parse_digits 0 (nat_to_string (unat w)) = Some (unat w)"
    using parse_digits_nat_to_string [OF w, of "[]"] by simp
  ultimately show ?thesis by (simp add: parse_u16_def u16_to_string_def)
qed

lemma u16_to_string_ascii: "c \<in> set (u16_to_string w) \<Longrightarrow> (of_char c :: nat) < 128"
  using nat_to_string_digits by (fastforce simp: u16_to_string_def)

section \<open>The two sides understand each other\<close>

text \<open>The value of the last header with a name.\<close>

definition last_value :: "bytes \<Rightarrow> header list \<Rightarrow> bytes option" where
  "last_value name hs = map_option h_value (find (\<lambda>h. h_name h = name) (rev hs))"

lemma find_snoc: "find P (xs @ [x]) = (case find P xs of None \<Rightarrow> if P x then Some x else None | y \<Rightarrow> y)"
  by (induction xs) simp_all

lemma collect_fields_last:
  "collect_fields hs f =
     \<lparr>rf_method = (case last_value (as_bytes '':method'') hs of None \<Rightarrow> rf_method f | v \<Rightarrow> v),
      rf_protocol = (case last_value (as_bytes '':protocol'') hs of None \<Rightarrow> rf_protocol f | v \<Rightarrow> v),
      rf_authority = (case last_value (as_bytes '':authority'') hs of None \<Rightarrow> rf_authority f | v \<Rightarrow> v),
      rf_path = (case last_value (as_bytes '':path'') hs of None \<Rightarrow> rf_path f | v \<Rightarrow> v)\<rparr>"
proof (induction hs arbitrary: f)
  case (Cons h hs)
  have last: "last_value name (h # hs) = (case last_value name hs of
      None \<Rightarrow> if h_name h = name then Some (h_value h) else None | v \<Rightarrow> v)" for name
    by (simp add: last_value_def find_snoc split: option.split)
  show ?case
    by (simp add: Cons.IH last split: option.split)
qed (simp add: last_value_def)

text \<open>C28. Which requests the server takes, by the last value of each pseudo-header: a \<^verbatim>\<open>CONNECT\<close> for
  \<^verbatim>\<open>connect-udp\<close> with a UTF-8 authority and path.  Any other method is answered 405, any other protocol 501
  and a missing or malformed authority or path 400.\<close>

theorem connect_request_parse_spec:
  "connect_request_parse hs = r \<longleftrightarrow>
     (let text_of = (\<lambda>name. Option.bind (last_value (as_bytes name) hs) from_utf8) in
      if last_value (as_bytes '':method'') hs \<noteq> Some (as_bytes ''CONNECT'') then r = Inl 405
      else if last_value (as_bytes '':protocol'') hs \<noteq> Some (as_bytes ''connect-udp'') then r = Inl 501
      else case (text_of '':authority'', text_of '':path'') of
        (Some a, Some p) \<Rightarrow> r = Inr \<lparr>cr_authority = a, cr_path = p\<rparr>
      | _ \<Rightarrow> r = Inl 400)"
  by (auto simp: connect_request_parse_def collect_fields_last Let_def ok_or_def and_then_def
      split: option.splits sum.splits)

lemma status_of_sent: "status_of (status_headers w) = Some w" "status_of accept_headers = Some 200"
proof -
  have "utf8_valid (as_bytes (u16_to_string w))" for w
    using u16_to_string_ascii by (intro utf8_valid_as_bytes) blast
  moreover have "''200'' = u16_to_string 200"
    by (simp add: u16_to_string_def nat_to_string.simps char_of_def bit_simps)
  ultimately show "status_of (status_headers w) = Some w" "status_of accept_headers = Some 200"
    by (simp_all add: status_of_def status_headers_def accept_headers_def header_new_def from_utf8_def)
qed

text \<open>C29. The server reads a client's request as the authority and path the client put into it, and the
  client reads each of the server's responses as the status the server meant.\<close>

theorem connect_messages_agree:
  assumes "utf8_valid (as_bytes authority)" and "utf8_valid (as_bytes p)"
  shows "connect_request_parse (connect_headers authority p) = Inr \<lparr>cr_authority = authority, cr_path = p\<rparr>
     \<and> status_of (status_headers st) = Some st \<and> status_of accept_headers = Some 200"
proof -
  have "connect_request_parse (connect_headers authority p) = Inr \<lparr>cr_authority = authority, cr_path = p\<rparr>"
    using assms by (simp add: connect_request_parse_def connect_headers_def header_new_def from_utf8_def)
  then show ?thesis by (simp add: status_of_sent)
qed

theorem connect_messages_agree_witness:
  "connect_request_parse (connect_headers ''a.b:443'' ''/p'') = Inr \<lparr>cr_authority = ''a.b:443'', cr_path = ''/p''\<rparr>
     \<and> status_of (status_headers 404) = Some 404"
  using connect_messages_agree [of "''a.b:443''" "''/p''" 404] by (simp add: utf8_valid_as_bytes)

text \<open>The client's and the server's notions of the host of an authority are the same, so that the name a
  client sends as SNI is judged by the same host the rule table advertises.\<close>

theorem host_of_agrees: "host_of authority = host_of_authority authority"
proof (cases "strip_prefix ''['' authority")
  case (Some rest)
  have "map_option (\<lambda>end. take end rest) (str_find (CHR '']'') rest) = map_option fst (split_once (CHR '']'') rest)"
    by (auto simp: str_find_def split_once_def takeWhile_eq_take [symmetric])
  with Some show ?thesis
    by (cases "split_once (CHR '']'') rest") (auto simp: host_of_def host_of_authority_def)
qed (simp add: host_of_def host_of_authority_def)

text \<open>A client that dials the URI a rule was loaded from gets a forwarding decision: its request parses and
  matches that rule or an earlier one.\<close>

theorem request_reaches_rule:
  assumes "load_rule res spec = Inr r" and "r \<in> set (rules tbl)" and "endpoint_parse (spec_endpoint spec) = Inr ep"
    and "utf8_valid (as_bytes (ep_authority ep))" and "utf8_valid (as_bytes (ep_path ep))"
  shows "\<exists>req m. connect_request_parse (connect_headers (ep_authority ep) (ep_path ep)) = Inr req
     \<and> match_target tbl (cr_authority req) (cr_path req) = Some m"
proof -
  have "r_endpoint r = ep" using assms(1,3) by (auto simp: load_rule_def result_iffs)
  then have "find (rule_applies (ep_authority ep) (ep_path ep)) (rules tbl) \<noteq> None"
    using assms(2) endpoint_matches_query [of ep] by (auto simp: find_None_iff rule_applies_def)
  moreover have "connect_request_parse (connect_headers (ep_authority ep) (ep_path ep)) =
      Inr \<lparr>cr_authority = ep_authority ep, cr_path = ep_path ep\<rparr>"
    using assms(4,5) by (simp add: connect_request_parse_def connect_headers_def header_new_def from_utf8_def)
  ultimately show ?thesis by (auto simp: match_target_def)
qed

definition dns_spec :: rule_spec where
  "dns_spec = \<lparr>spec_endpoint = ''https://a.b:443/p'', spec_target = ''ns:53'', spec_transparent = False,
     spec_fwmark = None, spec_idle_timeout = 35\<rparr>"

definition dns_rule :: rule where
  "dns_rule = \<lparr>r_endpoint = \<lparr>ep_authority = ''a.b:443'', ep_path = ''/p''\<rparr>, r_target = SocketV4 1 53,
     r_transparent = False, r_fwmark = None, r_idle_timeout = Some 35000000000\<rparr>"

theorem request_reaches_rule_witness:
  "load_rule (\<lambda>_. Some [SocketV4 1 53]) dns_spec = Inr dns_rule
     \<and> (\<exists>m. match_target \<lparr>rules = [dns_rule]\<rparr> ''a.b:443'' ''/p'' = Some m)"
proof -
  have ep: "endpoint_parse (spec_endpoint dns_spec) = Inr \<lparr>ep_authority = ''a.b:443'', ep_path = ''/p''\<rparr>"
    by code_simp
  then have load: "load_rule (\<lambda>_. Some [SocketV4 1 53]) dns_spec = Inr dns_rule"
    by (simp add: load_rule_def resolve_def dns_spec_def dns_rule_def from_secs_def)
  from request_reaches_rule [OF load _ ep, of "\<lparr>rules = [dns_rule]\<rparr>"] load show ?thesis
    by (auto simp: utf8_valid_as_bytes connect_request_parse_def connect_headers_def header_new_def from_utf8_def)
qed

end
