(* ===== verification/Udp_Io.thy ===== *)
theory Udp_Io
  imports Quic_Socket Quiche "HOL-Library.Monad_Syntax"
begin

text \<open>
  The shared UDP input and output of \<^verbatim>\<open>src/src/io.rs\<close>: batching of outgoing packets into segmented sends, the
  fallback for kernels without segmentation, and the splitting of coalesced receives.  Loops that end only
  when the kernel or \<^verbatim>\<open>quiche\<close> lets them are partial functions, whose value is \<^const>\<open>None\<close> when they do not
  return.
\<close>

section \<open>Definitions\<close>

definition SEND_BATCH :: nat where
  "SEND_BATCH = 32"

definition RECV_BATCH :: nat where
  "RECV_BATCH = 32"

text \<open>The model is the Linux build.\<close>

definition target_os_linux :: bool where
  "target_os_linux = True"

datatype bind_error = Bind_Failed io_error | Nonblocking_Failed io_error | Adopt_Failed io_error

definition bind_udp :: "kernel \<Rightarrow> socket_addr \<Rightarrow> trace \<Rightarrow> (bind_error + fd) \<times> trace" where
  "bind_udp k addr t =
     (case sys k (Udp_Bind addr) t of
        (Inl e, t) \<Rightarrow> (Inl (Bind_Failed (last_os_error e)), t)
      | (Inr fd, t) \<Rightarrow>
          (case sys k (Set_Nonblocking fd) t of
             (Inl e, t) \<Rightarrow> (Inl (Nonblocking_Failed (last_os_error e)), snd (sys k (Close fd) t))
           | (Inr _, t) \<Rightarrow>
               (let t = enable_udp_gro k fd t in
                case sys k (From_Std fd) t of
                  (Inl e, t) \<Rightarrow> (Inl (Adopt_Failed (last_os_error e)), snd (sys k (Close fd) t))
                | (Inr _, t) \<Rightarrow> (Inr fd, t))))"

subsection \<open>Sending one message\<close>

definition sendmsg_udp :: "kernel \<Rightarrow> fd \<Rightarrow> socket_addr \<Rightarrow> bytes \<Rightarrow> nat option \<Rightarrow> trace \<Rightarrow> (io_error + unit) \<times> trace" where
  "sendmsg_udp k fd dst payload gso_segment_size t =
     (case sys k (Sendmsg fd (Some dst) payload (map_option word_of_nat gso_segment_size)) t of
        (Inl e, t) \<Rightarrow> (Inl (last_os_error e), t)
      | (Inr n, t) \<Rightarrow>
          if n \<noteq> int (length payload) then (Inl (io_error_new WriteZero), t) else (Inr (), t))"

definition sendmsg_udp_connected :: "kernel \<Rightarrow> fd \<Rightarrow> bytes \<Rightarrow> trace \<Rightarrow> (io_error + unit) \<times> trace" where
  "sendmsg_udp_connected k fd payload t =
     (case sys k (Sendmsg fd None payload None) t of
        (Inl e, t) \<Rightarrow> (Inl (last_os_error e), t)
      | (Inr n, t) \<Rightarrow>
          if n \<noteq> int (length payload) then (Inl (io_error_new WriteZero), t) else (Inr (), t))"

partial_function (option) send_payload :: "kernel \<Rightarrow> fd \<Rightarrow> socket_addr \<Rightarrow> bytes \<Rightarrow> nat option \<Rightarrow> trace \<Rightarrow>
    ((io_error + unit) \<times> trace) option" where
  "send_payload k fd dst payload gso t =
     (case sendmsg_udp k fd dst payload gso t of
        (Inr _, t) \<Rightarrow> Some (Inr (), t)
      | (Inl e, t) \<Rightarrow>
          if err_kind e = WouldBlock then
            (case sys k (Await_Writable fd) t of
               (Inl e, t) \<Rightarrow> Some (Inl (last_os_error e), t)
             | (Inr _, t) \<Rightarrow> send_payload k fd dst payload gso t)
          else Some (Inl e, t))"

partial_function (option) send_udp_connected :: "kernel \<Rightarrow> fd \<Rightarrow> bytes \<Rightarrow> trace \<Rightarrow>
    ((io_error + unit) \<times> trace) option" where
  "send_udp_connected k fd payload t =
     (case sendmsg_udp_connected k fd payload t of
        (Inr _, t) \<Rightarrow> Some (Inr (), t)
      | (Inl e, t) \<Rightarrow>
          if err_kind e = WouldBlock then
            (case sys k (Await_Writable fd) t of
               (Inl e, t) \<Rightarrow> Some (Inl (last_os_error e), t)
             | (Inr _, t) \<Rightarrow> send_udp_connected k fd payload t)
          else Some (Inl e, t))"

definition is_gso_unsupported :: "io_error \<Rightarrow> bool" where
  "is_gso_unsupported e \<longleftrightarrow> raw_os_error e \<in> {Some EINVAL, Some EIO, Some ENOTSUP}"

fun send_each :: "kernel \<Rightarrow> fd \<Rightarrow> socket_addr \<Rightarrow> bytes list \<Rightarrow> trace \<Rightarrow> ((io_error + unit) \<times> trace) option" where
  "send_each k fd dst [] t = Some (Inr (), t)"
| "send_each k fd dst (packet # packets) t = do {
     (r, t) \<leftarrow> send_payload k fd dst packet None t;
     (case r of Inl e \<Rightarrow> Some (Inl e, t) | Inr _ \<Rightarrow> send_each k fd dst packets t)
   }"

definition send_packets :: "kernel \<Rightarrow> fd \<Rightarrow> socket_addr \<Rightarrow> nat \<Rightarrow> bytes list \<Rightarrow> trace \<Rightarrow>
    ((io_error + unit) \<times> trace) option" where
  "send_packets k fd dst segment_size packets t =
     (let use_gso = (target_os_linux \<and> 1 < length packets) in
      if \<not> use_gso \<and> 1 < length packets then send_each k fd dst packets t
      else do {
        let payload = concat packets;
        (r, t) \<leftarrow> send_payload k fd dst payload (if use_gso then Some segment_size else None) t;
        (case r of
           Inr _ \<Rightarrow> Some (Inr (), t)
         | Inl e \<Rightarrow>
             if use_gso \<and> is_gso_unsupported e then send_each k fd dst packets t
             else Some (Inl e, t))
      })"

subsection \<open>Batches\<close>

record send_batch_state =
  sb_to :: "socket_addr option"
  sb_segment_size :: nat
  sb_packets :: "bytes list"

definition send_batch_new :: send_batch_state where
  "send_batch_new = \<lparr>sb_to = None, sb_segment_size = 0, sb_packets = []\<rparr>"

definition push_first :: "send_batch_state \<Rightarrow> bytes \<Rightarrow> socket_addr \<Rightarrow> send_batch_state" where
  "push_first self packet dst =
     self\<lparr>sb_segment_size := length packet, sb_to := Some dst, sb_packets := sb_packets self @ [packet]\<rparr>"

definition try_push :: "send_batch_state \<Rightarrow> bytes \<Rightarrow> socket_addr \<Rightarrow> bytes option \<times> send_batch_state" where
  "try_push self packet dst =
     (if sb_packets self = [] then (None, push_first self packet dst)
      else
        let compatible = sb_to self = Some dst
          \<and> length packet \<le> sb_segment_size self
          \<and> (length packet = sb_segment_size self \<or> length (sb_packets self) < SEND_BATCH)
        in if compatible then (None, self\<lparr>sb_packets := sb_packets self @ [packet]\<rparr>)
           else (Some packet, self))"

definition ends_with_short_segment :: "send_batch_state \<Rightarrow> bool" where
  "ends_with_short_segment self \<longleftrightarrow>
     sb_packets self \<noteq> [] \<and> length (last (sb_packets self)) < sb_segment_size self"

definition batch_take :: "send_batch_state \<Rightarrow> (socket_addr \<times> nat \<times> bytes list) option \<times> send_batch_state" where
  "batch_take self =
     (case sb_to self of
        None \<Rightarrow> (None, self)
      | Some dst \<Rightarrow> (Some (dst, sb_segment_size self, sb_packets self), send_batch_new))"

definition send_batch :: "kernel \<Rightarrow> fd \<Rightarrow> send_batch_state \<Rightarrow> trace \<Rightarrow>
    ((io_error + unit) \<times> send_batch_state \<times> trace) option" where
  "send_batch k fd batch t =
     (case batch_take batch of
        (None, batch) \<Rightarrow> Some (Inr (), batch, t)
      | (Some (dst, segment_size, packets), batch) \<Rightarrow> do {
          (r, t) \<leftarrow> send_packets k fd dst segment_size packets t;
          Some (r, batch, t)
        })"

definition send_udp :: "kernel \<Rightarrow> fd \<Rightarrow> bytes \<Rightarrow> socket_addr \<Rightarrow> trace \<Rightarrow> ((io_error + unit) \<times> trace) option" where
  "send_udp k fd buf dst t = do {
     (r, _, t) \<leftarrow> send_batch k fd (push_first send_batch_new buf dst) t;
     Some (r, t)
   }"

subsection \<open>Flushing a connection\<close>

datatype flush_error = Flush_Io io_error | Flush_Quic quic_error

text \<open>How the bounded inner loop leaves: it ran its full count, \<^verbatim>\<open>quiche\<close> had nothing more, or an error.\<close>

datatype flush_exit = Batch_Full | Break_Flush | Bail flush_error

text \<open>The body of the inner loop for one packet: put it into the batch, sending first what does not go
  with it, and send at once a batch that ends with a short segment.\<close>

definition flush_push :: "kernel \<Rightarrow> fd \<Rightarrow> bytes \<Rightarrow> socket_addr \<Rightarrow> send_batch_state \<Rightarrow> trace \<Rightarrow>
    ((io_error + unit) \<times> send_batch_state \<times> trace) option" where
  "flush_push k fd out dst batch t = do {
     (r, batch, t) \<leftarrow>
       (case try_push batch out dst of
          (None, batch) \<Rightarrow> Some (Inr (), batch, t)
        | (Some pending, batch) \<Rightarrow> do {
            (r, batch, t) \<leftarrow> send_batch k fd batch t;
            Some (r, (case r of Inl _ \<Rightarrow> batch | Inr _ \<Rightarrow> push_first batch pending dst), t)
          });
     (case r of
        Inl e \<Rightarrow> Some (Inl e, batch, t)
      | Inr _ \<Rightarrow> if ends_with_short_segment batch then send_batch k fd batch t else Some (Inr (), batch, t))
   }"

fun flush_for :: "kernel \<Rightarrow> ('c, 'h, 'g) quiche \<Rightarrow> fd \<Rightarrow> nat \<Rightarrow> 'c \<Rightarrow> send_batch_state \<Rightarrow> trace \<Rightarrow>
    (flush_exit \<times> 'c \<times> send_batch_state \<times> trace) option" where
  "flush_for k q fd 0 conn batch t = Some (Batch_Full, conn, batch, t)"
| "flush_for k q fd (Suc i) conn batch t =
     (case q_send q conn MAX_DATAGRAM_SIZE of
        (Inl e, conn) \<Rightarrow> Some (if e = Done then Break_Flush else Bail (Flush_Quic e), conn, batch, t)
      | (Inr (out, dst), conn) \<Rightarrow> do {
          (r, batch, t) \<leftarrow> flush_push k fd out dst batch t;
          (case r of
             Inl e \<Rightarrow> Some (Bail (Flush_Io e), conn, batch, t)
           | Inr _ \<Rightarrow> flush_for k q fd i conn batch t)
        })"

partial_function (option) flush_loop :: "kernel \<Rightarrow> ('c, 'h, 'g) quiche \<Rightarrow> fd \<Rightarrow> 'c \<Rightarrow> send_batch_state \<Rightarrow> trace \<Rightarrow>
    ((flush_error + send_batch_state) \<times> 'c \<times> trace) option" where
  "flush_loop k q fd conn batch t = do {
     (exit, conn, batch, t) \<leftarrow> flush_for k q fd SEND_BATCH conn batch t;
     (case exit of
        Bail e \<Rightarrow> Some (Inl e, conn, t)
      | Break_Flush \<Rightarrow> Some (Inr batch, conn, t)
      | Batch_Full \<Rightarrow> do {
          (r, batch, t) \<leftarrow> send_batch k fd batch t;
          (case r of
             Inl e \<Rightarrow> Some (Inl (Flush_Io e), conn, t)
           | Inr _ \<Rightarrow> flush_loop k q fd conn batch t)
        })
   }"

definition flush_connection :: "kernel \<Rightarrow> ('c, 'h, 'g) quiche \<Rightarrow> fd \<Rightarrow> 'c \<Rightarrow> trace \<Rightarrow>
    ((flush_error + unit) \<times> 'c \<times> trace) option" where
  "flush_connection k q fd conn t = do {
     (r, conn, t) \<leftarrow> flush_loop k q fd conn send_batch_new t;
     (case r of
        Inl e \<Rightarrow> Some (Inl e, conn, t)
      | Inr batch \<Rightarrow> do {
          (r, _, t) \<leftarrow> send_batch k fd batch t;
          Some (map_err Flush_Io r, conn, t)
        })
   }"

subsection \<open>Receiving\<close>

fun socket_addr_from_storage :: "sockaddr_storage \<Rightarrow> io_error + socket_addr" where
  "socket_addr_from_storage (Sockaddr_In addr port) = Inr (SocketV4 (from_be_bytes addr) (from_be_bytes port))"
| "socket_addr_from_storage (Sockaddr_In6 addr port flowinfo scope_id) =
     Inr (SocketV6 (from_be_bytes addr) (from_be_bytes port) flowinfo scope_id)"
| "socket_addr_from_storage (Sockaddr_Other family) = Inl (io_error_new InvalidData)"

fun recv_gro_segment_size :: "cmsg list \<Rightarrow> nat option" where
  "recv_gro_segment_size [] = None"
| "recv_gro_segment_size (c # cs) =
     (if cmsg_level c = SOL_UDP \<and> cmsg_type c = UDP_GRO then Some (unat (cmsg_data c))
      else recv_gro_segment_size cs)"

definition recv_udp_segments :: "kernel \<Rightarrow> fd \<Rightarrow> nat \<Rightarrow> trace \<Rightarrow> (io_error + (bytes \<times> socket_addr) list) \<times> trace" where
  "recv_udp_segments k fd segment_size t =
     (let capacity = min (min (segment_size * RECV_BATCH) (2 ^ 64 - 1)) 65535 in
      case recvmsg k fd (max capacity segment_size) t of
        (Inl e, t) \<Rightarrow> (Inl (last_os_error e), t)
      | (Inr msg, t) \<Rightarrow>
          (let n = length (rc_data msg) in
           case socket_addr_from_storage (rc_name msg) of
             Inl e \<Rightarrow> (Inl e, t)
           | Inr from \<Rightarrow>
               (case recv_gro_segment_size (rc_control msg) of
                  None \<Rightarrow> (Inr [(rc_data msg, from)], t)
                | Some gro_size \<Rightarrow>
                    if 0 < gro_size \<and> gro_size < n
                    then (Inr (map (\<lambda>chunk. (chunk, from)) (chunks gro_size (rc_data msg))), t)
                    else (Inr [(rc_data msg, from)], t))))"

definition recv_udp_connected :: "kernel \<Rightarrow> fd \<Rightarrow> nat \<Rightarrow> trace \<Rightarrow> (io_error + bytes) \<times> trace" where
  "recv_udp_connected k fd buf_size t =
     (case recvmsg k fd buf_size t of
        (Inl e, t) \<Rightarrow> (Inl (last_os_error e), t)
      | (Inr msg, t) \<Rightarrow> (Inr (rc_data msg), t))"

text \<open>The receive task.  One wake-up reads at most \<^const>\<open>RECV_BATCH\<close> messages and offers every segment to
  the channel in order; the result says whether the task goes on.\<close>

datatype task_flow = Task_Continue | Task_Return

fun recv_for :: "kernel \<Rightarrow> fd \<Rightarrow> nat \<Rightarrow> nat \<Rightarrow> (bytes \<times> socket_addr) list \<Rightarrow> trace \<Rightarrow>
    task_flow \<times> (bytes \<times> socket_addr) list \<times> trace" where
  "recv_for k fd buf_size 0 sent t = (Task_Continue, sent, t)"
| "recv_for k fd buf_size (Suc i) sent t =
     (case recv_udp_segments k fd buf_size t of
        (Inr segments, t) \<Rightarrow> recv_for k fd buf_size i (sent @ segments) t
      | (Inl e, t) \<Rightarrow>
          if err_kind e = WouldBlock then (Task_Continue, sent, t)
          else if err_kind e = Interrupted then recv_for k fd buf_size i sent t
          else (Task_Return, sent, t))"

datatype recv_wake = Socket_Ready | Cancelled

definition udp_recv_step :: "kernel \<Rightarrow> fd \<Rightarrow> nat \<Rightarrow> recv_wake \<Rightarrow> trace \<Rightarrow>
    task_flow \<times> (bytes \<times> socket_addr) list \<times> trace" where
  "udp_recv_step k fd buf_size wake t =
     (case wake of
        Cancelled \<Rightarrow> (Task_Return, [], t)
      | Socket_Ready \<Rightarrow>
          (case sys k (Await_Readable fd) t of
             (Inl e, t) \<Rightarrow> (Task_Return, [], t)
           | (Inr _, t) \<Rightarrow> recv_for k fd buf_size RECV_BATCH [] t))"

section \<open>What a send puts on the wire\<close>

text \<open>An operation that had to send the datagrams \<open>ps\<close> sent a prefix of them, and all if it succeeded.\<close>

definition sent_upto :: "fd \<Rightarrow> socket_addr option \<Rightarrow> bytes list \<Rightarrow> trace \<Rightarrow> (io_error + unit) \<Rightarrow> trace \<Rightarrow> bool" where
  "sent_upto fd dst ps t r t' \<longleftrightarrow>
     (\<exists>qs. prefix qs ps \<and> wire t' = wire t @ map (\<lambda>p. (fd, dst, p)) qs \<and> (r = Inr () \<longrightarrow> qs = ps))"

lemma sent_uptoI: "prefix qs ps \<Longrightarrow> wire t' = wire t @ map (\<lambda>p. (fd, dst, p)) qs \<Longrightarrow> (r = Inr () \<Longrightarrow> qs = ps) \<Longrightarrow>
    sent_upto fd dst ps t r t'"
  by (auto simp: sent_upto_def)

lemma sent_upto_Cons:
  "sent_upto fd dst [p] t (Inr ()) t' \<Longrightarrow> sent_upto fd dst ps t' r t'' \<Longrightarrow> sent_upto fd dst (p # ps) t r t''"
  unfolding sent_upto_def
proof (elim exE conjE)
  fix qs qs'
  assume "prefix qs [p]" "wire t' = wire t @ map (\<lambda>p. (fd, dst, p)) qs" "Inr () = Inr () \<longrightarrow> qs = [p]"
    "prefix qs' ps" "wire t'' = wire t' @ map (\<lambda>p. (fd, dst, p)) qs'" "r = Inr () \<longrightarrow> qs' = ps"
  then show "\<exists>qs. prefix qs (p # ps) \<and> wire t'' = wire t @ map (\<lambda>p. (fd, dst, p)) qs \<and> (r = Inr () \<longrightarrow> qs = p # ps)"
    by (intro exI [of _ "p # qs'"]) simp
qed

lemma sent_upto_more: "sent_upto fd dst ps t (Inl e) t' \<Longrightarrow> prefix ps qs \<Longrightarrow> sent_upto fd dst qs t (Inl e) t'"
  by (auto simp: sent_upto_def intro: prefix_order.trans)

lemma last_os_error_simps [simp]:
  "err_kind (last_os_error e) = WouldBlock \<longleftrightarrow> e = EAGAIN" "raw_os_error (last_os_error e) = Some e"
  "err_kind (io_error_new knd) = knd" "raw_os_error (io_error_new knd) = None"
  by (simp_all add: last_os_error_def io_error_new_def)

text \<open>One message: on success its datagrams are on the wire, on a kernel error nothing is.\<close>

definition payload_post :: "fd \<Rightarrow> socket_addr option \<Rightarrow> bytes list \<Rightarrow> trace \<Rightarrow> (io_error + unit) \<times> trace \<Rightarrow> bool" where
  "payload_post fd dst ps t y =
     (case y of
        (Inr _, t') \<Rightarrow> wire t' = wire t @ map (\<lambda>p. (fd, dst, p)) ps
      | (Inl e, t') \<Rightarrow> if raw_os_error e = None then wire t' = wire t @ map (\<lambda>p. (fd, dst, p)) ps else wire t' = wire t)"

lemma payload_post_wire: "wire t = wire u \<Longrightarrow> payload_post fd dst ps t y = payload_post fd dst ps u y"
  by (simp add: payload_post_def split: prod.split sum.split)

lemma sendmsg_udp_post:
  "payload_post fd (Some dst) (gso_segments (map_option word_of_nat g) p) t (sendmsg_udp k fd dst p g t)"
  by (simp add: payload_post_def sendmsg_udp_def sys_def Let_def split: sum.split)

lemma sendmsg_udp_connected_post:
  "payload_post fd None [p] t (sendmsg_udp_connected k fd p t)"
  by (simp add: payload_post_def sendmsg_udp_connected_def sys_def Let_def gso_segments_def split: sum.split)

lemma sendmsg_would_block:
  "sendmsg_udp k fd dst p g t = (Inl e, t') \<Longrightarrow> err_kind e = WouldBlock \<Longrightarrow> wire t' = wire t"
  "sendmsg_udp_connected k fd p t = (Inl e, t') \<Longrightarrow> err_kind e = WouldBlock \<Longrightarrow> wire t' = wire t"
  by (auto simp: sendmsg_udp_def sendmsg_udp_connected_def sys_def Let_def split: sum.splits if_splits)

lemma send_payload_post:
  "send_payload k fd dst p g t = Some y \<Longrightarrow>
     payload_post fd (Some dst) (gso_segments (map_option word_of_nat g) p) t y"
proof (induction rule: send_payload.raw_induct [rotated, consumes 1, case_names step])
  case (step f k fd dst p g t y)
  obtain r u where s: "sendmsg_udp k fd dst p g t = (r, u)" by force
  have post: "payload_post fd (Some dst) (gso_segments (map_option word_of_nat g) p) t (r, u)"
    using sendmsg_udp_post [of fd dst g p t k] by (simp only: s)
  show ?case
  proof (cases "\<exists>e. r = Inl e \<and> err_kind e = WouldBlock")
    case True
    then obtain e where e: "r = Inl e" "err_kind e = WouldBlock" by blast
    then have w: "wire u = wire t" using sendmsg_would_block(1) s by blast
    obtain a v where a: "sys k (Await_Writable fd) u = (a, v)" by force
    then have v: "wire v = wire t" using w by (auto simp: sys_def Let_def)
    show ?thesis
    proof (cases a)
      case (Inl e')
      then have "y = (Inl (last_os_error e'), v)" using step.hyps s e a by simp
      with v show ?thesis by (simp add: payload_post_def)
    next
      case (Inr x)
      then have "f k fd dst p g v = Some y" using step.hyps s e a by simp
      from step.IH [OF this] v show ?thesis by (simp add: payload_post_wire [of v t])
    qed
  next
    case False
    then have "y = (r, u)" using step.hyps s by (cases r) simp_all
    with post show ?thesis by simp
  qed
qed

lemma payload_post_upto:
  "payload_post fd dst qs t (Inl e, t') \<Longrightarrow> prefix qs ps \<Longrightarrow> sent_upto fd dst ps t (Inl e) t'"
  "payload_post fd dst ps t (Inr u, t') \<Longrightarrow> sent_upto fd dst ps t (Inr ()) t'"
proof -
  assume "payload_post fd dst qs t (Inl e, t')" "prefix qs ps"
  then show "sent_upto fd dst ps t (Inl e) t'"
    by (cases "raw_os_error e = None")
      (auto simp only: payload_post_def prod.case sum.case if_True if_False
        intro: sent_uptoI [of "[]"] sent_uptoI [of qs], auto intro: sent_uptoI [of "[]"])
next
  assume "payload_post fd dst ps t (Inr u, t')"
  then show "sent_upto fd dst ps t (Inr ()) t'"
    by (intro sent_uptoI [of ps]) (simp_all add: payload_post_def)
qed

lemma send_each_upto: "send_each k fd dst ps t = Some (r, t') \<Longrightarrow> sent_upto fd (Some dst) ps t r t'"
proof (induction ps arbitrary: t)
  case Nil
  then show ?case by (auto simp: sent_upto_def)
next
  case (Cons p ps)
  then obtain r1 t1 where one: "send_payload k fd dst p None t = Some (r1, t1)"
    by (auto simp: bind_eq_Some_conv)
  from send_payload_post [OF one] have post: "payload_post fd (Some dst) [p] t (r1, t1)"
    by (simp add: gso_segments_def)
  show ?case
  proof (cases r1)
    case (Inl e)
    with Cons.prems one post show ?thesis by (auto intro: payload_post_upto(1))
  next
    case (Inr x)
    then have "sent_upto fd (Some dst) [p] t (Inr ()) t1"
      using post by (auto intro: payload_post_upto(2))
    with Cons Inr one show ?thesis by (auto intro: sent_upto_Cons)
  qed
qed

section \<open>Batches are cut back into their packets\<close>

text \<open>Packets that all have the segment size, but for a last one that may be shorter.\<close>

definition segmented :: "nat \<Rightarrow> bytes list \<Rightarrow> bool" where
  "segmented n ps \<longleftrightarrow> ps \<noteq> [] \<and> (\<forall>p \<in> set (butlast ps). length p = n) \<and> 0 < length (last ps) \<and> length (last ps) \<le> n"

lemma chunks_segmented: "segmented n ps \<Longrightarrow> chunks n (concat ps) = ps"
proof (induction ps)
  case (Cons p ps)
  show ?case
  proof (cases "ps = []")
    case True
    with Cons.prems show ?thesis
      by (subst chunks.simps, cases p) (simp_all add: segmented_def)
  next
    case False
    with Cons.prems have p: "length p = n" "0 < n" and "segmented n ps" by (auto simp: segmented_def)
    then have "chunks n (concat ps) = ps" using Cons.IH by simp
    with p show ?thesis by (subst chunks.simps, cases "p = []") simp_all
  qed
qed (simp add: segmented_def)

lemma send_packets_upto:
  assumes seg: "segmented n ps" "n < 2 ^ 16" and s: "send_packets k fd dst n ps t = Some (r, t')"
  shows "sent_upto fd (Some dst) ps t r t'"
proof -
  let ?g = "if 1 < length ps then Some n else None"
  from s obtain r1 t1 where one: "send_payload k fd dst (concat ps) ?g t = Some (r1, t1)"
    by (auto simp: send_packets_def target_os_linux_def bind_eq_Some_conv Let_def)
  have "gso_segments (map_option word_of_nat ?g) (concat ps) = ps"
  proof (cases "1 < length ps")
    case True
    have "0 < n" using seg(1) by (cases "last ps") (auto simp: segmented_def)
    with True chunks_segmented [OF seg(1)] seg(2) show ?thesis
      by (simp add: gso_segments_def unat_of_nat unat_eq_zero [symmetric])
  next
    case False
    then have "length ps = 1" using seg(1) by (cases ps) (auto simp: segmented_def)
    then show ?thesis by (auto simp: gso_segments_def length_Suc_conv)
  qed
  with send_payload_post [OF one] have post: "payload_post fd (Some dst) ps t (r1, t1)" by simp
  show ?thesis
  proof (cases r1)
    case (Inl e)
    show ?thesis
    proof (cases "1 < length ps \<and> is_gso_unsupported e")
      case True
      then have "wire t1 = wire t" using post Inl by (auto simp: payload_post_def is_gso_unsupported_def)
      moreover have "send_each k fd dst ps t1 = Some (r, t')"
        using s one Inl True by (simp add: send_packets_def target_os_linux_def)
      ultimately show ?thesis using send_each_upto [of k fd dst ps t1 r t'] by (simp add: sent_upto_def)
    next
      case False
      then have "(r, t') = (r1, t1)" using s one Inl by (auto simp: send_packets_def target_os_linux_def)
      with post Inl show ?thesis by (auto intro: payload_post_upto(1))
    qed
  next
    case (Inr x)
    then have "(r, t') = (Inr (), t1)" using s one by (auto simp: send_packets_def target_os_linux_def)
    with post Inr show ?thesis by (auto intro: payload_post_upto(2))
  qed
qed

section \<open>Flushing\<close>

text \<open>What \<^verbatim>\<open>quiche\<close> promises of \<^verbatim>\<open>send\<close>: a packet is not empty and fits the buffer.\<close>

definition send_ok :: "('c, 'h, 'g) quiche \<Rightarrow> bool" where
  "send_ok q \<longleftrightarrow> (\<forall>c n out dst c'. q_send q c n = (Inr (out, dst), c') \<longrightarrow> 0 < length out \<and> length out \<le> n)"

text \<open>The packets a connection hands out, in order.\<close>

inductive emits :: "('c, 'h, 'g) quiche \<Rightarrow> 'c \<Rightarrow> (bytes \<times> socket_addr) list \<Rightarrow> 'c \<Rightarrow> bool" for q where
  emits_Nil: "emits q c [] c"
| emits_Cons: "q_send q c MAX_DATAGRAM_SIZE = (Inr p, c') \<Longrightarrow> emits q c' ps c'' \<Longrightarrow> emits q c (p # ps) c''"

inductive_simps emits_simps [simp]: "emits q c [] c'" "emits q c (p # ps) c'"

lemma emits_append: "emits q c ps c' \<Longrightarrow> emits q c' qs c'' \<Longrightarrow> emits q c (ps @ qs) c''"
  by (induction rule: emits.induct) auto

text \<open>Between two sends a batch holds only full segments for one destination.\<close>

definition batch_full :: "send_batch_state \<Rightarrow> bool" where
  "batch_full b \<longleftrightarrow> (sb_packets b = [] \<longleftrightarrow> sb_to b = None) \<and> (sb_packets b \<noteq> [] \<longrightarrow> 0 < sb_segment_size b)
     \<and> sb_segment_size b < 2 ^ 16 \<and> (\<forall>p \<in> set (sb_packets b). length p = sb_segment_size b)"

definition batch_ok :: "send_batch_state \<Rightarrow> bool" where
  "batch_ok b \<longleftrightarrow> (sb_packets b = [] \<longleftrightarrow> sb_to b = None) \<and> sb_segment_size b < 2 ^ 16
     \<and> (sb_packets b \<noteq> [] \<longrightarrow> segmented (sb_segment_size b) (sb_packets b))"

definition queued :: "fd \<Rightarrow> send_batch_state \<Rightarrow> (fd \<times> socket_addr option \<times> bytes) list" where
  "queued fd b = map (\<lambda>p. (fd, sb_to b, p)) (sb_packets b)"

definition addressed :: "fd \<Rightarrow> (bytes \<times> socket_addr) list \<Rightarrow> (fd \<times> socket_addr option \<times> bytes) list" where
  "addressed fd ps = map (\<lambda>(p, dst). (fd, Some dst, p)) ps"

lemma addressed_simps [simp]:
  "addressed fd [] = []" "addressed fd ((p, dst) # ps) = (fd, Some dst, p) # addressed fd ps"
  "addressed fd (ps @ qs) = addressed fd ps @ addressed fd qs"
  by (simp_all add: addressed_def)

lemma batch_full_new [simp]:
  "batch_full send_batch_new" "queued fd send_batch_new = []" "sb_packets send_batch_new = []"
  by (simp_all add: batch_full_def queued_def send_batch_new_def)

lemma batch_full_ok: "batch_full b \<Longrightarrow> batch_ok b"
  by (auto simp: batch_full_def batch_ok_def segmented_def dest: in_set_butlastD)

lemma in_set_butlast_or_last: "p \<in> set ps \<Longrightarrow> p \<in> set (butlast ps) \<or> p = last ps"
  by (induction ps) (auto split: if_splits)

lemma batch_ok_full: "batch_ok b \<Longrightarrow> \<not> ends_with_short_segment b \<Longrightarrow> batch_full b"
  by (cases "last (sb_packets b)")
    (auto simp: batch_full_def batch_ok_def segmented_def ends_with_short_segment_def dest: in_set_butlast_or_last)

lemma send_batch_post:
  assumes "batch_ok b" and "send_batch k fd b t = Some (r, b', t')"
  shows "b' = send_batch_new \<or> b' = b \<and> sb_packets b = []"
    and "\<exists>qs. prefix qs (queued fd b) \<and> wire t' = wire t @ qs \<and> (r = Inr () \<longrightarrow> qs = queued fd b)"
proof -
  show "b' = send_batch_new \<or> b' = b \<and> sb_packets b = []"
    using assms by (auto simp: send_batch_def batch_take_def batch_ok_def bind_eq_Some_conv split: option.splits)
  show "\<exists>qs. prefix qs (queued fd b) \<and> wire t' = wire t @ qs \<and> (r = Inr () \<longrightarrow> qs = queued fd b)"
  proof (cases "sb_to b")
    case None
    with assms show ?thesis by (auto simp: send_batch_def batch_take_def batch_ok_def queued_def)
  next
    case (Some dst)
    with assms have "send_packets k fd dst (sb_segment_size b) (sb_packets b) t = Some (r, t')"
      by (auto simp: send_batch_def batch_take_def bind_eq_Some_conv)
    with Some assms(1) have "sent_upto fd (Some dst) (sb_packets b) t r t'"
      by (intro send_packets_upto) (auto simp: batch_ok_def)
    with Some show ?thesis by (auto simp: sent_upto_def queued_def intro: map_mono_prefix)
  qed
qed

lemma push_first_ok:
  "sb_packets b = [] \<Longrightarrow> 0 < length out \<Longrightarrow> length out < 2 ^ 16 \<Longrightarrow> batch_ok (push_first b out dst)"
  "sb_packets b = [] \<Longrightarrow> queued fd (push_first b out dst) = [(fd, Some dst, out)]"
  by (simp_all add: batch_ok_def segmented_def push_first_def queued_def)

lemma try_push_None:
  assumes "try_push b out dst = (None, b')" "batch_full b" "0 < length out" "length out < 2 ^ 16"
  shows "batch_ok b'" and "queued fd b' = queued fd b @ [(fd, Some dst, out)]"
    and "length (sb_packets b') = Suc (length (sb_packets b))"
  using assms
  by (auto simp: try_push_def Let_def push_first_ok batch_full_def batch_ok_def segmented_def queued_def
      push_first_def split: if_splits)

lemma try_push_Some:
  "try_push b out dst = (Some pending, b') \<Longrightarrow> pending = out \<and> b' = b \<and> sb_packets b \<noteq> []"
  by (auto simp: try_push_def Let_def split: if_splits)

lemma flush_push_post:
  assumes b: "batch_full b" and out: "0 < length out" "length out < 2 ^ 16"
    and p: "flush_push k fd out dst b t = Some (r, b', t')"
  shows "(r = Inr () \<longrightarrow> batch_full b' \<and> wire t' @ queued fd b' = wire t @ queued fd b @ [(fd, Some dst, out)]
           \<and> length (sb_packets b') \<le> Suc (length (sb_packets b)))
     \<and> prefix (wire t) (wire t') \<and> prefix (wire t') (wire t @ queued fd b @ [(fd, Some dst, out)])"
proof (cases "fst (try_push b out dst)")
  case None
  then obtain b1 where tp: "try_push b out dst = (None, b1)" by (metis prod.collapse)
  note tp' = try_push_None(1) [OF tp b out] try_push_None(2) [OF tp b out, of fd] try_push_None(3) [OF tp b out]
  show ?thesis
  proof (cases "ends_with_short_segment b1")
    case True
    then have "send_batch k fd b1 t = Some (r, b', t')" "sb_packets b1 \<noteq> []"
      using p tp by (auto simp: flush_push_def ends_with_short_segment_def)
    with send_batch_post [OF tp'(1) this(1)] tp'(2) show ?thesis by auto
  next
    case False
    then have "(r, b', t') = (Inr (), b1, t)" using p tp by (simp add: flush_push_def)
    with False tp' show ?thesis by (auto intro: batch_ok_full)
  qed
next
  case (Some x)
  then obtain pending b1 where tp: "try_push b out dst = (Some pending, b1)" by (metis prod.collapse)
  note tp' = try_push_Some [OF tp]
  from p tp obtain r1 b2 t2 where sb: "send_batch k fd b t = Some (r1, b2, t2)"
    using tp' by (auto simp: flush_push_def bind_eq_Some_conv)
  note post = send_batch_post [OF batch_full_ok [OF b] sb]
  show ?thesis
  proof (cases r1)
    case (Inl e)
    then have "(r, b', t') = (Inl e, b2, t2)" using p tp tp' sb by (simp add: flush_push_def)
    with post(2) Inl show ?thesis by (auto simp: prefix_def)
  next
    case (Inr u)
    have "b2 = send_batch_new" using post(1) tp' by auto
    moreover have "\<not> ends_with_short_segment (push_first send_batch_new out dst)"
      by (simp add: ends_with_short_segment_def push_first_def send_batch_new_def)
    ultimately have "(r, b', t') = (Inr (), push_first send_batch_new out dst, t2)"
      using p tp tp' sb Inr by (simp add: flush_push_def)
    moreover have "batch_full (push_first send_batch_new out dst)"
      using out by (simp add: batch_full_def push_first_def send_batch_new_def)
    ultimately show ?thesis
      using post(2) Inr push_first_ok(2) [of send_batch_new fd out dst]
      by (auto simp: send_batch_new_def push_first_def)
  qed
qed

text \<open>What the inner loop leaves behind: the packets taken from the connection are on the wire or in the
  batch, in order; after a socket error the wire has a prefix of them.\<close>

definition flush_post :: "('c, 'h, 'g) quiche \<Rightarrow> fd \<Rightarrow> 'c \<Rightarrow> send_batch_state \<Rightarrow> trace \<Rightarrow> (bytes \<times> socket_addr) list \<Rightarrow>
    flush_exit \<Rightarrow> 'c \<Rightarrow> send_batch_state \<Rightarrow> trace \<Rightarrow> bool" where
  "flush_post q fd c b t ps ex c' b' t' \<longleftrightarrow>
     prefix (wire t) (wire t') \<and> prefix (wire t') (wire t @ queued fd b @ addressed fd ps)
     \<and> (case ex of
          Batch_Full \<Rightarrow> emits q c ps c' \<and> batch_full b' \<and> wire t' @ queued fd b' = wire t @ queued fd b @ addressed fd ps
        | Break_Flush \<Rightarrow> (\<exists>c1. emits q c ps c1 \<and> q_send q c1 MAX_DATAGRAM_SIZE = (Inl Done, c')) \<and> batch_full b'
            \<and> wire t' @ queued fd b' = wire t @ queued fd b @ addressed fd ps
        | Bail (Flush_Quic e) \<Rightarrow> e \<noteq> Done \<and> (\<exists>c1. emits q c ps c1 \<and> q_send q c1 MAX_DATAGRAM_SIZE = (Inl e, c'))
        | Bail (Flush_Io e) \<Rightarrow> emits q c ps c')"

lemma flush_for_post:
  assumes q: "send_ok q"
  shows "batch_full b \<Longrightarrow> flush_for k q fd i c b t = Some (ex, c', b', t') \<Longrightarrow>
     \<exists>ps. flush_post q fd c b t ps ex c' b' t' \<and> (ex = Batch_Full \<longrightarrow> length ps = i)"
proof (induction i arbitrary: c b t)
  case 0
  then show ?case by (auto simp: flush_post_def intro!: exI [of _ "[]"])
next
  case (Suc i)
  obtain r c1 where s: "q_send q c MAX_DATAGRAM_SIZE = (r, c1)" by force
  show ?case
  proof (cases r)
    case (Inl e)
    with Suc.prems s show ?thesis
      by (auto simp: flush_post_def intro!: exI [of _ "[]"] split: if_splits)
  next
    case (Inr pkt)
    obtain out dst where pkt: "pkt = (out, dst)" by force
    have out: "0 < length out" "length out < 2 ^ 16"
      using q s Inr pkt unfolding send_ok_def by (fastforce simp: MAX_DATAGRAM_SIZE_def MAX_UDP_PAYLOAD_def)+
    obtain r1 b1 t1 where p: "flush_push k fd out dst b t = Some (r1, b1, t1)"
      using Suc.prems(2) s Inr pkt by (auto simp: bind_eq_Some_conv)
    note post = flush_push_post [OF Suc.prems(1) out p]
    show ?thesis
    proof (cases r1)
      case (Inl e)
      then have "(ex, c', b', t') = (Bail (Flush_Io e), c1, b1, t1)"
        using Suc.prems(2) s Inr pkt p by simp
      with post s Inr pkt show ?thesis by (auto simp: flush_post_def intro!: exI [of _ "[(out, dst)]"])
    next
      case (Inr u)
      then have full: "batch_full b1" and w: "wire t1 @ queued fd b1 = wire t @ queued fd b @ [(fd, Some dst, out)]"
        and rest: "flush_for k q fd i c1 b1 t1 = Some (ex, c', b', t')"
        using post Suc.prems(2) s \<open>r = Inr pkt\<close> pkt p by auto
      obtain ps where ps: "flush_post q fd c1 b1 t1 ps ex c' b' t'" "ex = Batch_Full \<longrightarrow> length ps = i"
        using Suc.IH [OF full rest] by blast
      have w': "wire t1 @ queued fd b1 @ addressed fd ps = wire t @ queued fd b @ addressed fd ((out, dst) # ps)"
        using w by simp
      have "flush_post q fd c b t ((out, dst) # ps) ex c' b' t'"
        using ps(1) post s \<open>r = Inr pkt\<close> pkt unfolding flush_post_def w'
        by (auto split: flush_exit.splits flush_error.splits intro: prefix_order.trans)
      with ps(2) show ?thesis by (intro exI [of _ "(out, dst) # ps"]) simp
    qed
  qed
qed

abbreviation flush_exit_of :: "flush_error + send_batch_state \<Rightarrow> flush_exit" where
  "flush_exit_of r \<equiv> (case r of Inl e \<Rightarrow> Bail e | Inr _ \<Rightarrow> Break_Flush)"

lemma flush_post_seq:
  assumes "emits q c ps c1" and "wire t1 @ queued fd b1 = wire t @ queued fd b @ addressed fd ps"
    and "flush_post q fd c1 b1 t1 qs ex c' b' t'" and "prefix (wire t) (wire t1)"
  shows "flush_post q fd c b t (ps @ qs) ex c' b' t'"
proof -
  have w: "wire t1 @ queued fd b1 @ addressed fd qs = wire t @ queued fd b @ addressed fd (ps @ qs)"
    using assms(2) by (metis addressed_simps(3) append_assoc)
  show ?thesis
    using assms(1,3,4) unfolding flush_post_def w
    by (auto simp del: addressed_simps split: flush_exit.splits flush_error.splits
      intro: prefix_order.trans emits_append)
qed

lemma flush_post_Bail: "flush_post q fd c b t ps (Bail e) c' b' t' \<Longrightarrow> flush_post q fd c b t ps (Bail e) c' b'' t'"
  by (simp add: flush_post_def)

lemma flush_loop_post:
  "flush_loop k q fd c b t = Some y \<Longrightarrow> batch_full b \<Longrightarrow> send_ok q \<Longrightarrow>
     (case y of (r, c', t') \<Rightarrow> \<exists>ps. flush_post q fd c b t ps (flush_exit_of r) c' (case r of Inl _ \<Rightarrow> b | Inr b' \<Rightarrow> b') t')"
proof (induction k q fd c b t y rule: flush_loop.raw_induct [rotated, consumes 1, case_names step])
  case (step f k q fd c b t y)
  note q = \<open>send_ok q\<close> and full = \<open>batch_full b\<close>
  obtain ex c1 b1 t1 where ff: "flush_for k q fd SEND_BATCH c b t = Some (ex, c1, b1, t1)"
    using step.hyps by (auto simp: bind_eq_Some_conv)
  obtain ps where post: "flush_post q fd c b t ps ex c1 b1 t1"
    using flush_for_post [OF q full ff] by blast
  show ?case
  proof (cases ex)
    case Batch_Full
    obtain r b2 t2 where sb: "send_batch k fd b1 t1 = Some (r, b2, t2)"
      using step.hyps ff Batch_Full by (auto simp: bind_eq_Some_conv)
    have f1: "batch_full b1" "emits q c ps c1" "wire t1 @ queued fd b1 = wire t @ queued fd b @ addressed fd ps"
      "prefix (wire t) (wire t1)"
      using post Batch_Full by (simp_all add: flush_post_def)
    note sp = send_batch_post [OF batch_full_ok [OF f1(1)] sb]
    show ?thesis
    proof (cases r)
      case (Inl e)
      then have "y = (Inl (Flush_Io e), c1, t2)" using step.hyps ff Batch_Full sb by simp
      moreover have "prefix (wire t) (wire t2)" "prefix (wire t2) (wire t @ queued fd b @ addressed fd ps)"
        using sp(2) f1(3,4) by (auto simp flip: f1(3) simp: prefix_def)
      ultimately show ?thesis using f1(2) by (auto simp: flush_post_def)
    next
      case (Inr u)
      then have rest: "f k q fd c1 b2 t2 = Some y" using step.hyps ff Batch_Full sb by simp
      have b2: "batch_full b2" "queued fd b2 = []" using sp(1) f1(1) by (auto simp: queued_def)
      have w: "wire t2 @ queued fd b2 = wire t @ queued fd b @ addressed fd ps" "prefix (wire t) (wire t2)"
        using sp(2) Inr b2 f1(3,4) by (auto simp: prefix_def)
      obtain r' c' t' where y: "y = (r', c', t')" by (cases y)
      then obtain qs where "flush_post q fd c1 b2 t2 qs (flush_exit_of r') c' (case r' of Inl _ \<Rightarrow> b2 | Inr b' \<Rightarrow> b') t'"
        using step.IH [OF rest b2(1) q] by auto
      from flush_post_seq [OF f1(2) w(1) this w(2)] y show ?thesis
        by (cases r') (auto intro: flush_post_Bail)
    qed
  next
    case Break_Flush
    then have "y = (Inr b1, c1, t1)" using step.hyps ff by simp
    with post Break_Flush show ?thesis by auto
  next
    case (Bail e)
    then have "y = (Inl e, c1, t1)" using step.hyps ff by simp
    with post Bail show ?thesis by (auto simp: flush_post_def)
  qed
qed

section \<open>Termination\<close>

text \<open>A socket that does not block for ever: after \<open>m\<close> rounds of refusal and wake-up a send is answered.\<close>

fun blocked_event :: "event \<Rightarrow> bool" where
  "blocked_event (Call (Sendmsg _ _ _ _) (Inl e)) = (e = EAGAIN)"
| "blocked_event (Call (Await_Writable _) (Inr _)) = True"
| "blocked_event _ = False"

definition spins :: "trace \<Rightarrow> nat" where
  "spins t = length (takeWhile blocked_event (rev t))"

definition unblocks :: "kernel \<Rightarrow> nat \<Rightarrow> bool" where
  "unblocks k m \<longleftrightarrow> (\<forall>t fd dst p g. m \<le> spins t \<longrightarrow> k_call k t (Sendmsg fd dst p g) \<noteq> Inl EAGAIN)"

lemma spins_snoc: "spins (t @ [e]) = (if blocked_event e then Suc (spins t) else 0)"
  by (simp add: spins_def)

lemma send_payload_total:
  assumes "unblocks k m"
  shows "\<exists>r t'. send_payload k fd dst p g t = Some (r, t')"
proof (induction "m - spins t" arbitrary: t rule: less_induct)
  case less
  let ?s = "Sendmsg fd (Some dst) p (map_option word_of_nat g)"
  show ?case
  proof (cases "k_call k t ?s = Inl EAGAIN")
    case True
    let ?t1 = "t @ [Call ?s (Inl EAGAIN)]"
    have "spins t < m" using True assms unfolding unblocks_def by (metis linorder_not_le)
    have one: "sendmsg_udp k fd dst p g t = (Inl (last_os_error EAGAIN), ?t1)"
      using True by (simp add: sendmsg_udp_def sys_eq)
    show ?thesis
    proof (cases "k_call k ?t1 (Await_Writable fd)")
      case (Inl e)
      with one show ?thesis by (subst send_payload.simps) (simp add: sys_eq)
    next
      case (Inr x)
      let ?t2 = "?t1 @ [Call (Await_Writable fd) (Inr x)]"
      have "spins ?t2 = spins t + 2" by (simp add: spins_def)
      with \<open>spins t < m\<close> have "m - spins ?t2 < m - spins t" by simp
      from less [OF this] Inr one show ?thesis by (subst send_payload.simps) (simp add: sys_eq)
    qed
  next
    case False
    then show ?thesis
      by (subst send_payload.simps, cases "k_call k t ?s") (simp_all add: sendmsg_udp_def sys_eq)
  qed
qed

lemma send_each_total: "unblocks k m \<Longrightarrow> \<exists>r t'. send_each k fd dst ps t = Some (r, t')"
proof (induction ps arbitrary: t)
  case (Cons p ps)
  obtain r t1 where "send_payload k fd dst p None t = Some (r, t1)" using send_payload_total [OF Cons.prems] by blast
  with Cons show ?case by (cases r) auto
qed simp

lemma send_packets_total:
  assumes k: "unblocks k m"
  shows "\<exists>r t'. send_packets k fd dst n ps t = Some (r, t')"
proof -
  obtain r t1 where "send_payload k fd dst (concat ps) (if 1 < length ps then Some n else None) t = Some (r, t1)"
    using send_payload_total [OF k] by blast
  with send_each_total [OF k, of fd dst ps t1] show ?thesis
    by (cases r) (simp_all add: send_packets_def target_os_linux_def)
qed

lemma send_batch_total:
  assumes k: "unblocks k m"
  shows "\<exists>r b' t'. send_batch k fd b t = Some (r, b', t')"
proof (cases "sb_to b")
  case (Some dst)
  with send_packets_total [OF k, of fd dst "sb_segment_size b" "sb_packets b" t]
  show ?thesis by (elim exE) (simp add: send_batch_def batch_take_def)
qed (simp add: send_batch_def batch_take_def)

lemma flush_push_total:
  assumes k: "unblocks k m"
  shows "\<exists>r b' t'. flush_push k fd out dst b t = Some (r, b', t')"
proof -
  have last: "\<exists>r b' t'. (if ends_with_short_segment b then send_batch k fd b t else Some (Inr (), b, t)) = Some (r, b', t')"
    for b t using send_batch_total [OF k, of fd b t] by auto
  obtain pend b1 where tp: "try_push b out dst = (pend, b1)" by force
  obtain r b2 t2 where sb: "send_batch k fd b1 t = Some (r, b2, t2)" using send_batch_total [OF k] by blast
  show ?thesis
  proof (cases pend)
    case None
    with tp last show ?thesis by (simp add: flush_push_def)
  next
    case (Some x)
    with tp sb last show ?thesis by (cases r) (simp_all add: flush_push_def)
  qed
qed

lemma flush_for_total: "unblocks k m \<Longrightarrow> \<exists>ex c' b' t'. flush_for k q fd i c b t = Some (ex, c', b', t')"
proof (induction i arbitrary: c b t)
  case (Suc i)
  obtain r c1 where s: "q_send q c MAX_DATAGRAM_SIZE = (r, c1)" by force
  show ?case
  proof (cases r)
    case (Inr pkt)
    obtain out dst where pkt: "pkt = (out, dst)" by force
    obtain r1 b1 t1 where "flush_push k fd out dst b t = Some (r1, b1, t1)"
      using flush_push_total [OF Suc.prems] by blast
    with s Inr pkt Suc.IH [OF Suc.prems, of c1 b1 t1] show ?thesis by (cases r1) auto
  qed (use s in simp)
qed simp

lemma emits_split:
  assumes "emits q c ps c1" "q_send q c1 MAX_DATAGRAM_SIZE = (Inl e, c2)" "emits q c qs c'"
  shows "\<exists>rs. ps = qs @ rs \<and> emits q c' rs c1"
  using assms(3,1,2)
proof (induction arbitrary: ps rule: emits.induct)
  case (emits_Cons c p c' qs c'')
  then obtain ps' where "ps = p # ps'" "emits q c' ps' c1"
    by (cases ps) auto
  with emits_Cons show ?case by auto
qed auto

lemma flush_loop_total:
  assumes k: "unblocks k m" and q: "send_ok q"
  shows "batch_full b \<Longrightarrow> emits q c ps c1 \<Longrightarrow> q_send q c1 MAX_DATAGRAM_SIZE = (Inl e, c2) \<Longrightarrow>
     \<exists>y. flush_loop k q fd c b t = Some y"
proof (induction "length ps" arbitrary: ps c b t rule: less_induct)
  case less
  obtain ex c' b' t' where ff: "flush_for k q fd SEND_BATCH c b t = Some (ex, c', b', t')"
    using flush_for_total [OF k, of q fd SEND_BATCH c b t] by blast
  obtain qs where post: "flush_post q fd c b t qs ex c' b' t'" "ex = Batch_Full \<longrightarrow> length qs = SEND_BATCH"
    using flush_for_post [OF q less.prems(1) ff] by blast
  show ?case
  proof (cases ex)
    case Batch_Full
    obtain r b1 t1 where sb: "send_batch k fd b' t' = Some (r, b1, t1)"
      using send_batch_total [OF k] by blast
    have f: "batch_full b'" "emits q c qs c'" using post Batch_Full by (auto simp: flush_post_def)
    then have "batch_full b1" using send_batch_post(1) [OF batch_full_ok sb] by auto
    moreover obtain rs where "ps = qs @ rs" "emits q c' rs c1"
      using emits_split [OF less.prems(2,3) f(2)] by blast
    moreover have "length rs < length ps"
      using \<open>ps = qs @ rs\<close> post(2) Batch_Full by (simp add: SEND_BATCH_def)
    ultimately have "\<exists>y. flush_loop k q fd c' b1 t1 = Some y" using less by blast
    with ff Batch_Full sb show ?thesis by (subst flush_loop.simps, cases r) simp_all
  qed (use ff in \<open>subst flush_loop.simps, simp\<close>)+
qed

lemma prefix_between: "prefix xs ys \<Longrightarrow> prefix ys (xs @ zs) \<Longrightarrow> \<exists>n. ys = xs @ take n zs"
proof -
  assume a: "prefix xs ys" "prefix ys (xs @ zs)"
  then obtain us where us: "ys = xs @ us" by (auto simp: prefix_def)
  with a(2) have "prefix us zs" by simp
  then obtain vs where "zs = us @ vs" by (auto simp: prefix_def)
  with us show "\<exists>n. ys = xs @ take n zs" by (intro exI [of _ "length us"]) simp
qed


lemma send_ok_scripted: "send_ok (scripted_for start)"
  by (auto simp: send_ok_def scripted_def split: list.splits if_splits)

lemma unblocks_calm: "unblocks calm_kernel 0"
  by (simp add: unblocks_def calm_kernel_def)

definition sample_packets :: "(bytes \<times> socket_addr) list" where
  "sample_packets = [([1, 2], SocketV4 1 53), ([3, 4], SocketV4 1 53), ([5], SocketV4 1 53)]"


text \<open>C36. Splitting undoes segmentation: packets sent as one segmented message and received coalesced, with
  the segment size in the control message, come out as the packets that went in.\<close>

theorem recv_undoes_segmentation:
  assumes "segmented n ps" and "n < 2 ^ 16"
    and "k_recvmsg k t fd (max (min (min (bsz * RECV_BATCH) (2 ^ 64 - 1)) 65535) bsz) =
      Inr \<lparr>rc_data = concat ps, rc_name = Sockaddr_In a p,
        rc_control = [\<lparr>cmsg_level = SOL_UDP, cmsg_type = UDP_GRO, cmsg_data = word_of_nat n\<rparr>]\<rparr>"
  shows "fst (recv_udp_segments k fd bsz t) = Inr (map (\<lambda>pkt. (pkt, SocketV4 (from_be_bytes a) (from_be_bytes p))) ps)"
proof -
  have n: "unat (word_of_nat n :: u16) = n" using assms(2) by (simp add: unat_of_nat)
  have pos: "0 < n" using assms(1) by (cases "last ps") (auto simp: segmented_def)
  show ?thesis
  proof (cases "n < length (concat ps)")
    case True
    with n pos chunks_segmented [OF assms(1)] assms(3) show ?thesis
      by (simp add: recv_udp_segments_def recvmsg_def Let_def del: length_concat)
  next
    case False
    have "\<exists>x. ps = [x]"
    proof (rule ccontr)
      assume "\<nexists>x. ps = [x]"
      then obtain x y zs where "ps = x # y # zs" using assms(1) by (cases ps; cases "tl ps") (auto simp: segmented_def)
      with assms(1) False pos show False
        by (cases zs) (auto simp: segmented_def split: if_splits)
    qed
    with False n assms(3) show ?thesis
      by (auto simp: recv_udp_segments_def recvmsg_def Let_def)
  qed
qed

theorem recv_undoes_segmentation_witness:
  "fst (recv_udp_segments (calm_kernel\<lparr>k_recvmsg := (\<lambda>_ _ _. Inr \<lparr>rc_data = [1, 2, 3, 4, 5],
       rc_name = Sockaddr_In [127, 0, 0, 1] [0, 53],
       rc_control = [\<lparr>cmsg_level = SOL_UDP, cmsg_type = UDP_GRO, cmsg_data = 2\<rparr>]\<rparr>)\<rparr>) 3 1400 [])
   = Inr [([1, 2], SocketV4 0x7f000001 53), ([3, 4], SocketV4 0x7f000001 53), ([5], SocketV4 0x7f000001 53)]"
proof -
  have seg: "segmented 2 [[1, 2], [3, 4], [5 :: u8]]" by (simp add: segmented_def)
  have addr: "from_be_bytes [127, 0, 0, 1] = (0x7f000001 :: u32)" "from_be_bytes [0, 53] = (53 :: u16)"
    by code_simp+
  show ?thesis
    by (rule trans [OF recv_undoes_segmentation [OF seg, of _ _ 3 1400 "[127, 0, 0, 1]" "[0, 53]"]]) (simp_all add: addr)
qed

section \<open>Sizes of segmented sends\<close>

text \<open>Everything sent between two traces has at most \<open>n\<close> bytes.\<close>

definition sends_within :: "nat \<Rightarrow> trace \<Rightarrow> trace \<Rightarrow> bool" where
  "sends_within n t t' \<longleftrightarrow>
     (\<exists>u. t' = t @ u \<and> (\<forall>fd dst p g r. Call (Sendmsg fd dst p g) r \<in> set u \<longrightarrow> length p \<le> n))"

lemma sends_within_refl [simp]: "sends_within n t t"
  by (simp add: sends_within_def)

lemma sends_within_trans: "sends_within n t t1 \<Longrightarrow> sends_within n t1 t2 \<Longrightarrow> sends_within n t t2"
  by (fastforce simp: sends_within_def)

lemma sends_within_sys:
  "(\<And>fd dst p g. s = Sendmsg fd dst p g \<Longrightarrow> length p \<le> n) \<Longrightarrow> sends_within n t (t @ [Call s r])"
  by (auto simp: sends_within_def)

lemma send_payload_within:
  "send_payload k fd dst p g t = Some y \<Longrightarrow> length p \<le> n \<Longrightarrow> sends_within n t (snd y)"
proof (induction rule: send_payload.raw_induct [rotated, consumes 1, case_names step])
  case (step f k fd dst p g t y)
  let ?s = "Sendmsg fd (Some dst) p (map_option word_of_nat g)"
  let ?t1 = "t @ [Call ?s (k_call k t ?s)]"
  have "snd (sendmsg_udp k fd dst p g t) = ?t1"
    by (cases "k_call k t ?s") (simp_all add: sendmsg_udp_def sys_eq)
  then obtain r where s: "sendmsg_udp k fd dst p g t = (r, ?t1)" by (metis prod.collapse)
  have w: "sends_within n t ?t1" using step.prems by (intro sends_within_sys) auto
  have w2: "sends_within n t (?t1 @ [Call (Await_Writable fd) a])" for a
    using w by (rule sends_within_trans) (intro sends_within_sys, auto)
  show ?case
  proof (cases "\<exists>e. r = Inl e \<and> err_kind e = WouldBlock")
    case True
    show ?thesis
    proof (cases "k_call k ?t1 (Await_Writable fd)")
      case (Inl e')
      with True step.hyps s w2 [of "Inl e'"] show ?thesis by (auto simp: sys_eq)
    next
      case (Inr x)
      with True step.hyps s have "f k fd dst p g (?t1 @ [Call (Await_Writable fd) (Inr x)]) = Some y"
        by (auto simp: sys_eq)
      from sends_within_trans [OF w2 step.IH [OF this step.prems]] show ?thesis .
    qed
  next
    case False
    with step.hyps s w show ?thesis by (cases r) auto
  qed
qed

lemma send_each_within:
  "send_each k fd dst ps t = Some (r, t') \<Longrightarrow> (\<And>p. p \<in> set ps \<Longrightarrow> length p \<le> n) \<Longrightarrow> sends_within n t t'"
proof (induction ps arbitrary: t)
  case (Cons p ps)
  then obtain r1 t1 where one: "send_payload k fd dst p None t = Some (r1, t1)"
    by (auto simp: bind_eq_Some_conv)
  have "sends_within n t t1" using send_payload_within [OF one] Cons.prems(2) by simp
  with one Cons show ?case by (cases r1) (auto intro: sends_within_trans)
qed simp

lemma length_le_concat: "p \<in> set ps \<Longrightarrow> length p \<le> length (concat ps)"
  by (induction ps) auto

lemma send_batch_within:
  assumes "send_batch k fd b t = Some (r, b', t')" and "length (concat (sb_packets b)) \<le> n"
  shows "sends_within n t t'"
proof (cases "sb_to b")
  case None
  with assms show ?thesis by (simp add: send_batch_def batch_take_def)
next
  case (Some dst)
  let ?ps = "sb_packets b"
  from Some assms(1) have s: "send_packets k fd dst (sb_segment_size b) ?ps t = Some (r, t')"
    by (auto simp: send_batch_def batch_take_def bind_eq_Some_conv)
  then obtain r1 t1 where one: "send_payload k fd dst (concat ?ps) (if 1 < length ?ps then Some (sb_segment_size b) else None) t
      = Some (r1, t1)"
    by (auto simp: send_packets_def target_os_linux_def bind_eq_Some_conv Let_def)
  have w: "sends_within n t t1" using send_payload_within [OF one assms(2)] by simp
  have each: "sends_within n t1 t'" if "send_each k fd dst ?ps t1 = Some (r, t')"
    using send_each_within [OF that] length_le_concat assms(2) by (meson le_trans)
  show ?thesis
    using s one w each
    by (cases r1) (auto simp: send_packets_def target_os_linux_def intro: sends_within_trans split: if_splits)
qed

lemma length_concat_bound: "(\<And>p. p \<in> set ps \<Longrightarrow> length p \<le> n) \<Longrightarrow> length (concat ps) \<le> length ps * n"
  by (induction ps) (auto simp: add_mono)

text \<open>The packets of a batch in the making: at most \<open>m\<close> of them, each within the packet limit.\<close>

definition batch_small :: "nat \<Rightarrow> send_batch_state \<Rightarrow> bool" where
  "batch_small m b \<longleftrightarrow> length (sb_packets b) \<le> m \<and> (\<forall>p \<in> set (sb_packets b). length p \<le> MAX_DATAGRAM_SIZE)"

lemma batch_small_concat: "batch_small m b \<Longrightarrow> m \<le> SEND_BATCH \<Longrightarrow> length (concat (sb_packets b)) \<le> SEND_BATCH * MAX_DATAGRAM_SIZE"
  using length_concat_bound [of "sb_packets b" MAX_DATAGRAM_SIZE]
  by (auto simp: batch_small_def intro: order.trans mult_le_mono1)

lemma batch_small_simps [simp]: "batch_small m send_batch_new"
  by (simp add: batch_small_def)

lemma send_batch_small:
  "send_batch k fd b t = Some (r, b', t') \<Longrightarrow> batch_small m b \<Longrightarrow> batch_small m b'"
  by (auto simp: send_batch_def batch_take_def bind_eq_Some_conv split: option.splits)

lemma try_push_small:
  "batch_small m b \<Longrightarrow> length out \<le> MAX_DATAGRAM_SIZE \<Longrightarrow> batch_small (Suc m) (snd (try_push b out dst))"
  "batch_small m b \<Longrightarrow> length out \<le> MAX_DATAGRAM_SIZE \<Longrightarrow> batch_small (Suc m) (push_first b out dst)"
  by (auto simp: try_push_def push_first_def batch_small_def Let_def)

lemma flush_push_within:
  assumes p: "flush_push k fd out dst b t = Some (r, b', t')" and b: "batch_small m b" "Suc m \<le> SEND_BATCH"
    and out: "length out \<le> MAX_DATAGRAM_SIZE"
  shows "batch_small (Suc m) b' \<and> sends_within (SEND_BATCH * MAX_DATAGRAM_SIZE) t t'"
proof -
  let ?N = "SEND_BATCH * MAX_DATAGRAM_SIZE"
  have sb: "batch_small (Suc m) b2 \<and> sends_within ?N u t2"
    if "send_batch k fd b1 u = Some (r1, b2, t2)" "batch_small (Suc m) b1" for u b1 r1 b2 t2
    using send_batch_within [OF that(1) batch_small_concat [OF that(2) b(2)]] send_batch_small [OF that] by simp
  have short: "batch_small (Suc m) b' \<and> sends_within ?N u t'"
    if "(if ends_with_short_segment b1 then send_batch k fd b1 u else Some (Inr (), b1, u)) = Some (r, b', t')"
      "batch_small (Suc m) b1" for b1 u
    using that sb by (auto split: if_splits)
  obtain pend b1 where tp: "try_push b out dst = (pend, b1)" by force
  show ?thesis
  proof (cases pend)
    case None
    with tp p short [of b1 t] try_push_small(1) [OF b(1) out, of dst] show ?thesis by (simp add: flush_push_def)
  next
    case (Some x)
    with try_push_Some tp have x: "x = out" "b1 = b" by auto
    then obtain r1 b2 t2 where one: "send_batch k fd b t = Some (r1, b2, t2)"
      using p tp Some by (auto simp: flush_push_def bind_eq_Some_conv)
    have b2: "batch_small m b2" "sends_within ?N t t2"
      using send_batch_small [OF one b(1)] send_batch_within [OF one batch_small_concat [OF b(1)]] b(2) by auto
    show ?thesis
    proof (cases r1)
      case (Inl e)
      with p tp Some x one b2 show ?thesis by (auto simp: flush_push_def batch_small_def)
    next
      case (Inr u)
      with p tp Some x one short [of "push_first b2 out dst" t2] try_push_small(2) [OF b2(1) out, of dst] b2(2)
      show ?thesis by (auto simp: flush_push_def intro: sends_within_trans)
    qed
  qed
qed

lemma flush_for_within:
  assumes q: "send_ok q"
  shows "flush_for k q fd i c b t = Some (ex, c', b', t') \<Longrightarrow> batch_small m b \<Longrightarrow> m + i \<le> SEND_BATCH \<Longrightarrow>
     batch_small SEND_BATCH b' \<and> sends_within (SEND_BATCH * MAX_DATAGRAM_SIZE) t t'"
proof (induction i arbitrary: c b t m)
  case 0
  then show ?case by (auto simp: batch_small_def)
next
  case (Suc i)
  obtain r c1 where s: "q_send q c MAX_DATAGRAM_SIZE = (r, c1)" by force
  show ?case
  proof (cases r)
    case (Inl e)
    with Suc.prems s show ?thesis by (auto simp: batch_small_def)
  next
    case (Inr pkt)
    obtain out dst where pkt: "pkt = (out, dst)" by force
    have out: "length out \<le> MAX_DATAGRAM_SIZE" using q s Inr pkt unfolding send_ok_def by blast
    obtain r1 b1 t1 where p: "flush_push k fd out dst b t = Some (r1, b1, t1)"
      using Suc.prems(1) s Inr pkt by (auto simp: bind_eq_Some_conv)
    note w = flush_push_within [OF p Suc.prems(2) _ out]
    show ?thesis
    proof (cases r1)
      case (Inl e)
      with Suc.prems s Inr pkt p w show ?thesis by (auto simp: batch_small_def)
    next
      case (Inr u)
      then have "flush_for k q fd i c1 b1 t1 = Some (ex, c', b', t')" using Suc.prems(1) s \<open>r = Inr pkt\<close> pkt p by simp
      from Suc.IH [OF this, of "Suc m"] w Suc.prems(3) show ?thesis by (auto intro: sends_within_trans)
    qed
  qed
qed

lemma flush_loop_within:
  "flush_loop k q fd c b t = Some y \<Longrightarrow> send_ok q \<Longrightarrow> batch_full b \<Longrightarrow> sb_packets b = [] \<Longrightarrow>
     sends_within (SEND_BATCH * MAX_DATAGRAM_SIZE) t (snd (snd y))
     \<and> (case fst y of Inl _ \<Rightarrow> True | Inr b' \<Rightarrow> batch_small SEND_BATCH b')"
proof (induction k q fd c b t y rule: flush_loop.raw_induct [rotated, consumes 1, case_names step])
  case (step f k q fd c b t y)
  note q = \<open>send_ok q\<close> and full = \<open>batch_full b\<close>
  obtain ex c1 b1 t1 where ff: "flush_for k q fd SEND_BATCH c b t = Some (ex, c1, b1, t1)"
    using step.hyps by (auto simp: bind_eq_Some_conv)
  have w: "batch_small SEND_BATCH b1" "sends_within (SEND_BATCH * MAX_DATAGRAM_SIZE) t t1"
    using flush_for_within [OF q ff, of 0] step.prems(3) by (auto simp: batch_small_def)
  show ?case
  proof (cases ex)
    case Batch_Full
    obtain r b2 t2 where sb: "send_batch k fd b1 t1 = Some (r, b2, t2)"
      using step.hyps ff Batch_Full by (auto simp: bind_eq_Some_conv)
    have w2: "sends_within (SEND_BATCH * MAX_DATAGRAM_SIZE) t t2"
      using w sends_within_trans send_batch_within [OF sb batch_small_concat [OF w(1)]] by blast
    show ?thesis
    proof (cases r)
      case (Inl e)
      with step.hyps ff Batch_Full sb w2 show ?thesis by auto
    next
      case (Inr u)
      then have rest: "f k q fd c1 b2 t2 = Some y" using step.hyps ff Batch_Full sb by simp
      have "batch_full b1" using flush_for_post [OF q full ff] Batch_Full by (auto simp: flush_post_def)
      then have "batch_full b2" "sb_packets b2 = []" using send_batch_post(1) [OF batch_full_ok sb] by auto
      from step.IH [OF rest q this] w2 show ?thesis by (auto intro: sends_within_trans)
    qed
  next
    case Break_Flush
    with step.hyps ff w show ?thesis by auto
  next
    case (Bail e)
    with step.hyps ff w show ?thesis by auto
  qed
qed

text \<open>C37. No message a flush hands to the kernel is larger than 44800 bytes: the segmented sends stay below
  the 65507 bytes a UDP datagram can carry.\<close>

theorem flush_connection_bounded:
  assumes "send_ok q" and "flush_connection k q fd c t = Some (r, c', t')"
  shows "\<exists>u. t' = t @ u \<and> (\<forall>fd' dst p g a. Call (Sendmsg fd' dst p g) a \<in> set u \<longrightarrow> length p \<le> 44800)"
proof -
  obtain r1 c1 t1 where loop: "flush_loop k q fd c send_batch_new t = Some (r1, c1, t1)"
    using assms(2) by (auto simp: flush_connection_def bind_eq_Some_conv)
  note w = flush_loop_within [OF this assms(1) batch_full_new(1,3)]
  have "sends_within (SEND_BATCH * MAX_DATAGRAM_SIZE) t t'"
  proof (cases r1)
    case (Inl e)
    with assms(2) loop w show ?thesis by (auto simp: flush_connection_def)
  next
    case (Inr b)
    then obtain r2 b2 where "send_batch k fd b t1 = Some (r2, b2, t')"
      using assms(2) loop by (auto simp: flush_connection_def bind_eq_Some_conv)
    from send_batch_within [OF this batch_small_concat] w Inr show ?thesis by (auto intro: sends_within_trans)
  qed
  then show ?thesis by (simp add: sends_within_def SEND_BATCH_def MAX_DATAGRAM_SIZE_def MAX_UDP_PAYLOAD_def)
qed

theorem flush_connection_bounded_witness:
  "\<exists>r c' t'. flush_connection calm_kernel (scripted idle_script) 3 idle_script [] = Some (r, c', t')
     \<and> (\<forall>fd' dst p g a. Call (Sendmsg fd' dst p g) a \<in> set t' \<longrightarrow> length p \<le> 44800)"
proof -
  have q: "q_send (scripted idle_script) idle_script MAX_DATAGRAM_SIZE = (Inl Done, idle_script)"
    by (simp add: scripted_def idle_script_def)
  obtain y where "flush_loop calm_kernel (scripted idle_script) 3 idle_script send_batch_new [] = Some y"
    using flush_loop_total [OF unblocks_calm send_ok_scripted batch_full_new(1) emits_Nil q] by blast
  moreover obtain r b t' where "send_batch calm_kernel 3 (projr (fst y)) (snd (snd y)) = Some (r, b, t')"
    using send_batch_total [OF unblocks_calm] by blast
  ultimately have "\<exists>r c' t'. flush_connection calm_kernel (scripted idle_script) 3 idle_script [] = Some (r, c', t')"
    by (cases y; cases "fst y") (auto simp: flush_connection_def)
  then show ?thesis using flush_connection_bounded [OF send_ok_scripted] by fastforce
qed

text \<open>\<^verbatim>\<open>quiche\<close> has finitely many packets to send at any moment.\<close>

definition sends_finite :: "('c, 'h, 'g) quiche \<Rightarrow> bool" where
  "sends_finite q \<longleftrightarrow> (\<forall>c. \<exists>ps c1 e c2. emits q c ps c1 \<and> q_send q c1 MAX_DATAGRAM_SIZE = (Inl e, c2))"

lemma flush_connection_total:
  assumes "unblocks k m" "send_ok q" "sends_finite q"
  shows "\<exists>r c' t'. flush_connection k q fd c t = Some (r, c', t')"
proof -
  obtain ps c1 e c2 where "emits q c ps c1" "q_send q c1 MAX_DATAGRAM_SIZE = (Inl e, c2)"
    using assms(3) unfolding sends_finite_def by blast
  then obtain y where y: "flush_loop k q fd c send_batch_new t = Some y"
    using flush_loop_total [OF assms(1,2) batch_full_new(1)] by blast
  obtain r c' t' where y': "y = (r, c', t')" by (cases y)
  show ?thesis
  proof (cases r)
    case (Inr b)
    obtain r' b' t'' where "send_batch k fd b t' = Some (r', b', t'')" using send_batch_total [OF assms(1)] by blast
    with y y' Inr show ?thesis by (simp add: flush_connection_def)
  qed (use y y' in \<open>simp add: flush_connection_def\<close>)
qed

lemma sends_finite_scripted: "sends_finite (scripted_for start :: (script, nat, 'g) quiche)"
proof -
  let ?q = "scripted_for start :: (script, nat, 'g) quiche"
  have "\<exists>ps c1 e c2. emits ?q c ps c1 \<and> q_send ?q c1 MAX_DATAGRAM_SIZE = (Inl e, c2)" for c
  proof (induction "length (sc_packets c)" arbitrary: c)
    case 0
    then show ?case by (intro exI [of _ "[]"] exI [of _ c]) (auto simp: scripted_def)
  next
    case (Suc n)
    then obtain out dst ps where p: "sc_packets c = (out, dst) # ps" "n = length ps" by (cases "sc_packets c") auto
    show ?case
    proof (cases "0 < length out \<and> length out \<le> MAX_DATAGRAM_SIZE")
      case True
      obtain qs c1 e c2 where q: "emits ?q (c\<lparr>sc_packets := ps\<rparr>) qs c1" "q_send ?q c1 MAX_DATAGRAM_SIZE = (Inl e, c2)"
        using Suc(1) [of "c\<lparr>sc_packets := ps\<rparr>"] p(2) by auto
      from True p have "q_send ?q c MAX_DATAGRAM_SIZE = (Inr (out, dst), c\<lparr>sc_packets := ps\<rparr>)"
        by (simp add: scripted_def)
      with q show ?thesis by (intro exI [of _ "(out, dst) # qs"] exI [of _ c1]) auto
    next
      case False
      with p show ?thesis by (intro exI [of _ "[]"] exI [of _ c]) (auto simp: scripted_def)
    qed
  qed
  then show ?thesis by (simp add: sends_finite_def)
qed

section \<open>What a flush leaves alone\<close>

text \<open>A flush only takes packets out of the connection: what \<^verbatim>\<open>send\<close> does not change, a flush does not change.\<close>

lemma flush_for_keeps:
  assumes q: "\<And>c n x c'. q_send q c n = (x, c') \<Longrightarrow> obs c' = obs c"
  shows "flush_for k q fd i c b t = Some (ex, c', b', t') \<Longrightarrow> obs c' = obs c"
proof (induction i arbitrary: c b t)
  case (Suc i)
  obtain r c1 where s: "q_send q c MAX_DATAGRAM_SIZE = (r, c1)" by force
  note c1 = q [OF s]
  show ?case
  proof (cases r)
    case (Inl e)
    with Suc.prems s c1 show ?thesis by simp
  next
    case (Inr pkt)
    obtain out dst where pkt: "pkt = (out, dst)" by force
    obtain r2 b2 t2 where push: "flush_push k fd out dst b t = Some (r2, b2, t2)"
      using Suc.prems s Inr pkt by (auto simp: bind_eq_Some_conv)
    show ?thesis using Suc s Inr pkt push c1 by (cases r2) simp_all
  qed
qed simp

lemma flush_loop_keeps: "flush_loop k q fd c b t = Some y \<Longrightarrow> (\<And>c n x c'. q_send q c n = (x, c') \<Longrightarrow> obs c' = obs c) \<Longrightarrow> obs (fst (snd y)) = obs c"
proof (induction rule: flush_loop.raw_induct [rotated, consumes 1, case_names step])
  case (step f k q fd c b t y)
  obtain ex c1 b1 t1 where ff: "flush_for k q fd SEND_BATCH c b t = Some (ex, c1, b1, t1)"
    using step.hyps by (auto simp: bind_eq_Some_conv)
  note c1 = flush_for_keeps [OF step.prems ff]
  have "fst (snd y) = c1 \<or> (\<exists>b2 t2. f k q fd c1 b2 t2 = Some y)"
  proof (cases ex)
    case Batch_Full
    then obtain r b2 t2 where sb: "send_batch k fd b1 t1 = Some (r, b2, t2)"
      using step.hyps ff by (auto simp: bind_eq_Some_conv)
    show ?thesis using step.hyps ff Batch_Full sb by (cases r) auto
  qed (use step.hyps ff in auto)
  moreover have "obs (fst (snd y)) = obs c1" if "f k q fd c1 b2 t2 = Some y" for b2 t2
    by (rule step.IH [OF that]) (rule step.prems)
  ultimately show ?case using c1 by auto
qed

lemma flush_connection_keeps:
  assumes "flush_connection k q fd c t = Some (r, c', t')" "\<And>c n x c'. q_send q c n = (x, c') \<Longrightarrow> obs c' = obs c"
  shows "obs c' = obs c"
proof -
  obtain r1 c1 t1 where l: "flush_loop k q fd c send_batch_new t = Some (r1, c1, t1)"
    using assms by (auto simp: flush_connection_def bind_eq_Some_conv)
  with assms(1) flush_loop_keeps [OF l assms(2)] show ?thesis
    by (cases r1) (auto simp: flush_connection_def bind_eq_Some_conv)
qed

end
