(* ===== verification/Util.thy ===== *)
theory Util
  imports Net
begin

text \<open>
  The helper constants, the hexadecimal printer and the optional timer of \<^verbatim>\<open>src/src/util.rs\<close>.
\<close>

section \<open>Definitions\<close>

definition RECV_BUF :: nat where
  "RECV_BUF = 65535"

definition CHANNEL_CAP :: nat where
  "CHANNEL_CAP = 1024"

text \<open>Whether \<^verbatim>\<open>sleep_opt\<close> is over when it has been waited for; without a timeout it never is.\<close>

definition sleep_opt :: "duration option \<Rightarrow> duration \<Rightarrow> bool" where
  "sleep_opt timeout waited = (case timeout of Some d \<Rightarrow> d \<le> waited | None \<Rightarrow> False)"

definition hex_digit :: "nat \<Rightarrow> char" where
  "hex_digit n = (if n < 10 then char_of (48 + n) else char_of (87 + n))"

fun hex :: "bytes \<Rightarrow> string" where
  "hex [] = []"
| "hex (b # bs) = hex_digit (unat b div 16) # hex_digit (unat b mod 16) # hex bs"

text \<open>The inverse of the printer.\<close>

definition hex_value :: "char \<Rightarrow> nat option" where
  "hex_value c =
     (let n = of_char c in
      if 48 \<le> n \<and> n \<le> 57 then Some (n - 48)
      else if 97 \<le> n \<and> n \<le> 102 then Some (n - 87) else None)"

fun unhex :: "string \<Rightarrow> bytes option" where
  "unhex [] = Some []"
| "unhex [c] = None"
| "unhex (c # d # cs) =
     (case (hex_value c, hex_value d, unhex cs) of
        (Some x, Some y, Some bs) \<Rightarrow> Some (word_of_nat (16 * x + y) # bs)
      | _ \<Rightarrow> None)"

section \<open>Lemmas\<close>

lemma hex_value_digit: "n < 16 \<Longrightarrow> hex_value (hex_digit n) = Some n"
  by (simp add: hex_value_def hex_digit_def Let_def of_char_of)

lemma unat_u8_less: "unat (b :: u8) < 256"
  using unsigned_less [of b, where 'a = nat] by simp

lemma unhex_hex: "unhex (hex bs) = Some bs"
proof (induction bs)
  case (Cons b bs)
  have "unat b div 16 < 16" using unat_u8_less [of b] by simp
  then show ?case by (simp add: Cons hex_value_digit)
qed simp

lemma hex_inj: "hex a = hex b \<Longrightarrow> a = b"
  by (metis option.inject unhex_hex)

lemma length_hex: "length (hex bs) = 2 * length bs"
  by (induction bs) auto

lemma hex_digit_range: "n < 16 \<Longrightarrow> (of_char (hex_digit n) :: nat) \<in> {48..57} \<union> {97..102}"
  by (auto simp: hex_digit_def of_char_of)

lemma hex_chars: "c \<in> set (hex bs) \<Longrightarrow> (of_char c :: nat) \<in> {48..57} \<union> {97..102}"
proof (induction bs)
  case (Cons b bs)
  have "unat b div 16 < 16" using unat_u8_less [of b] by simp
  with Cons show ?case using hex_digit_range [of "unat b div 16"] hex_digit_range [of "unat b mod 16"]
    by auto
qed simp

end
