(* ===== verification/Target.thy ===== *)
theory Target
  imports Udp_Io Util
begin

text \<open>
  The target side of a flow, from \<^verbatim>\<open>src/src/server.rs\<close>: opening the socket that a rule asks for
  (\<^verbatim>\<open>bind_target\<close>, \<^verbatim>\<open>bind_target_transparent\<close>) and the task that relays between it and the server.
\<close>

section \<open>Opening the target socket\<close>

datatype target_error = Target_Os io_error | Families_Differ

text \<open>One call on a freshly opened socket; when it fails the socket is dropped, which closes it.\<close>

definition or_close :: "kernel \<Rightarrow> fd \<Rightarrow> syscall \<Rightarrow> (trace \<Rightarrow> (io_error + fd) \<times> trace) \<Rightarrow> trace \<Rightarrow> (io_error + fd) \<times> trace" where
  "or_close k fd s cont t =
     (case sys k s t of
        (Inl e, t) \<Rightarrow> (Inl (last_os_error e), snd (sys k (Close fd) t))
      | (Inr _, t) \<Rightarrow> cont t)"

text \<open>\<^verbatim>\<open>set_so_mark\<close>, when the rule has a mark; the mark is reinterpreted as a C \<^verbatim>\<open>int\<close>.\<close>

definition set_so_mark :: "kernel \<Rightarrow> fd \<Rightarrow> u32 option \<Rightarrow> (trace \<Rightarrow> (io_error + fd) \<times> trace) \<Rightarrow> trace \<Rightarrow> (io_error + fd) \<times> trace" where
  "set_so_mark k fd fwmark cont t =
     (case fwmark of
        None \<Rightarrow> cont t
      | Some mark \<Rightarrow> or_close k fd (Setsockopt fd SOL_SOCKET SO_MARK (sint mark)) cont t)"

definition make_transparent :: "kernel \<Rightarrow> bool \<Rightarrow> socket_addr \<Rightarrow> u32 option \<Rightarrow> socket_addr \<Rightarrow> trace \<Rightarrow> (io_error + fd) \<times> trace" where
  "make_transparent k is_v6 target fwmark src t =
     (case sys k (Socket_New is_v6) t of
        (Inl e, t) \<Rightarrow> (Inl (last_os_error e), t)
      | (Inr fd, t) \<Rightarrow>
          (let t = enlarge_udp_buffers k fd t;
               (level, optname) = (if is_v6 then (SOL_IPV6, IPV6_TRANSPARENT) else (SOL_IP, IP_TRANSPARENT)) in
           or_close k fd (Setsockopt fd level optname 1)
             (set_so_mark k fd fwmark
               (or_close k fd (Setsockopt fd SOL_SOCKET SO_REUSEADDR 1)
                 (or_close k fd (Bind fd src)
                   (or_close k fd (Connect fd target)
                     (or_close k fd (Set_Nonblocking fd)
                       (\<lambda>t. (Inr fd, t))))))) t))"

text \<open>\<^verbatim>\<open>UdpSocket::from_std\<close>: hand the socket to the runtime.\<close>

definition adopt :: "kernel \<Rightarrow> (io_error + fd) \<times> trace \<Rightarrow> (target_error + fd) \<times> trace" where
  "adopt k r =
     (case r of
        (Inl e, t) \<Rightarrow> (Inl (Target_Os e), t)
      | (Inr fd, t) \<Rightarrow> (case or_close k fd (From_Std fd) (\<lambda>t. (Inr fd, t)) t of (r, t) \<Rightarrow> (map_err Target_Os r, t)))"

definition bind_target_transparent :: "kernel \<Rightarrow> socket_addr \<Rightarrow> socket_addr \<Rightarrow> u32 option \<Rightarrow> trace \<Rightarrow>
    (target_error + fd) \<times> trace" where
  "bind_target_transparent k target client_addr fwmark t =
     (let src_ip = to_canonical (addr_ip client_addr) in
      if ip_is_ipv4 src_ip \<noteq> addr_is_ipv4 target then (Inl Families_Differ, t)
      else
        let is_v6 = (\<not> ip_is_ipv4 src_ip);
            exact = socket_addr_new src_ip (addr_port client_addr)
        in adopt k
          (case make_transparent k is_v6 target fwmark exact t of
             (Inl e, t) \<Rightarrow>
               if err_kind e = AddrInUse
               then make_transparent k is_v6 target fwmark (socket_addr_new src_ip 0) t
               else (Inl e, t)
           | (Inr fd, t) \<Rightarrow> (Inr fd, t)))"

definition bind_target :: "kernel \<Rightarrow> socket_addr \<Rightarrow> socket_addr \<Rightarrow> bool \<Rightarrow> u32 option \<Rightarrow> trace \<Rightarrow>
    (target_error + fd) \<times> trace" where
  "bind_target k target client_addr transparent fwmark t =
     (if transparent then bind_target_transparent k target client_addr fwmark t
      else
        case sys k (Udp_Bind (if addr_is_ipv4 target then any_v4 else any_v6)) t of
          (Inl e, t) \<Rightarrow> (Inl (Target_Os (last_os_error e)), t)
        | (Inr fd, t) \<Rightarrow>
            adopt k
              (set_so_mark k fd fwmark
                (or_close k fd (Connect fd target)
                  (or_close k fd (Set_Nonblocking fd)
                    (\<lambda>t. (Inr fd, t)))) (enlarge_udp_buffers k fd t)))"

section \<open>The relay task\<close>

type_synonym scid = bytes

record to_client =
  tc_conn_id :: scid
  tc_flow_id :: u64
  tc_payload :: bytes

text \<open>The channel back to the server: whether it takes a message, and whether it is closed, as a function of
  what this wake-up has already put into it.\<close>

type_synonym offer = "to_client list \<Rightarrow> bool \<times> bool"

fun target_for :: "kernel \<Rightarrow> fd \<Rightarrow> scid \<Rightarrow> u64 \<Rightarrow> offer \<Rightarrow> nat \<Rightarrow> to_client list \<Rightarrow> trace \<Rightarrow>
    task_flow \<times> to_client list \<times> trace" where
  "target_for k fd conn_id flow_id offer 0 sent t = (Task_Continue, sent, t)"
| "target_for k fd conn_id flow_id offer (Suc i) sent t =
     (case recv_udp_connected k fd RECV_BUF t of
        (Inr buf, t) \<Rightarrow>
          (let tc = \<lparr>tc_conn_id = conn_id, tc_flow_id = flow_id, tc_payload = buf\<rparr> in
           case offer sent of
             (True, _) \<Rightarrow> target_for k fd conn_id flow_id offer i (sent @ [tc]) t
           | (False, closed) \<Rightarrow>
               if closed then (Task_Return, sent, t) else target_for k fd conn_id flow_id offer i sent t)
      | (Inl e, t) \<Rightarrow>
          if err_kind e = WouldBlock then (Task_Continue, sent, t)
          else if err_kind e = Interrupted then target_for k fd conn_id flow_id offer i sent t
          else (Task_Return, sent, t))"

datatype target_wake = From_Client "bytes option" | Target_Readable

definition target_task_step :: "kernel \<Rightarrow> fd \<Rightarrow> scid \<Rightarrow> u64 \<Rightarrow> offer \<Rightarrow> target_wake \<Rightarrow> trace \<Rightarrow>
    (task_flow \<times> to_client list \<times> trace) option" where
  "target_task_step k fd conn_id flow_id offer wake t =
     (case wake of
        From_Client (Some payload) \<Rightarrow> do {
          (_, t) \<leftarrow> send_udp_connected k fd payload t;
          Some (Task_Continue, [], t)
        }
      | From_Client None \<Rightarrow> Some (Task_Return, [], t)
      | Target_Readable \<Rightarrow>
          (case sys k (Await_Readable fd) t of
             (Inl e, t) \<Rightarrow> Some (Task_Return, [], t)
           | (Inr _, t) \<Rightarrow> Some (target_for k fd conn_id flow_id offer RECV_BATCH [] t)))"

section \<open>The socket a flow gets\<close>

text \<open>The attributes a trace has given to a descriptor since it was opened.\<close>

record sock_attrs =
  sa_local :: "socket_addr option"
  sa_peer :: "socket_addr option"
  sa_mark :: "int option"
  sa_transparent :: bool
  sa_nonblocking :: bool

definition fresh_sock :: sock_attrs where
  "fresh_sock = \<lparr>sa_local = None, sa_peer = None, sa_mark = None, sa_transparent = False, sa_nonblocking = False\<rparr>"

fun sock_event :: "fd \<Rightarrow> event \<Rightarrow> sock_attrs \<Rightarrow> sock_attrs" where
  "sock_event fd (Call (Udp_Bind a) (Inr n)) s = (if n = fd then fresh_sock\<lparr>sa_local := Some a\<rparr> else s)"
| "sock_event fd (Call (Socket_New _) (Inr n)) s = (if n = fd then fresh_sock else s)"
| "sock_event fd (Call (Bind f a) (Inr _)) s = (if f = fd then s\<lparr>sa_local := Some a\<rparr> else s)"
| "sock_event fd (Call (Connect f a) (Inr _)) s = (if f = fd then s\<lparr>sa_peer := Some a\<rparr> else s)"
| "sock_event fd (Call (Set_Nonblocking f) (Inr _)) s = (if f = fd then s\<lparr>sa_nonblocking := True\<rparr> else s)"
| "sock_event fd (Call (Setsockopt f level optname v) (Inr _)) s =
     (if f \<noteq> fd then s
      else if level = SOL_SOCKET \<and> optname = SO_MARK then s\<lparr>sa_mark := Some v\<rparr>
      else if (level, optname) \<in> {(SOL_IP, IP_TRANSPARENT), (SOL_IPV6, IPV6_TRANSPARENT)} then s\<lparr>sa_transparent := (v = 1)\<rparr>
      else s)"
| "sock_event fd _ s = s"

definition sock_view :: "fd \<Rightarrow> trace \<Rightarrow> sock_attrs" where
  "sock_view fd t = fold (sock_event fd) t fresh_sock"

lemma sock_view_append [simp]: "sock_view fd (t @ u) = fold (sock_event fd) u (sock_view fd t)"
  by (simp add: sock_view_def)

lemmas sockopt_numbers = SOL_IP_def SOL_SOCKET_def SOL_UDP_def SOL_IPV6_def SO_SNDBUF_def SO_RCVBUF_def
  SO_REUSEADDR_def SO_MARK_def UDP_GRO_def IP_TRANSPARENT_def IPV6_TRANSPARENT_def

lemma sock_view_enlarge [simp]: "sock_view fd (enlarge_udp_buffers k fd' t) = sock_view fd t"
proof -
  have "sock_view fd (snd (set_sockopt_int k fd' SOL_SOCKET opt v t)) = sock_view fd t"
    if "opt = SO_RCVBUF \<or> opt = SO_SNDBUF" for opt v t
  proof -
    obtain r where "snd (set_sockopt_int k fd' SOL_SOCKET opt v t) = t @ [Call (Setsockopt fd' SOL_SOCKET opt v) r]"
      using set_sockopt_int_trace by blast
    with that show ?thesis by (cases r) (auto simp: sockopt_numbers)
  qed
  then show ?thesis by (simp add: enlarge_udp_buffers_def)
qed

lemma or_close_Inr:
  "or_close k fd s cont t = (Inr fd', t') \<longleftrightarrow> (\<exists>n. k_call k t s = Inr n \<and> cont (t @ [Call s (Inr n)]) = (Inr fd', t'))"
  by (cases "k_call k t s") (auto simp: or_close_def sys_eq)

lemma set_so_mark_Inr:
  "set_so_mark k fd mark cont t = (Inr fd', t') \<longleftrightarrow>
     (case mark of None \<Rightarrow> cont t = (Inr fd', t')
      | Some w \<Rightarrow> \<exists>n. cont (t @ [Call (Setsockopt fd SOL_SOCKET SO_MARK (sint w)) (Inr n)]) = (Inr fd', t')
          \<and> k_call k t (Setsockopt fd SOL_SOCKET SO_MARK (sint w)) = Inr n)"
  by (auto simp: set_so_mark_def or_close_Inr split: option.split)

lemma make_transparent_Inr:
  assumes "make_transparent k v6 target mark src t = (Inr fd, t')"
  shows "sock_view fd t' = \<lparr>sa_local = Some src, sa_peer = Some target, sa_mark = map_option sint mark,
     sa_transparent = True, sa_nonblocking = True\<rparr>"
proof -
  from assms obtain n where n: "k_call k t (Socket_New v6) = Inr n"
    by (cases "k_call k t (Socket_New v6)") (auto simp: make_transparent_def sys_eq)
  then have v: "sock_view n (enlarge_udp_buffers k n (t @ [Call (Socket_New v6) (Inr n)])) = fresh_sock"
    by simp
  from assms n have "fd = n"
    by (auto simp: make_transparent_def sys_eq or_close_Inr set_so_mark_Inr split: option.splits if_splits)
  with assms n v show ?thesis
    by (auto simp: make_transparent_def sys_eq or_close_Inr set_so_mark_Inr fresh_sock_def sockopt_numbers
        split: option.splits if_splits)
qed

lemma adopt_Inr:
  "adopt k r = (Inr fd, t') \<Longrightarrow> \<exists>t. r = (Inr fd, t) \<and> sock_view fd t' = sock_view fd t"
  by (cases r; cases "fst r") (auto simp: adopt_def or_close_Inr result_iffs split: prod.splits)

lemma bind_target_view:
  assumes "bind_target k target client_addr transparent fwmark t = (Inr fd, t')"
  shows "sock_view fd t' = \<lparr>sa_local = sa_local (sock_view fd t'), sa_peer = Some target, sa_mark = map_option sint fwmark,
       sa_transparent = transparent, sa_nonblocking = True\<rparr>
     \<and> (if transparent
        then ip_is_ipv4 (to_canonical (addr_ip client_addr)) = addr_is_ipv4 target
          \<and> sa_local (sock_view fd t') \<in> (\<lambda>port. Some (socket_addr_new (to_canonical (addr_ip client_addr)) port)) ` {addr_port client_addr, 0}
        else sa_local (sock_view fd t') = Some (if addr_is_ipv4 target then any_v4 else any_v6))"
proof (cases transparent)
  case True
  let ?mk = "make_transparent k (\<not> ip_is_ipv4 (to_canonical (addr_ip client_addr))) target fwmark"
  let ?src = "socket_addr_new (to_canonical (addr_ip client_addr))"
  from assms True obtain u u' port where "?mk (?src port) u = (Inr fd, u')" "port \<in> {addr_port client_addr, 0}"
    "sock_view fd t' = sock_view fd u'" "ip_is_ipv4 (to_canonical (addr_ip client_addr)) = addr_is_ipv4 target"
    by (fastforce simp: bind_target_def bind_target_transparent_def Let_def dest!: adopt_Inr split: if_splits sum.splits prod.splits)
  with True make_transparent_Inr [OF this(1)] show ?thesis by auto
next
  case False
  let ?b = "Udp_Bind (if addr_is_ipv4 target then any_v4 else any_v6)"
  from assms False obtain n where n: "k_call k t ?b = Inr n"
    by (cases "k_call k t ?b") (auto simp: bind_target_def sys_eq)
  let ?t = "enlarge_udp_buffers k n (t @ [Call ?b (Inr n)])"
  have v: "sock_view n ?t = fresh_sock\<lparr>sa_local := Some (if addr_is_ipv4 target then any_v4 else any_v6)\<rparr>"
    by simp
  from assms False n obtain u where u: "set_so_mark k n fwmark (or_close k n (Connect n target)
      (or_close k n (Set_Nonblocking n) (\<lambda>t. (Inr n, t)))) ?t = (Inr fd, u)" "sock_view fd t' = sock_view fd u"
    by (auto simp: bind_target_def sys_eq dest!: adopt_Inr)
  then have "fd = n" by (auto simp: set_so_mark_Inr or_close_Inr split: option.splits)
  with u v False show ?thesis
    by (auto simp: set_so_mark_Inr or_close_Inr fresh_sock_def sockopt_numbers simp del: sock_view_enlarge split: option.splits)
qed

text \<open>The socket a flow gets is pinned to what the rule says: it is connected to the rule's target and
  nothing else, carries the rule's mark, and for a transparent rule is bound to the client's own address
  (canonicalised, at its port or an ephemeral one), otherwise to the wildcard of the target's family.\<close>

theorem bind_target_attrs:
  assumes "bind_target k target client_addr transparent fwmark t = (Inr fd, t')"
  shows "sock_view fd t' = \<lparr>sa_local = sa_local (sock_view fd t'), sa_peer = Some target, sa_mark = map_option sint fwmark,
       sa_transparent = transparent, sa_nonblocking = True\<rparr>
     \<and> (if transparent
        then ip_is_ipv4 (to_canonical (addr_ip client_addr)) = addr_is_ipv4 target
          \<and> sa_local (sock_view fd t') \<in> (\<lambda>port. Some (socket_addr_new (to_canonical (addr_ip client_addr)) port)) ` {addr_port client_addr, 0}
        else sa_local (sock_view fd t') = Some (if addr_is_ipv4 target then any_v4 else any_v6))"
  using assms by (rule bind_target_view)

theorem bind_target_attrs_witness:
  "\<exists>t'. bind_target calm_kernel (SocketV4 0x0a000001 53) (SocketV6 0xffffc0000201 4433 0 0) True (Some 7) [] = (Inr 3, t')
     \<and> sa_peer (sock_view 3 t') = Some (SocketV4 0x0a000001 53) \<and> sa_mark (sock_view 3 t') = Some 7
     \<and> sa_transparent (sock_view 3 t')"
proof -
  have "\<exists>t'. bind_target calm_kernel (SocketV4 0x0a000001 53) (SocketV6 0xffffc0000201 4433 0 0) True (Some 7) [] = (Inr 3, t')"
    by (simp add: bind_target_def bind_target_transparent_def make_transparent_def adopt_def or_close_def set_so_mark_def
        sys_eq calm_kernel_def addr_is_ipv4_def drop_bit_eq_div enlarge_udp_buffers_def set_sockopt_int_def map_err_def Let_def)
  then obtain t' where b: "bind_target calm_kernel (SocketV4 0x0a000001 53) (SocketV6 0xffffc0000201 4433 0 0) True (Some 7) []
      = (Inr 3, t')" ..
  have "sint (7 :: u32) = 7" by simp
  with bind_target_attrs [OF b] b show ?thesis by (metis (no_types, lifting) option.simps(9) sock_attrs.select_convs(2,3,4))
qed

section \<open>No descriptor leaks\<close>

text \<open>The kernel hands out descriptors that are not in use.\<close>

definition fresh_fds :: "kernel \<Rightarrow> bool" where
  "fresh_fds k \<longleftrightarrow> (\<forall>t n a v6. (k_call k t (Udp_Bind a) = Inr n \<or> k_call k t (Socket_New v6) = Inr n) \<longrightarrow> n \<notin> open_fds t)"

text \<open>An operation leaves open what was open before, and on success the one socket it returns.\<close>

definition owns :: "fd set \<Rightarrow> ('e + fd) \<times> trace \<Rightarrow> bool" where
  "owns S r = (case r of (Inl _, t') \<Rightarrow> open_fds t' = S | (Inr fd, t') \<Rightarrow> open_fds t' = insert fd S \<and> fd \<notin> S)"

fun on_socket :: "syscall \<Rightarrow> bool" where
  "on_socket (Setsockopt _ _ _ _) = True"
| "on_socket (Bind _ _) = True"
| "on_socket (Connect _ _) = True"
| "on_socket (Set_Nonblocking _) = True"
| "on_socket (From_Std _) = True"
| "on_socket _ = False"

lemma open_on_socket: "on_socket s \<Longrightarrow> open_fds (t @ [Call s r]) = open_fds t"
  by (cases s) simp_all

lemma or_close_owns:
  assumes "on_socket s" and "fd \<notin> S" and "open_fds t = insert fd S"
    and "\<And>u. open_fds u = insert fd S \<Longrightarrow> owns S (cont u)"
  shows "owns S (or_close k fd s cont t)"
proof (cases "k_call k t s")
  case (Inl e)
  have "open_fds (t @ [Call s (Inl e), Call (Close fd) (k_call k (t @ [Call s (Inl e)]) (Close fd))]) = insert fd S - {fd}"
    using open_on_socket [OF assms(1), of t "Inl e"] assms(3)
      open_fds_snoc [of "t @ [Call s (Inl e)]" "Call (Close fd) (k_call k (t @ [Call s (Inl e)]) (Close fd))"]
    by simp
  with Inl assms(2) show ?thesis by (simp add: or_close_def sys_eq owns_def)
next
  case (Inr n)
  with assms open_on_socket [OF assms(1), of t "Inr n"] show ?thesis by (simp add: or_close_def sys_eq)
qed

lemma set_so_mark_owns:
  assumes "fd \<notin> S" and "open_fds t = insert fd S" and "\<And>u. open_fds u = insert fd S \<Longrightarrow> owns S (cont u)"
  shows "owns S (set_so_mark k fd mark cont t)"
  using assms by (cases mark) (auto simp: set_so_mark_def intro!: or_close_owns)

lemma owns_ok: "fd \<notin> S \<Longrightarrow> open_fds u = insert fd S \<Longrightarrow> owns S (Inr fd, u)"
  by (simp add: owns_def)

lemma make_transparent_owns:
  assumes "fresh_fds k"
  shows "owns (open_fds t) (make_transparent k v6 target mark src t)"
proof (cases "k_call k t (Socket_New v6)")
  case (Inl e)
  then show ?thesis by (simp add: make_transparent_def sys_eq owns_def)
next
  case (Inr n)
  with assms have "n \<notin> open_fds t" by (auto simp: fresh_fds_def)
  with Inr show ?thesis
    by (auto simp: make_transparent_def sys_eq Let_def intro!: or_close_owns set_so_mark_owns owns_ok)
qed

lemma adopt_owns: "owns S r \<Longrightarrow> owns S (adopt k r)"
proof -
  assume r: "owns S r"
  show ?thesis
  proof (cases r)
    case (Pair x t)
    show ?thesis
    proof (cases x)
      case (Inl e)
      with r Pair show ?thesis by (simp add: adopt_def owns_def)
    next
      case (Inr fd)
      with r Pair have "owns S (or_close k fd (From_Std fd) (\<lambda>t. (Inr fd, t)) t)"
        by (intro or_close_owns owns_ok) (auto simp: owns_def)
      with Inr Pair show ?thesis by (auto simp: adopt_def owns_def map_err_def split: sum.splits prod.splits)
    qed
  qed
qed

lemma bind_target_owned:
  assumes "fresh_fds k"
  shows "owns (open_fds t) (bind_target k target client_addr transparent fwmark t)"
proof (cases transparent)
  case True
  let ?src = "socket_addr_new (to_canonical (addr_ip client_addr))"
  let ?mk = "make_transparent k (\<not> ip_is_ipv4 (to_canonical (addr_ip client_addr))) target fwmark"
  note mk = make_transparent_owns [OF assms]
  obtain x u where u: "?mk (?src (addr_port client_addr)) t = (x, u)" by force
  have first: "owns (open_fds t) (x, u)" using mk u by metis
  have "owns (open_fds t) (case x of
      Inl e \<Rightarrow> if err_kind e = AddrInUse then ?mk (?src 0) u else (Inl e, u)
    | Inr fd \<Rightarrow> (Inr fd, u))"
  proof (cases x)
    case (Inl e)
    have "open_fds u = open_fds t" using first Inl by (simp add: owns_def)
    with Inl mk [of u] show ?thesis by (simp add: owns_def)
  next
    case (Inr fd)
    with first show ?thesis by simp
  qed
  from adopt_owns [OF this, of k] have "owns (open_fds t) (bind_target_transparent k target client_addr fwmark t)"
    unfolding bind_target_transparent_def Let_def u prod.case by (auto simp only: owns_def prod.case sum.case split: if_split)
  with True show ?thesis by (simp add: bind_target_def)
next
  case False
  let ?b = "Udp_Bind (if addr_is_ipv4 target then any_v4 else any_v6)"
  show ?thesis
  proof (cases "k_call k t ?b")
    case (Inl e)
    with False show ?thesis by (simp add: bind_target_def sys_eq owns_def)
  next
    case (Inr n)
    then have "n \<notin> open_fds t" using assms unfolding fresh_fds_def by blast
    with False Inr show ?thesis
      by (auto simp: bind_target_def sys_eq intro!: adopt_owns or_close_owns set_so_mark_owns owns_ok)
  qed
qed

text \<open>C16. Opening a target socket leaks no descriptor: a failure on any branch closes what it opened, and a
  success leaves exactly the returned socket open.\<close>

theorem bind_target_owns:
  assumes "fresh_fds k" and "bind_target k target client_addr transparent fwmark t = (r, t')"
  shows "case r of Inl _ \<Rightarrow> open_fds t' = open_fds t | Inr fd \<Rightarrow> open_fds t' = insert fd (open_fds t) \<and> fd \<notin> open_fds t"
  using bind_target_owned [OF assms(1), of t target client_addr transparent fwmark] assms(2)
  by (simp add: owns_def split: sum.splits)

text \<open>A machine that hands out the next unused descriptor and refuses to connect.\<close>

definition refusing_kernel :: kernel where
  "refusing_kernel = calm_kernel\<lparr>k_call := (\<lambda>t s. case s of
       Udp_Bind _ \<Rightarrow> Inr (1 + Max (insert 2 (open_fds t)))
     | Socket_New _ \<Rightarrow> Inr (1 + Max (insert 2 (open_fds t)))
     | Connect _ _ \<Rightarrow> Inl 101
     | _ \<Rightarrow> Inr 0)\<rparr>"

lemma finite_open_fds: "finite (open_fds t)"
proof (induction t rule: rev_induct)
  case (snoc e t)
  then show ?case by (cases "(e, open_fds t)" rule: open_event.cases) auto
qed (simp add: open_fds_def)

lemma fresh_refusing: "fresh_fds refusing_kernel"
proof -
  have "1 + Max (insert 2 (open_fds t)) \<notin> open_fds t" for t
    using Max_ge [of "insert 2 (open_fds t)"] finite_open_fds [of t] by fastforce
  then show ?thesis by (auto simp: fresh_fds_def refusing_kernel_def)
qed

theorem bind_target_owns_witness:
  "\<exists>t'. bind_target refusing_kernel (SocketV4 1 53) (SocketV4 2 4433) False None [] = (Inl (Target_Os (last_os_error 101)), t')
     \<and> open_fds t' = {}"
proof -
  obtain r t' where b: "bind_target refusing_kernel (SocketV4 1 53) (SocketV4 2 4433) False None [] = (r, t')" by force
  moreover have "fst (bind_target refusing_kernel (SocketV4 1 53) (SocketV4 2 4433) False None []) = Inl (Target_Os (last_os_error 101))"
    by (simp add: bind_target_def refusing_kernel_def sys_eq addr_is_ipv4_def adopt_def or_close_def set_so_mark_def)
  moreover have "open_fds [] = {}" by (simp add: open_fds_def)
  ultimately show ?thesis using bind_target_owns [OF fresh_refusing b] by auto
qed

section \<open>The relay keeps flows apart\<close>

text \<open>The payloads received on a descriptor, in order.\<close>

fun received_event :: "fd \<Rightarrow> event \<Rightarrow> bytes list" where
  "received_event fd (Recvmsg f _ (Inr msg)) = (if f = fd then [rc_data msg] else [])"
| "received_event fd _ = []"

definition received_on :: "fd \<Rightarrow> trace \<Rightarrow> bytes list" where
  "received_on fd t = concat (map (received_event fd) t)"

lemma received_on_append [simp]: "received_on fd (t @ u) = received_on fd t @ received_on fd u"
  by (simp add: received_on_def)

lemma recv_udp_connected_eq:
  "recv_udp_connected k fd n t =
     (case k_recvmsg k t fd n of Inl e \<Rightarrow> Inl (last_os_error e) | Inr msg \<Rightarrow> Inr (rc_data msg),
      t @ [Recvmsg fd n (k_recvmsg k t fd n)])"
  by (simp add: recv_udp_connected_def recvmsg_def Let_def split: sum.split)

abbreviation labelled :: "scid \<Rightarrow> u64 \<Rightarrow> bytes list \<Rightarrow> to_client list" where
  "labelled conn_id flow_id \<equiv> map (\<lambda>p. \<lparr>tc_conn_id = conn_id, tc_flow_id = flow_id, tc_payload = p\<rparr>)"

lemma target_for_relays:
  "target_for k fd conn_id flow_id offer i sent t = (fl, sent', t') \<Longrightarrow>
     \<exists>u ps. t' = t @ u \<and> sent' = sent @ labelled conn_id flow_id ps \<and> subseq ps (received_on fd u) \<and> wire u = []"
proof (induction i arbitrary: sent t)
  case 0
  then show ?case by (auto simp: received_on_def)
next
  case (Suc i)
  let ?e = "Recvmsg fd RECV_BUF (k_recvmsg k t fd RECV_BUF)"
  have step: ?case
    if rest: "target_for k fd conn_id flow_id offer i (sent @ labelled conn_id flow_id qs) (t @ [?e]) = (fl, sent', t')"
      and qs: "subseq qs (received_event fd ?e)" for qs
  proof -
    obtain u ps where "t' = (t @ [?e]) @ u" "sent' = (sent @ labelled conn_id flow_id qs) @ labelled conn_id flow_id ps"
      "subseq ps (received_on fd u)" "wire u = []"
      using Suc.IH [OF rest] by blast
    then show ?thesis using qs
      by (intro exI [of _ "?e # u"] exI [of _ "qs @ ps"]) (auto simp: received_on_def intro: list_emb_append_mono)
  qed
  have stop: ?case if "sent' = sent" "t' = t @ [?e]"
    using that by (intro exI [of _ "[?e]"] exI [of _ "[]"]) simp
  show ?case
  proof (cases "k_recvmsg k t fd RECV_BUF")
    case (Inl e)
    with Suc.prems step [of "[]"] stop show ?thesis
      by (auto simp: recv_udp_connected_eq split: if_splits)
  next
    case (Inr msg)
    obtain ok closed where off: "offer sent = (ok, closed)" by force
    show ?thesis
    proof (cases ok)
      case True
      with Suc.prems Inr off step [of "[rc_data msg]"] show ?thesis
        by (auto simp: recv_udp_connected_eq)
    next
      case False
      with Suc.prems Inr off step [of "[]"] stop show ?thesis
        by (auto simp: recv_udp_connected_eq split: if_splits)
    qed
  qed
qed

lemma send_udp_connected_post:
  "send_udp_connected k fd p t = Some y \<Longrightarrow>
     \<exists>u. snd y = t @ u \<and> received_on fd u = [] \<and> wire u \<in> {[], [(fd, None, p)]}
       \<and> (fst y = Inr () \<longrightarrow> wire u = [(fd, None, p)])"
proof (induction rule: send_udp_connected.raw_induct [rotated, consumes 1, case_names step])
  case (step f k fd p t y)
  let ?s = "Sendmsg fd None p None"
  let ?e = "Call ?s (k_call k t ?s)"
  have "snd (sendmsg_udp_connected k fd p t) = t @ [?e]"
    by (cases "k_call k t ?s") (simp_all add: sendmsg_udp_connected_def sys_eq)
  then obtain r where s: "sendmsg_udp_connected k fd p t = (r, t @ [?e])" by (metis prod.collapse)
  show ?case
  proof (cases "\<exists>e. r = Inl e \<and> err_kind e = WouldBlock")
    case True
    then have w: "wire_event ?e = []"
      using s by (cases "k_call k t ?s") (auto simp: sendmsg_udp_connected_def sys_eq split: if_splits)
    let ?a = "Call (Await_Writable fd) (k_call k (t @ [?e]) (Await_Writable fd))"
    show ?thesis
    proof (cases "k_call k (t @ [?e]) (Await_Writable fd)")
      case (Inl e')
      with True step.hyps s w show ?thesis
        by (intro exI [of _ "[?e, ?a]"]) (auto simp: sys_eq received_on_def)
    next
      case (Inr x)
      with True step.hyps s have "f k fd p (t @ [?e, ?a]) = Some y" by (auto simp: sys_eq)
      from step.IH [OF this] obtain u where "snd y = (t @ [?e, ?a]) @ u" "received_on fd u = []"
        "wire u \<in> {[], [(fd, None, p)]}" "fst y = Inr () \<longrightarrow> wire u = [(fd, None, p)]" by blast
      with w Inr show ?thesis by (intro exI [of _ "?e # ?a # u"]) (auto simp: received_on_def)
    qed
  next
    case False
    then have "y = (r, t @ [?e])" using step.hyps s by (cases r) auto
    then show ?thesis
      using s by (cases "k_call k t ?s"; intro exI [of _ "[?e]"])
        (auto simp: received_on_def gso_segments_def sendmsg_udp_connected_def sys_eq split: if_splits)
  qed
qed

lemma target_task_step_relays:
  assumes "target_task_step k fd conn_id flow_id offer wake t = Some (fl, out, t')"
  shows "\<exists>u. t' = t @ u
     \<and> (\<exists>ps. out = labelled conn_id flow_id ps \<and> subseq ps (received_on fd u))
     \<and> (case wake of
          From_Client (Some p) \<Rightarrow> fl = Task_Continue \<and> out = [] \<and> wire u \<in> {[], [(fd, None, p)]}
        | From_Client None \<Rightarrow> fl = Task_Return \<and> u = []
        | Target_Readable \<Rightarrow> wire u = [])"
proof (cases wake)
  case (From_Client m)
  show ?thesis
  proof (cases m)
    case None
    with From_Client assms show ?thesis by (simp add: target_task_step_def)
  next
    case (Some p)
    then obtain r where "send_udp_connected k fd p t = Some (r, t')" "fl = Task_Continue" "out = []"
      using From_Client assms by (auto simp: target_task_step_def bind_eq_Some_conv)
    with send_udp_connected_post [OF this(1)] From_Client Some show ?thesis by auto
  qed
next
  case Target_Readable
  let ?e = "Call (Await_Readable fd) (k_call k t (Await_Readable fd))"
  show ?thesis
  proof (cases "k_call k t (Await_Readable fd)")
    case (Inl e)
    with Target_Readable assms show ?thesis
      by (intro exI [of _ "[?e]"]) (simp add: target_task_step_def sys_eq)
  next
    case (Inr n)
    with Target_Readable assms have "target_for k fd conn_id flow_id offer RECV_BATCH [] (t @ [?e]) = (fl, out, t')"
      by (simp add: target_task_step_def sys_eq)
    from target_for_relays [OF this] obtain u ps where u: "t' = (t @ [?e]) @ u" "out = labelled conn_id flow_id ps"
      "subseq ps (received_on fd u)" "wire u = []" by auto
    with Inr Target_Readable show ?thesis
      by (intro exI [of _ "?e # u"]) (auto simp: received_on_def)
  qed
qed



end
