(* ===== verification/Server.thy ===== *)
theory Server
  imports Dgram Connect_Udp Target
begin

text \<open>
  The proxy server of \<^verbatim>\<open>src/src/server.rs\<close>: its connection table, the handlers of its main loop and one
  iteration of that loop.  QUIC and HTTP/3 are the parameter \<open>q\<close>, the machine is \<open>k\<close>, the capacity of a flow's
  channel is \<open>room\<close>, random connection identifiers are arguments, and so is the order in which a hash map is
  iterated.  \<^const>\<open>None\<close> stands for a panic or for not returning.
\<close>

section \<open>State\<close>

definition LOCAL_CONN_ID_LEN :: nat where
  "LOCAL_CONN_ID_LEN = 16"

definition FLOW_SWEEP_INTERVAL :: duration where
  "FLOW_SWEEP_INTERVAL = from_secs 1"

text \<open>A flow; its sender is named by the task that holds the receiving end.\<close>

record flow =
  to_target :: nat
  last_activity :: instant
  idle_timeout :: "duration option"

record ('c, 'h) client =
  c_conn :: 'c
  c_http3 :: "'h option"
  c_flows :: "u64 \<rightharpoonup> flow"
  c_peer :: socket_addr

text \<open>A spawned relay task: its socket, with the attributes it was opened with, its labels, and what waits in
  the channel that feeds it.\<close>

record relay =
  tk_fd :: fd
  tk_attrs :: sock_attrs
  tk_conn_id :: scid
  tk_flow_id :: u64
  tk_inbox :: "bytes list"
  tk_done :: bool

record world =
  w_trace :: trace
  w_tasks :: "relay list"

record ('c, 'h, 'g) server =
  s_socket :: fd
  s_local_addr :: socket_addr
  s_config :: 'g
  s_rules :: rule_table
  s_clients :: "scid \<rightharpoonup> ('c, 'h) client"
  s_routes :: "bytes \<rightharpoonup> scid"
  s_to_client :: "to_client list"
  s_world :: world

definition server_new :: "fd \<Rightarrow> socket_addr \<Rightarrow> 'g \<Rightarrow> rule_table \<Rightarrow> trace \<Rightarrow> ('c, 'h, 'g) server" where
  "server_new fd local_addr cfg tbl t =
     \<lparr>s_socket = fd, s_local_addr = local_addr, s_config = cfg, s_rules = tbl,
      s_clients = Map.empty, s_routes = Map.empty, s_to_client = [], s_world = \<lparr>w_trace = t, w_tasks = []\<rparr>\<rparr>"

section \<open>Requests\<close>

definition respond_status :: "('c, 'h, 'g) quiche \<Rightarrow> u64 \<Rightarrow> u16 \<Rightarrow> 'h \<Rightarrow> 'c \<Rightarrow> 'h \<times> 'c" where
  "respond_status q stream_id status h c = snd (h3_send_response q h c stream_id (status_headers status) True)"

definition spawn :: "relay \<Rightarrow> world \<Rightarrow> nat \<times> world" where
  "spawn task w = (length (w_tasks w), w\<lparr>w_tasks := w_tasks w @ [task]\<rparr>)"

type_synonym ('c, 'h) session = "'c \<times> 'h \<times> (u64 \<rightharpoonup> flow) \<times> world"

definition handle_connect_request :: "kernel \<Rightarrow> ('c, 'h, 'g) quiche \<Rightarrow> rule_table \<Rightarrow> socket_addr \<Rightarrow> scid \<Rightarrow>
    u64 \<Rightarrow> header list \<Rightarrow> ('c, 'h) session \<Rightarrow> ('c, 'h) session" where
  "handle_connect_request k q tbl client_addr conn_id stream_id headers st =
     (case st of (c, h, flows, w) \<Rightarrow>
      let flow_id = stream_id div 4;
          refuse = (\<lambda>status w. case respond_status q stream_id status h c of (h, c) \<Rightarrow> (c, h, flows, w)) in
      case connect_request_parse headers of
        Inl status \<Rightarrow> refuse status w
      | Inr req \<Rightarrow>
          (case match_target tbl (cr_authority req) (cr_path req) of
             None \<Rightarrow> refuse 404 w
           | Some rule \<Rightarrow>
               (case bind_target k (m_target rule) client_addr (m_transparent rule) (m_fwmark rule) (w_trace w) of
                  (Inl e, t) \<Rightarrow> refuse 502 (w\<lparr>w_trace := t\<rparr>)
                | (Inr fd, t) \<Rightarrow>
                    (case spawn \<lparr>tk_fd = fd, tk_attrs = sock_view fd t, tk_conn_id = conn_id, tk_flow_id = flow_id,
                                tk_inbox = [], tk_done = False\<rparr> (w\<lparr>w_trace := t\<rparr>) of (sender, w) \<Rightarrow>
                     case instant_now k (w_trace w) of (now, t) \<Rightarrow>
                     let w = w\<lparr>w_trace := t\<rparr>;
                         flows' = flows(flow_id \<mapsto> \<lparr>to_target = sender, last_activity = now,
                           idle_timeout = m_idle_timeout rule\<rparr>) in
                     case h3_send_response q h c stream_id accept_headers False of
                       (Inl e, h, c) \<Rightarrow> (c, h, flows'(flow_id := None), w)
                     | (Inr _, h, c) \<Rightarrow> (c, h, flows', w)))))"

section \<open>Client datagrams\<close>

text \<open>\<^verbatim>\<open>try_send\<close> into a flow's channel; a full or disconnected channel drops the payload.\<close>

definition try_send :: "(bytes list \<Rightarrow> bool) \<Rightarrow> nat \<Rightarrow> bytes \<Rightarrow> world \<Rightarrow> world" where
  "try_send room ch payload w =
     (if ch < length (w_tasks w) \<and> \<not> tk_done (w_tasks w ! ch) \<and> room (tk_inbox (w_tasks w ! ch))
      then w\<lparr>w_tasks := (w_tasks w)[ch := (w_tasks w ! ch)\<lparr>tk_inbox := tk_inbox (w_tasks w ! ch) @ [payload]\<rparr>]\<rparr>
      else w)"

definition deliver_datagram :: "(bytes list \<Rightarrow> bool) \<Rightarrow> instant \<Rightarrow> bytes \<Rightarrow> (u64 \<rightharpoonup> flow) \<times> world \<Rightarrow>
    (u64 \<rightharpoonup> flow) \<times> world" where
  "deliver_datagram room now d fw =
     (case fw of (flows, w) \<Rightarrow>
      case dgram_decode d of
        None \<Rightarrow> (flows, w)
      | Some p \<Rightarrow>
          if p_context_id p \<noteq> CONTEXT_ID_UDP then (flows, w)
          else (case flows (p_flow_id p) of
                  None \<Rightarrow> (flows, w)
                | Some fl \<Rightarrow>
                    (flows(p_flow_id p \<mapsto> fl\<lparr>last_activity := now\<rparr>),
                     try_send room (to_target fl) (p_payload p) w)))"

partial_function (option) drain_loop :: "('c, 'h, 'g) quiche \<Rightarrow> (bytes list \<Rightarrow> bool) \<Rightarrow> instant \<Rightarrow>
    'c \<Rightarrow> (u64 \<rightharpoonup> flow) \<times> world \<Rightarrow> ('c \<times> (u64 \<rightharpoonup> flow) \<times> world) option" where
  "drain_loop q room now c fw =
     (case q_dgram_recv q c MAX_DATAGRAM_SIZE of
        (Inr d, c) \<Rightarrow> drain_loop q room now c (deliver_datagram room now d fw)
      | (Inl e, c) \<Rightarrow> Some (c, fw))"

definition drain_client_datagrams :: "kernel \<Rightarrow> ('c, 'h, 'g) quiche \<Rightarrow> (bytes list \<Rightarrow> bool) \<Rightarrow> 'c \<Rightarrow>
    (u64 \<rightharpoonup> flow) \<Rightarrow> world \<Rightarrow> ('c \<times> (u64 \<rightharpoonup> flow) \<times> world) option" where
  "drain_client_datagrams k q room c flows w =
     (case instant_now k (w_trace w) of (now, t) \<Rightarrow> drain_loop q room now c (flows, w\<lparr>w_trace := t\<rparr>))"

section \<open>One connection\<close>

text \<open>Reading and discarding what a request stream carries.\<close>

partial_function (option) drain_body :: "('c, 'h, 'g) quiche \<Rightarrow> u64 \<Rightarrow> 'h \<Rightarrow> 'c \<Rightarrow> ('h \<times> 'c) option" where
  "drain_body q stream_id h c =
     (case h3_recv_body q h c stream_id 4096 of
        (Inr n, h, c) \<Rightarrow> if n = 0 then Some (h, c) else drain_body q stream_id h c
      | (Inl e, h, c) \<Rightarrow> Some (h, c))"

fun handle_event :: "kernel \<Rightarrow> ('c, 'h, 'g) quiche \<Rightarrow> rule_table \<Rightarrow> socket_addr \<Rightarrow> scid \<Rightarrow> u64 \<Rightarrow> h3_event \<Rightarrow>
    ('c, 'h) session \<Rightarrow> ('c, 'h) session option" where
  "handle_event k q tbl client_addr conn_id stream_id (Headers list) st =
     Some (handle_connect_request k q tbl client_addr conn_id stream_id list st)"
| "handle_event k q tbl client_addr conn_id stream_id Data (c, h, flows, w) =
     map_option (\<lambda>(h, c). (c, h, flows, w)) (drain_body q stream_id h c)"
| "handle_event k q tbl client_addr conn_id stream_id Finished (c, h, flows, w) =
     Some (c, h, flows(stream_id div 4 := None), w)"
| "handle_event k q tbl client_addr conn_id stream_id (Reset _) (c, h, flows, w) =
     Some (c, h, flows(stream_id div 4 := None), w)"
| "handle_event k q tbl client_addr conn_id stream_id H3_Other st = Some st"

partial_function (option) poll_loop :: "kernel \<Rightarrow> ('c, 'h, 'g) quiche \<Rightarrow> rule_table \<Rightarrow> socket_addr \<Rightarrow> scid \<Rightarrow>
    ('c, 'h) session \<Rightarrow> ('c, 'h) session option" where
  "poll_loop k q tbl client_addr conn_id st =
     (case st of (c, h, flows, w) \<Rightarrow>
      case h3_poll q h c of
        (Inl e, h, c) \<Rightarrow> Some (c, h, flows, w)
      | (Inr (stream_id, ev), h, c) \<Rightarrow> do {
          st \<leftarrow> handle_event k q tbl client_addr conn_id stream_id ev (c, h, flows, w);
          poll_loop k q tbl client_addr conn_id st
        })"

text \<open>The part of \<^verbatim>\<open>process_client\<close> after HTTP/3 is set up.\<close>

definition serve_session :: "kernel \<Rightarrow> ('c, 'h, 'g) quiche \<Rightarrow> (bytes list \<Rightarrow> bool) \<Rightarrow> rule_table \<Rightarrow> socket_addr \<Rightarrow> scid \<Rightarrow>
    ('c, 'h) session \<Rightarrow> ('c, 'h) session option" where
  "serve_session k q room tbl client_addr conn_id st = do {
     (c, h, flows, w) \<leftarrow> poll_loop k q tbl client_addr conn_id st;
     (c, flows, w) \<leftarrow> drain_client_datagrams k q room c flows w;
     Some (c, h, flows, w)
   }"

definition process_client :: "kernel \<Rightarrow> ('c, 'h, 'g) quiche \<Rightarrow> (bytes list \<Rightarrow> bool) \<Rightarrow> rule_table \<Rightarrow> scid \<Rightarrow>
    ('c, 'h) client \<Rightarrow> world \<Rightarrow> (('c, 'h) client \<times> world) option" where
  "process_client k q room tbl conn_id client w =
     (if \<not> (q_is_established q (c_conn client) \<or> q_is_in_early_data q (c_conn client)) then Some (client, w)
      else
        let client_addr = c_peer client in
        case (case c_http3 client of Some h \<Rightarrow> (Inr h, c_conn client) | None \<Rightarrow> h3_with_transport q (c_conn client)) of
          (Inl e, c) \<Rightarrow> Some (client\<lparr>c_conn := c\<rparr>, w)
        | (Inr h, c) \<Rightarrow> do {
            (c, h, flows, w) \<leftarrow> serve_session k q room tbl client_addr conn_id (c, h, c_flows client, w);
            Some (client\<lparr>c_conn := c, c_http3 := Some h, c_flows := flows\<rparr>, w)
          })"

section \<open>Packets\<close>

text \<open>Routing: by the server's own identifier, else by the client's original one.\<close>

definition route_packet :: "('c, 'h, 'g) server \<Rightarrow> bytes \<Rightarrow> scid option" where
  "route_packet s dcid =
     (if length dcid = LOCAL_CONN_ID_LEN \<and> s_clients s dcid \<noteq> None then Some dcid else s_routes s dcid)"

definition accept :: "('c, 'h, 'g) quiche \<Rightarrow> scid \<Rightarrow> bytes \<Rightarrow> socket_addr \<Rightarrow> ('c, 'h, 'g) server \<Rightarrow>
    (quic_error + scid) \<times> ('c, 'h, 'g) server" where
  "accept q scid_bytes original_dcid from s =
     (case q_accept q scid_bytes (s_local_addr s) from (s_config s) of
        Inl e \<Rightarrow> (Inl e, s)
      | Inr conn \<Rightarrow>
          (Inr scid_bytes,
           s\<lparr>s_clients := (s_clients s)(scid_bytes \<mapsto>
                \<lparr>c_conn = conn, c_http3 = None, c_flows = Map.empty, c_peer = from\<rparr>),
             s_routes := (s_routes s)(original_dcid \<mapsto> scid_bytes)\<rparr>))"

definition set_trace :: "trace \<Rightarrow> ('c, 'h, 'g) server \<Rightarrow> ('c, 'h, 'g) server" where
  "set_trace t s = s\<lparr>s_world := (s_world s)\<lparr>w_trace := t\<rparr>\<rparr>"

definition send_version_negotiation :: "kernel \<Rightarrow> ('c, 'h, 'g) quiche \<Rightarrow> packet_header \<Rightarrow> socket_addr \<Rightarrow>
    ('c, 'h, 'g) server \<Rightarrow> ('c, 'h, 'g) server option" where
  "send_version_negotiation k q hdr from s =
     (case q_negotiate_version q (hdr_scid hdr) (hdr_dcid hdr) MAX_DATAGRAM_SIZE of
        Inl e \<Rightarrow> Some s
      | Inr out \<Rightarrow> do {
          (_, t) \<leftarrow> send_udp k (s_socket s) out from (w_trace (s_world s));
          Some (set_trace t s)
        })"

text \<open>Handing a packet to its connection; a route without a connection is the panic of \<^verbatim>\<open>unwrap\<close>.\<close>

definition deliver_packet :: "kernel \<Rightarrow> ('c, 'h, 'g) quiche \<Rightarrow> (bytes list \<Rightarrow> bool) \<Rightarrow> scid \<Rightarrow> bytes \<Rightarrow> socket_addr \<Rightarrow>
    ('c, 'h, 'g) server \<Rightarrow> ('c, 'h, 'g) server option" where
  "deliver_packet k q room conn_key pkt from s = do {
     client \<leftarrow> s_clients s conn_key;
     let client = client\<lparr>c_peer := from\<rparr>;
     (case q_recv q (c_conn client) pkt (s_local_addr s) from of
        (Inl e, c) \<Rightarrow> Some (s\<lparr>s_clients := (s_clients s)(conn_key \<mapsto> client\<lparr>c_conn := c\<rparr>)\<rparr>)
      | (Inr _, c) \<Rightarrow> do {
          (client, w) \<leftarrow> process_client k q room (s_rules s) conn_key (client\<lparr>c_conn := c\<rparr>) (s_world s);
          Some (s\<lparr>s_clients := (s_clients s)(conn_key \<mapsto> client), s_world := w\<rparr>)
        })
   }"

definition on_packet :: "kernel \<Rightarrow> ('c, 'h, 'g) quiche \<Rightarrow> (bytes list \<Rightarrow> bool) \<Rightarrow> scid \<Rightarrow> bytes \<Rightarrow> socket_addr \<Rightarrow>
    ('c, 'h, 'g) server \<Rightarrow> ('c, 'h, 'g) server option" where
  "on_packet k q room fresh_scid pkt from s =
     (case q_header_from_slice q pkt LOCAL_CONN_ID_LEN of
        Inl e \<Rightarrow> Some s
      | Inr hdr \<Rightarrow>
          (case route_packet s (hdr_dcid hdr) of
             Some conn_key \<Rightarrow> deliver_packet k q room conn_key pkt from s
           | None \<Rightarrow>
               if hdr_ty hdr \<noteq> Initial then Some s
               else if \<not> q_version_is_supported q (hdr_version hdr) then send_version_negotiation k q hdr from s
               else (case accept q fresh_scid (hdr_dcid hdr) from s of
                       (Inl e, s) \<Rightarrow> Some s
                     | (Inr conn_key, s) \<Rightarrow> deliver_packet k q room conn_key pkt from s)))"

section \<open>Answers from targets, timers and the end of connections\<close>

definition on_target_payload :: "('c, 'h, 'g) quiche \<Rightarrow> to_client \<Rightarrow> instant \<Rightarrow> ('c, 'h, 'g) server \<Rightarrow> ('c, 'h, 'g) server" where
  "on_target_payload q tc now s =
     (case s_clients s (tc_conn_id tc) of
        None \<Rightarrow> s
      | Some client \<Rightarrow>
          let c = snd (q_dgram_send q (c_conn client) (dgram_encode (tc_flow_id tc) (tc_payload tc)));
              flows = (case c_flows client (tc_flow_id tc) of
                         None \<Rightarrow> c_flows client
                       | Some fl \<Rightarrow> (c_flows client)(tc_flow_id tc \<mapsto> fl\<lparr>last_activity := now\<rparr>))
          in s\<lparr>s_clients := (s_clients s)(tc_conn_id tc \<mapsto> client\<lparr>c_conn := c, c_flows := flows\<rparr>)\<rparr>)"

definition min_timeout :: "('c, 'h, 'g) quiche \<Rightarrow> scid list \<Rightarrow> ('c, 'h, 'g) server \<Rightarrow> duration option" where
  "min_timeout q order s =
     (case List.map_filter (\<lambda>cid. Option.bind (s_clients s cid) (\<lambda>client. q_timeout q (c_conn client))) order of
        [] \<Rightarrow> None
      | d # ds \<Rightarrow> Some (fold min ds d))"

definition on_timeout_all :: "('c, 'h, 'g) quiche \<Rightarrow> ('c, 'h, 'g) server \<Rightarrow> ('c, 'h, 'g) server" where
  "on_timeout_all q s =
     s\<lparr>s_clients := (\<lambda>cid. map_option (\<lambda>client. client\<lparr>c_conn := q_on_timeout q (c_conn client)\<rparr>) (s_clients s cid))\<rparr>"

text \<open>Flushing every connection, in the order the map is iterated; a failed flush does not stop the others.\<close>

fun flush_all :: "kernel \<Rightarrow> ('c, 'h, 'g) quiche \<Rightarrow> scid list \<Rightarrow> ('c, 'h, 'g) server \<Rightarrow> ('c, 'h, 'g) server option" where
  "flush_all k q [] s = Some s"
| "flush_all k q (cid # cids) s =
     (case s_clients s cid of
        None \<Rightarrow> flush_all k q cids s
      | Some client \<Rightarrow> do {
          (_, c, t) \<leftarrow> flush_connection k q (s_socket s) (c_conn client) (w_trace (s_world s));
          flush_all k q cids (set_trace t (s\<lparr>s_clients := (s_clients s)(cid \<mapsto> client\<lparr>c_conn := c\<rparr>)\<rparr>))
        })"

definition closed_client :: "('c, 'h, 'g) quiche \<Rightarrow> ('c, 'h, 'g) server \<Rightarrow> scid \<Rightarrow> bool" where
  "closed_client q s cid =
     (case s_clients s cid of None \<Rightarrow> False | Some client \<Rightarrow> q_is_closed q (c_conn client))"

definition reap_closed :: "('c, 'h, 'g) quiche \<Rightarrow> ('c, 'h, 'g) server \<Rightarrow> ('c, 'h, 'g) server" where
  "reap_closed q s =
     s\<lparr>s_clients := (\<lambda>cid. if closed_client q s cid then None else s_clients s cid),
       s_routes := (\<lambda>dcid. case s_routes s dcid of
          None \<Rightarrow> None | Some scid \<Rightarrow> if closed_client q s scid then None else Some scid)\<rparr>"

definition flow_expired :: "instant \<Rightarrow> flow \<Rightarrow> bool" where
  "flow_expired now fl =
     (case idle_timeout fl of None \<Rightarrow> False | Some d \<Rightarrow> d \<le> duration_since now (last_activity fl))"

fun close_flows :: "('c, 'h, 'g) quiche \<Rightarrow> u64 list \<Rightarrow> ('c, 'h) client \<Rightarrow> ('c, 'h) client" where
  "close_flows q [] client = client"
| "close_flows q (flow_id # rest) client =
     (let flows = (c_flows client)(flow_id := None);
          stream_id = flow_id * 4;
          c = snd (q_stream_shutdown q (c_conn client) stream_id Shutdown_Write 0x100);
          c = snd (q_stream_shutdown q c stream_id Shutdown_Read 0x100)
      in close_flows q rest (client\<lparr>c_conn := c, c_flows := flows\<rparr>))"

definition sweep_client :: "('c, 'h, 'g) quiche \<Rightarrow> instant \<Rightarrow> u64 list \<Rightarrow> ('c, 'h) client \<Rightarrow> ('c, 'h) client" where
  "sweep_client q now order client =
     (let expired = filter (\<lambda>fid. case c_flows client fid of None \<Rightarrow> False | Some fl \<Rightarrow> flow_expired now fl) order
      in close_flows q expired client)"

definition sweep_idle_flows :: "kernel \<Rightarrow> ('c, 'h, 'g) quiche \<Rightarrow> (scid \<Rightarrow> u64 list) \<Rightarrow> ('c, 'h, 'g) server \<Rightarrow> ('c, 'h, 'g) server" where
  "sweep_idle_flows k q flow_order s =
     (case instant_now k (w_trace (s_world s)) of (now, t) \<Rightarrow>
      set_trace t (s\<lparr>s_clients := (\<lambda>cid. map_option (sweep_client q now (flow_order cid)) (s_clients s cid))\<rparr>))"

section \<open>One iteration of the main loop\<close>

text \<open>Which arm of \<^verbatim>\<open>select!\<close> fired, with what it delivers: a burst of packets, each with the identifier drawn
  should it open a connection; the queued answers of targets; a connection timer; the sweep timer.\<close>

datatype arm =
    Packets "(scid \<times> bytes \<times> socket_addr) list"
  | Target_Payloads
  | Conn_Timeout
  | Sweep "scid \<Rightarrow> u64 list"

fun on_packets :: "kernel \<Rightarrow> ('c, 'h, 'g) quiche \<Rightarrow> (bytes list \<Rightarrow> bool) \<Rightarrow> (scid \<times> bytes \<times> socket_addr) list \<Rightarrow>
    ('c, 'h, 'g) server \<Rightarrow> ('c, 'h, 'g) server option" where
  "on_packets k q room [] s = Some s"
| "on_packets k q room ((fresh_scid, pkt, from) # rest) s = do {
     s \<leftarrow> on_packet k q room fresh_scid pkt from s;
     on_packets k q room rest s
   }"

fun select_arm :: "kernel \<Rightarrow> ('c, 'h, 'g) quiche \<Rightarrow> (bytes list \<Rightarrow> bool) \<Rightarrow> arm \<Rightarrow> ('c, 'h, 'g) server \<Rightarrow>
    ('c, 'h, 'g) server option" where
  "select_arm k q room (Packets pkts) s = on_packets k q room pkts s"
| "select_arm k q room Target_Payloads s =
     (case instant_now k (w_trace (s_world s)) of (now, t) \<Rightarrow>
      Some ((fold (\<lambda>tc. on_target_payload q tc now) (s_to_client s) (set_trace t s))\<lparr>s_to_client := []\<rparr>))"
| "select_arm k q room Conn_Timeout s = Some (on_timeout_all q s)"
| "select_arm k q room (Sweep flow_order) s = Some (sweep_idle_flows k q flow_order s)"

definition run_iteration :: "kernel \<Rightarrow> ('c, 'h, 'g) quiche \<Rightarrow> (bytes list \<Rightarrow> bool) \<Rightarrow> scid list \<Rightarrow> arm \<Rightarrow>
    ('c, 'h, 'g) server \<Rightarrow> ('c, 'h, 'g) server option" where
  "run_iteration k q room order a s = do {
     s \<leftarrow> select_arm k q room a s;
     s \<leftarrow> flush_all k q order s;
     Some (reap_closed q s)
   }"

end
