(* ===== verification/Server_Flows.thy ===== *)
theory Server_Flows
  imports Server
begin

text \<open>
  Properties of the server's handlers on one connection: how a CONNECT request is decided, that flows and
  relay tasks stay paired, and that every relay is pinned to the target of a rule.
\<close>

section \<open>CONNECT requests\<close>

text \<open>A relay that carries out a rule for a client.\<close>

definition pinned :: "rule_match \<Rightarrow> socket_addr \<Rightarrow> sock_attrs \<Rightarrow> bool" where
  "pinned m client_addr a \<longleftrightarrow>
     sa_peer a = Some (m_target m) \<and> sa_mark a = map_option sint (m_fwmark m) \<and> sa_transparent a = m_transparent m
     \<and> (m_transparent m \<longrightarrow> (\<exists>port. sa_local a = Some (socket_addr_new (to_canonical (addr_ip client_addr)) port)))"

lemma bind_target_pinned:
  assumes "bind_target k (m_target m) client_addr (m_transparent m) (m_fwmark m) t = (Inr fd, t')"
  shows "pinned m client_addr (sock_view fd t')"
proof -
  note view = bind_target_view [OF assms]
  then have "sa_peer (sock_view fd t') = Some (m_target m) \<and> sa_mark (sock_view fd t') = map_option sint (m_fwmark m)
      \<and> sa_transparent (sock_view fd t') = m_transparent m"
    by (metis (no_types, lifting) sock_attrs.select_convs(2,3,4))
  with view show ?thesis by (auto simp: pinned_def)
qed

text \<open>The three ways a request ends: refused with a status, accepted, or accepted with the 200 lost.\<close>

definition refusal :: "kernel \<Rightarrow> rule_table \<Rightarrow> socket_addr \<Rightarrow> header list \<Rightarrow> trace \<Rightarrow> u16 option" where
  "refusal k tbl client_addr headers t =
     (case connect_request_parse headers of
        Inl status \<Rightarrow> Some status
      | Inr req \<Rightarrow>
          (case match_target tbl (cr_authority req) (cr_path req) of
             None \<Rightarrow> Some 404
           | Some m \<Rightarrow>
               (case fst (bind_target k (m_target m) client_addr (m_transparent m) (m_fwmark m) t) of
                  Inl _ \<Rightarrow> Some 502 | Inr _ \<Rightarrow> None)))"

lemma handle_connect_refused:
  assumes "refusal k tbl client_addr headers (w_trace w) = Some status"
  shows "\<exists>t. handle_connect_request k q tbl client_addr conn_id stream_id headers (c, h, flows, w) =
     (case h3_send_response q h c stream_id (status_headers status) True of
        (_, h, c) \<Rightarrow> (c, h, flows, w\<lparr>w_trace := t\<rparr>))"
  using assms
  by (auto simp: refusal_def handle_connect_request_def respond_status_def Let_def
      split: sum.splits option.splits prod.splits intro: exI [of _ "w_trace w"])

lemma handle_connect_accepted:
  assumes "refusal k tbl client_addr headers (w_trace w) = None"
    and "handle_connect_request k q tbl client_addr conn_id stream_id headers (c, h, flows, w) = (c', h', flows', w')"
  shows "\<exists>req m task now.
     connect_request_parse headers = Inr req \<and> match_target tbl (cr_authority req) (cr_path req) = Some m
     \<and> w_tasks w' = w_tasks w @ [task] \<and> pinned m client_addr (tk_attrs task)
     \<and> tk_conn_id task = conn_id \<and> tk_flow_id task = stream_id div 4 \<and> tk_inbox task = [] \<and> \<not> tk_done task
     \<and> (h', c') = snd (h3_send_response q h c stream_id accept_headers False)
     \<and> flows' = flows(stream_id div 4 :=
          (case fst (h3_send_response q h c stream_id accept_headers False) of
             Inl _ \<Rightarrow> None
           | Inr _ \<Rightarrow> Some \<lparr>to_target = length (w_tasks w), last_activity = now, idle_timeout = m_idle_timeout m\<rparr>))"
proof -
  from assms(1) obtain req m fd t where *: "connect_request_parse headers = Inr req"
    "match_target tbl (cr_authority req) (cr_path req) = Some m"
    "bind_target k (m_target m) client_addr (m_transparent m) (m_fwmark m) (w_trace w) = (Inr fd, t)"
    by (auto simp: refusal_def split: sum.splits option.splits) (metis prod.collapse)
  from bind_target_pinned [OF *(3)] * assms(2) show ?thesis
    by (cases "h3_send_response q h c stream_id accept_headers False"; cases "fst (h3_send_response q h c stream_id accept_headers False)")
      (auto simp: handle_connect_request_def spawn_def instant_now_def Let_def)
qed

section \<open>Flows and relays stay paired\<close>

text \<open>The part of a relay that never changes after it was spawned.\<close>

definition same_relay :: "relay \<Rightarrow> relay \<Rightarrow> bool" where
  "same_relay a b \<longleftrightarrow> tk_fd b = tk_fd a \<and> tk_attrs b = tk_attrs a \<and> tk_conn_id b = tk_conn_id a \<and> tk_flow_id b = tk_flow_id a"

text \<open>A later world: relays are added at the end and keep their identity.\<close>

definition grows :: "world \<Rightarrow> world \<Rightarrow> bool" where
  "grows w w' \<longleftrightarrow> length (w_tasks w) \<le> length (w_tasks w')
     \<and> (\<forall>i < length (w_tasks w). same_relay (w_tasks w ! i) (w_tasks w' ! i))"

lemma same_relay_refl [simp]: "same_relay a a"
  by (simp add: same_relay_def)

lemma grows_refl [simp]: "grows w w" "grows w (w\<lparr>w_trace := t\<rparr>)"
  by (simp_all add: grows_def)

lemma grows_trans: "grows w w1 \<Longrightarrow> grows w1 w2 \<Longrightarrow> grows w w2"
  by (fastforce simp: grows_def same_relay_def)

lemma grows_trace [simp]: "grows w (w'\<lparr>w_trace := t\<rparr>) = grows w w'" "grows (w\<lparr>w_trace := t\<rparr>) w' = grows w w'"
  by (simp_all add: grows_def)

lemma grows_append: "w_tasks w' = w_tasks w @ ts \<Longrightarrow> grows w w'"
  by (simp add: grows_def nth_append)

lemma grows_try_send [simp]: "grows w (try_send room ch p w)"
  by (auto simp: grows_def try_send_def same_relay_def nth_list_update)

text \<open>Every flow of a connection feeds the relay that was spawned for it, and its identifier is that of a
  stream, so that multiplying it by four cannot overflow.\<close>

definition flow_paired :: "scid \<Rightarrow> world \<Rightarrow> u64 \<Rightarrow> flow \<Rightarrow> bool" where
  "flow_paired cid w fid fl \<longleftrightarrow>
     to_target fl < length (w_tasks w) \<and> tk_conn_id (w_tasks w ! to_target fl) = cid
     \<and> tk_flow_id (w_tasks w ! to_target fl) = fid \<and> unat fid < 2 ^ 62"

definition flows_paired :: "scid \<Rightarrow> world \<Rightarrow> (u64 \<rightharpoonup> flow) \<Rightarrow> bool" where
  "flows_paired cid w flows \<longleftrightarrow> (\<forall>fid fl. flows fid = Some fl \<longrightarrow> flow_paired cid w fid fl)"

lemma flow_paired_grows: "grows w w' \<Longrightarrow> flow_paired cid w fid fl \<Longrightarrow> flow_paired cid w' fid fl"
  by (fastforce simp: grows_def flow_paired_def same_relay_def)

lemma flows_paired_grows: "grows w w' \<Longrightarrow> flows_paired cid w flows \<Longrightarrow> flows_paired cid w' flows"
  by (auto simp: flows_paired_def intro: flow_paired_grows)

lemma flows_paired_empty [simp]: "flows_paired cid w Map.empty"
  by (simp add: flows_paired_def)

lemma flows_paired_remove: "flows_paired cid w flows \<Longrightarrow> flows_paired cid w (flows(fid := None))"
  by (simp add: flows_paired_def)

lemma flows_paired_touch:
  "flows_paired cid w flows \<Longrightarrow> flows fid = Some fl \<Longrightarrow> flows_paired cid w (flows(fid \<mapsto> fl\<lparr>last_activity := now\<rparr>))"
  by (auto simp: flows_paired_def flow_paired_def)

text \<open>Every relay is pinned to a rule of a given set, and labelled with a flow identifier that can be framed.\<close>

definition relays_pinned :: "rule set \<Rightarrow> world \<Rightarrow> bool" where
  "relays_pinned R w \<longleftrightarrow> (\<forall>task \<in> set (w_tasks w). varint_range (tk_flow_id task)
     \<and> (\<exists>r \<in> R. \<exists>client_addr. pinned (rule_decision r) client_addr (tk_attrs task)))"

lemma relays_pinned_trace [simp]: "relays_pinned R (w\<lparr>w_trace := t\<rparr>) = relays_pinned R w"
  by (simp add: relays_pinned_def)

lemma relays_pinned_try_send: "relays_pinned R w \<Longrightarrow> relays_pinned R (try_send room ch p w)"
  by (auto simp: relays_pinned_def try_send_def dest!: set_update_subset_insert [THEN subsetD])

lemma match_target_rule: "match_target tbl a p = Some m \<Longrightarrow> \<exists>r \<in> set (rules tbl). m = rule_decision r"
  by (auto simp: match_target_def find_Some_iff)

lemma stream_flow_id: "unat ((stream_id :: u64) div 4) < 2 ^ 62"
  using unsigned_less [of stream_id, where 'a = nat] by (simp add: unat_div)

text \<open>The relays of other connections are as they were.\<close>

definition others_kept :: "scid \<Rightarrow> world \<Rightarrow> world \<Rightarrow> bool" where
  "others_kept cid w w' \<longleftrightarrow>
     (\<forall>i < length (w_tasks w). tk_conn_id (w_tasks w ! i) \<noteq> cid \<longrightarrow> w_tasks w' ! i = w_tasks w ! i)"

lemma others_kept_refl [simp]: "others_kept cid w w"
  by (simp add: others_kept_def)

lemma others_kept_trace [simp]:
  "others_kept cid w (w'\<lparr>w_trace := t\<rparr>) = others_kept cid w w'" "others_kept cid (w\<lparr>w_trace := t\<rparr>) w' = others_kept cid w w'"
  by (simp_all add: others_kept_def)

lemma others_kept_trans: "grows w w1 \<Longrightarrow> others_kept cid w w1 \<Longrightarrow> others_kept cid w1 w2 \<Longrightarrow> others_kept cid w w2"
  by (simp add: others_kept_def grows_def same_relay_def)

text \<open>What one step on a connection may do to its flows and to the world.\<close>

definition session_step :: "rule set \<Rightarrow> scid \<Rightarrow> (u64 \<rightharpoonup> flow) \<times> world \<Rightarrow> (u64 \<rightharpoonup> flow) \<times> world \<Rightarrow> bool" where
  "session_step R cid fw fw' =
     (case (fw, fw') of ((flows, w), (flows', w')) \<Rightarrow>
        grows w w' \<and> (flows_paired cid w flows \<longrightarrow> flows_paired cid w' flows' \<and> others_kept cid w w')
        \<and> (relays_pinned R w \<longrightarrow> relays_pinned R w'))"

lemma session_step_refl [simp]: "session_step R cid fw fw"
  by (simp add: session_step_def split: prod.split)

lemma session_step_trans: "session_step R cid x y \<Longrightarrow> session_step R cid y z \<Longrightarrow> session_step R cid x z"
  by (auto simp: session_step_def intro: grows_trans others_kept_trans)

lemma session_step_trace [simp]:
  "session_step R cid fw (flows', w'\<lparr>w_trace := t\<rparr>) = session_step R cid fw (flows', w')"
  "session_step R cid (flows, w\<lparr>w_trace := t\<rparr>) fw' = session_step R cid (flows, w) fw'"
  by (simp_all add: session_step_def flows_paired_def flow_paired_def split: prod.split)

lemma handle_connect_request_step:
  assumes "handle_connect_request k q tbl client_addr cid sid headers (c, h, flows, w) = (c', h', flows', w')"
    and "set (rules tbl) \<subseteq> R"
  shows "session_step R cid (flows, w) (flows', w')"
proof (cases "refusal k tbl client_addr headers (w_trace w)")
  case None
  obtain req m task now where "connect_request_parse headers = Inr req"
    and a: "match_target tbl (cr_authority req) (cr_path req) = Some m"
    "w_tasks w' = w_tasks w @ [task]" "pinned m client_addr (tk_attrs task)"
    "tk_conn_id task = cid" "tk_flow_id task = sid div 4"
    and f: "flows' = flows(sid div 4 := (case fst (h3_send_response q h c sid accept_headers False) of
             Inl _ \<Rightarrow> None
           | Inr _ \<Rightarrow> Some \<lparr>to_target = length (w_tasks w), last_activity = now, idle_timeout = m_idle_timeout m\<rparr>))"
    using handle_connect_accepted [OF None assms(1)] by (elim exE conjE) (rule that)
  have g: "grows w w'" using a(2) by (rule grows_append)
  moreover have "flows_paired cid w' flows'" if "flows_paired cid w flows"
  proof -
    have "flow_paired cid w' (sid div 4) \<lparr>to_target = length (w_tasks w), last_activity = now, idle_timeout = m_idle_timeout m\<rparr>"
      using a(2,4,5) stream_flow_id [of sid] by (simp add: flow_paired_def del: unat_div)
    with flows_paired_grows [OF g that] f show ?thesis
      by (simp add: flows_paired_def split: sum.split)
  qed
  moreover have "relays_pinned R w'" if "relays_pinned R w"
    using that a(2,3,5) match_target_rule [OF a(1)] assms(2) varint_range_flow [of sid] by (auto simp: relays_pinned_def)
  moreover have "others_kept cid w w'" using a(2) by (simp add: others_kept_def nth_append)
  ultimately show ?thesis by (simp add: session_step_def)
next
  case (Some status)
  from handle_connect_refused [OF Some, of q cid sid c h flows] assms(1) show ?thesis
    by (cases "h3_send_response q h c sid (status_headers status) True") auto
qed

lemma handle_event_step:
  assumes "handle_event k q tbl client_addr cid sid ev (c, h, flows, w) = Some (c', h', flows', w')"
    and "set (rules tbl) \<subseteq> R"
  shows "session_step R cid (flows, w) (flows', w')"
proof (cases ev)
  case (Headers hs)
  with assms show ?thesis by (auto intro: handle_connect_request_step)
qed (use assms in \<open>auto simp: session_step_def flows_paired_remove\<close>)

lemma poll_loop_step:
  "poll_loop k q tbl client_addr cid st = Some st' \<Longrightarrow> set (rules tbl) \<subseteq> R \<Longrightarrow>
     session_step R cid (snd (snd st)) (snd (snd st'))"
proof (induction rule: poll_loop.raw_induct [rotated, consumes 1, case_names step])
  case (step f k q tbl client_addr cid st st')
  obtain c h flows w where st: "st = (c, h, flows, w)" by (cases st)
  obtain r h1 c1 where p: "h3_poll q h c = (r, h1, c1)" by (metis prod_cases3)
  show ?case
  proof (cases r)
    case (Inl e)
    with step.hyps st p show ?thesis by auto
  next
    case (Inr e)
    obtain sid ev where e: "e = (sid, ev)" by force
    then obtain st1 where st1: "handle_event k q tbl client_addr cid sid ev (c1, h1, flows, w) = Some st1"
      "f k q tbl client_addr cid st1 = Some st'"
      using step.hyps st p Inr by (auto simp: bind_eq_Some_conv)
    obtain c2 h2 flows2 w2 where "st1 = (c2, h2, flows2, w2)" by (cases st1)
    with st1(1) handle_event_step [OF _ step.prems] have "session_step R cid (flows, w) (snd (snd st1))" by fastforce
    from session_step_trans [OF this step.IH [OF st1(2) step.prems]] st show ?thesis by simp
  qed
qed

lemma deliver_datagram_step:
  "session_step R cid fw (deliver_datagram room now d fw)"
proof (cases fw)
  case (Pair flows w)
  show ?thesis
  proof (cases "\<exists>p fl. dgram_decode d = Some p \<and> p_context_id p = CONTEXT_ID_UDP \<and> flows (p_flow_id p) = Some fl")
    case True
    then obtain p fl where p: "dgram_decode d = Some p" "p_context_id p = CONTEXT_ID_UDP" "flows (p_flow_id p) = Some fl" by blast
    have "flows_paired cid (try_send room (to_target fl) (p_payload p) w) (flows(p_flow_id p \<mapsto> fl\<lparr>last_activity := now\<rparr>))"
      if "flows_paired cid w flows"
      using flows_paired_grows [OF grows_try_send flows_paired_touch [OF that p(3)]] .
    moreover have "others_kept cid w (try_send room (to_target fl) (p_payload p) w)" if "flows_paired cid w flows"
      using that p(3) by (auto simp: others_kept_def try_send_def flows_paired_def flow_paired_def nth_list_update)
    ultimately show ?thesis
      using p Pair by (simp add: deliver_datagram_def session_step_def relays_pinned_try_send)
  next
    case False
    then have "deliver_datagram room now d fw = fw"
      using Pair by (cases "dgram_decode d") (auto simp: deliver_datagram_def split: option.split)
    then show ?thesis by simp
  qed
qed

lemma drain_loop_step:
  "drain_loop q room now c fw = Some y \<Longrightarrow> session_step R cid fw (snd y)"
proof (induction rule: drain_loop.raw_induct [rotated, consumes 1, case_names step])
  case (step f q room now c fw y)
  obtain r c1 where d: "q_dgram_recv q c MAX_DATAGRAM_SIZE = (r, c1)" by force
  show ?case
  proof (cases r)
    case (Inl e)
    with step.hyps d show ?thesis by auto
  next
    case (Inr b)
    with step.hyps d have "f q room now c1 (deliver_datagram room now b fw) = Some y" by simp
    from step.IH [OF this] deliver_datagram_step show ?thesis by (rule session_step_trans [rotated])
  qed
qed

lemma serve_session_step:
  assumes "serve_session k q room tbl client_addr cid st = Some st'" and R: "set (rules tbl) \<subseteq> R"
  shows "session_step R cid (snd (snd st)) (snd (snd st'))"
proof -
  from assms(1) obtain c h flows w where p: "poll_loop k q tbl client_addr cid st = Some (c, h, flows, w)"
    by (auto simp: serve_session_def bind_eq_Some_conv)
  with assms(1) obtain c' flows' w' where d: "drain_client_datagrams k q room c flows w = Some (c', flows', w')"
    and st': "st' = (c', h, flows', w')"
    by (auto simp: serve_session_def bind_eq_Some_conv)
  from d obtain now t where "drain_loop q room now c (flows, w\<lparr>w_trace := t\<rparr>) = Some (c', flows', w')"
    by (auto simp: drain_client_datagrams_def split: prod.splits)
  from drain_loop_step [OF this, of R cid] poll_loop_step [OF p R] st' show ?thesis
    by (auto intro: session_step_trans)
qed

section \<open>How requests end\<close>

text \<open>C15. A refused CONNECT request is answered once, with the status that says why (405, 501 or 400 from the
  request line, 404 without a matching rule, 502 when the target socket cannot be opened) and the end of
  the stream, and changes no flow, spawns no relay and leaves no descriptor open.\<close>

theorem connect_request_refused:
  assumes "refusal k tbl client_addr headers (w_trace w) = Some status" and "fresh_fds k"
    and "handle_connect_request k q tbl client_addr conn_id stream_id headers (c, h, flows, w) = (c', h', flows', w')"
  shows "(h', c') = snd (h3_send_response q h c stream_id (status_headers status) True)
     \<and> flows' = flows \<and> w_tasks w' = w_tasks w \<and> open_fds (w_trace w') = open_fds (w_trace w)
     \<and> status \<in> {405, 501, 400, 404, 502}"
proof -
  have st: "status \<in> {405, 501, 400, 404, 502}"
    using assms(1) by (auto simp: refusal_def connect_request_parse_def Let_def and_then_def ok_or_def
        split: sum.splits option.splits if_splits)
  have "open_fds (w_trace w') = open_fds (w_trace w)"
  proof (cases "\<exists>req m e t. connect_request_parse headers = Inr req \<and> match_target tbl (cr_authority req) (cr_path req) = Some m
      \<and> bind_target k (m_target m) client_addr (m_transparent m) (m_fwmark m) (w_trace w) = (Inl e, t)")
    case True
    then obtain req m e t where *: "connect_request_parse headers = Inr req"
      "match_target tbl (cr_authority req) (cr_path req) = Some m"
      "bind_target k (m_target m) client_addr (m_transparent m) (m_fwmark m) (w_trace w) = (Inl e, t)" by blast
    then have "open_fds t = open_fds (w_trace w)"
      using bind_target_owned [OF assms(2), of "w_trace w" "m_target m" client_addr "m_transparent m" "m_fwmark m"]
      by (simp add: owns_def)
    with * assms(3) show ?thesis
      by (auto simp: handle_connect_request_def Let_def split: prod.splits)
  next
    case False
    with assms(1,3) have "w' = w"
      by (auto simp: refusal_def handle_connect_request_def Let_def split: sum.splits option.splits prod.splits)
    then show ?thesis by simp
  qed
  with handle_connect_refused [OF assms(1), of q conn_id stream_id c h flows] assms(3) st show ?thesis
    by (cases "h3_send_response q h c stream_id (status_headers status) True") auto
qed

theorem connect_request_refused_witness:
  "\<exists>c' h' w'. handle_connect_request refusing_kernel (scripted idle_script) \<lparr>rules = [dns_rule]\<rparr> (SocketV4 9 9) [] 0
        (connect_headers ''a.b:443'' ''/p'') (idle_script, 0, Map.empty, \<lparr>w_trace = [], w_tasks = []\<rparr>)
      = (c', h', Map.empty, w') \<and> w_tasks w' = [] \<and> open_fds (w_trace w') = {}"
proof -
  have m: "match_target \<lparr>rules = [dns_rule]\<rparr> ''a.b:443'' ''/p'' = Some (rule_decision dns_rule)"
    by (simp add: match_target_def rule_applies_def endpoint_matches_def dns_rule_def)
  have p: "connect_request_parse (connect_headers ''a.b:443'' ''/p'') = Inr \<lparr>cr_authority = ''a.b:443'', cr_path = ''/p''\<rparr>"
    by (simp add: connect_request_parse_def connect_headers_def header_new_def from_utf8_def utf8_valid_as_bytes)
  have "fst (bind_target refusing_kernel (SocketV4 1 53) (SocketV4 9 9) False None []) = Inl (Target_Os (last_os_error 101))"
    by (simp add: bind_target_def refusing_kernel_def sys_eq addr_is_ipv4_def adopt_def or_close_def set_so_mark_def)
  with m p have "refusal refusing_kernel \<lparr>rules = [dns_rule]\<rparr> (SocketV4 9 9) (connect_headers ''a.b:443'' ''/p'') [] = Some 502"
    by (simp add: refusal_def rule_decision_def dns_rule_def)
  then have r: "refusal refusing_kernel \<lparr>rules = [dns_rule]\<rparr> (SocketV4 9 9) (connect_headers ''a.b:443'' ''/p'')
      (w_trace \<lparr>w_trace = [], w_tasks = []\<rparr>) = Some 502" by simp
  obtain c' h' flows' w' where e: "handle_connect_request refusing_kernel (scripted idle_script) \<lparr>rules = [dns_rule]\<rparr> (SocketV4 9 9) [] 0
        (connect_headers ''a.b:443'' ''/p'') (idle_script, 0, Map.empty, \<lparr>w_trace = [], w_tasks = []\<rparr>) = (c', h', flows', w')"
    by (metis prod_cases4)
  from connect_request_refused [OF r fresh_refusing e] e show ?thesis by (auto simp: open_fds_def)
qed

text \<open>C4. A client never selects a destination: a relay exists only for a request that parsed, and its socket is
  connected to the target of the first rule, in table order, with the request's authority and path; it carries
  that rule's mark, and spoofs an address only for a transparent rule, and then the client's own.\<close>

theorem connect_request_pinned:
  assumes "handle_connect_request k q tbl client_addr conn_id stream_id headers (c, h, flows, w) = (c', h', flows', w')"
    and "w_tasks w' \<noteq> w_tasks w"
  shows "\<exists>req pre r post task. connect_request_parse headers = Inr req
     \<and> rules tbl = pre @ r # post \<and> rule_applies (cr_authority req) (cr_path req) r
     \<and> (\<forall>r' \<in> set pre. \<not> rule_applies (cr_authority req) (cr_path req) r')
     \<and> w_tasks w' = w_tasks w @ [task] \<and> tk_conn_id task = conn_id \<and> tk_flow_id task = stream_id div 4
     \<and> sa_peer (tk_attrs task) = Some (r_target r) \<and> sa_mark (tk_attrs task) = map_option sint (r_fwmark r)
     \<and> sa_transparent (tk_attrs task) = r_transparent r
     \<and> (r_transparent r \<longrightarrow> (\<exists>port. sa_local (tk_attrs task) = Some (socket_addr_new (to_canonical (addr_ip client_addr)) port)))"
proof -
  have "refusal k tbl client_addr headers (w_trace w) = None"
  proof (rule ccontr)
    assume "\<not> ?thesis"
    then obtain status where "refusal k tbl client_addr headers (w_trace w) = Some status" by blast
    from handle_connect_refused [OF this, of q conn_id stream_id c h flows] assms show False
      by (cases "h3_send_response q h c stream_id (status_headers status) True") auto
  qed
  from handle_connect_accepted [OF this assms(1)] obtain req m task where
    a: "connect_request_parse headers = Inr req" "match_target tbl (cr_authority req) (cr_path req) = Some m"
    "w_tasks w' = w_tasks w @ [task]" "pinned m client_addr (tk_attrs task)"
    "tk_conn_id task = conn_id" "tk_flow_id task = stream_id div 4"
    by (elim exE conjE) (rule that)
  from a(2) obtain pre r post where "rules tbl = pre @ r # post" "rule_applies (cr_authority req) (cr_path req) r"
    "m = rule_decision r" "\<forall>r' \<in> set pre. \<not> rule_applies (cr_authority req) (cr_path req) r'"
    by (auto simp: match_target_def find_Some_split)
  with a show ?thesis
    by (intro exI [of _ req] exI [of _ pre] exI [of _ r] exI [of _ post] exI [of _ task])
      (simp add: pinned_def rule_decision_def)
qed

theorem connect_request_pinned_witness:
  "\<exists>c' h' flows' w' task. handle_connect_request calm_kernel (scripted idle_script) \<lparr>rules = [dns_rule]\<rparr> (SocketV4 9 9) [7] 8
        (connect_headers ''a.b:443'' ''/p'') (idle_script, 0, Map.empty, \<lparr>w_trace = [], w_tasks = []\<rparr>)
      = (c', h', flows', w') \<and> w_tasks w' = [task] \<and> sa_peer (tk_attrs task) = Some (SocketV4 1 53) \<and> tk_flow_id task = 2"
proof -
  have m: "match_target \<lparr>rules = [dns_rule]\<rparr> ''a.b:443'' ''/p'' = Some (rule_decision dns_rule)"
    by (simp add: match_target_def rule_applies_def endpoint_matches_def dns_rule_def)
  have p: "connect_request_parse (connect_headers ''a.b:443'' ''/p'') = Inr \<lparr>cr_authority = ''a.b:443'', cr_path = ''/p''\<rparr>"
    by (simp add: connect_request_parse_def connect_headers_def header_new_def from_utf8_def utf8_valid_as_bytes)
  obtain c' h' flows' w' where e: "handle_connect_request calm_kernel (scripted idle_script) \<lparr>rules = [dns_rule]\<rparr> (SocketV4 9 9) [7] 8
        (connect_headers ''a.b:443'' ''/p'') (idle_script, 0, Map.empty, \<lparr>w_trace = [], w_tasks = []\<rparr>) = (c', h', flows', w')"
    by (metis prod_cases4)
  have "\<exists>fd. fst (bind_target calm_kernel (SocketV4 1 53) (SocketV4 9 9) False None []) = Inr fd"
    by (simp add: bind_target_def calm_kernel_def sys_eq addr_is_ipv4_def adopt_def or_close_def set_so_mark_def map_err_def)
  then have "refusal calm_kernel \<lparr>rules = [dns_rule]\<rparr> (SocketV4 9 9) (connect_headers ''a.b:443'' ''/p'') [] = None"
    using m p by (auto simp: refusal_def rule_decision_def dns_rule_def)
  then have "refusal calm_kernel \<lparr>rules = [dns_rule]\<rparr> (SocketV4 9 9) (connect_headers ''a.b:443'' ''/p'')
      (w_trace \<lparr>w_trace = [], w_tasks = []\<rparr>) = None" by simp
  from handle_connect_accepted [OF this e] have "w_tasks w' \<noteq> w_tasks \<lparr>w_trace = [], w_tasks = []\<rparr>" by auto
  from connect_request_pinned [OF e this] obtain pre r post task where
    "[dns_rule] = pre @ r # post" "w_tasks w' = [task]" "tk_flow_id task = 8 div 4" "sa_peer (tk_attrs task) = Some (r_target r)"
    by auto
  moreover from this(1) have "r = dns_rule" by (cases pre) auto
  ultimately show ?thesis using e by (auto simp: dns_rule_def)
qed

section \<open>Client datagrams\<close>

text \<open>A datagram from a client reaches at most the relay of its own connection and flow, as the payload it
  carries: every other relay's queue is unchanged, whatever bytes the client sends.\<close>

theorem client_datagram_isolated:
  assumes "flows_paired cid w flows" and "deliver_datagram room now d (flows, w) = (flows', w')" and "i < length (w_tasks w)"
  shows "tk_inbox (w_tasks w' ! i) = tk_inbox (w_tasks w ! i)
     \<or> (\<exists>p. dgram_decode d = Some p \<and> p_context_id p = CONTEXT_ID_UDP
          \<and> tk_conn_id (w_tasks w ! i) = cid \<and> tk_flow_id (w_tasks w ! i) = p_flow_id p
          \<and> tk_inbox (w_tasks w' ! i) = tk_inbox (w_tasks w ! i) @ [p_payload p])"
proof (cases "dgram_decode d")
  case (Some p)
  show ?thesis
  proof (cases "p_context_id p = CONTEXT_ID_UDP \<and> flows (p_flow_id p) \<noteq> None")
    case True
    then obtain fl where fl: "flows (p_flow_id p) = Some fl" by blast
    then have pr: "flow_paired cid w (p_flow_id p) fl" using assms(1) by (simp add: flows_paired_def)
    have "w' = try_send room (to_target fl) (p_payload p) w"
      using assms(2) Some True fl by (simp add: deliver_datagram_def)
    with pr Some True assms(3) show ?thesis
      by (cases "i = to_target fl") (auto simp: try_send_def flow_paired_def)
  next
    case False
    with assms(2) Some show ?thesis by (auto simp: deliver_datagram_def split: if_splits option.splits)
  qed
qed (use assms(2) in \<open>simp add: deliver_datagram_def\<close>)

definition sample_relay :: relay where
  "sample_relay = \<lparr>tk_fd = 3, tk_attrs = fresh_sock, tk_conn_id = [7], tk_flow_id = 2, tk_inbox = [], tk_done = False\<rparr>"

theorem client_datagram_isolated_witness:
  "\<exists>flows' w'. deliver_datagram (\<lambda>_. True) 5 (dgram_encode 2 [1, 2])
        ([2 \<mapsto> \<lparr>to_target = 0, last_activity = 0, idle_timeout = None\<rparr>], \<lparr>w_trace = [], w_tasks = [sample_relay]\<rparr>) = (flows', w')
     \<and> (tk_inbox (w_tasks w' ! 0) = [] \<or> tk_inbox (w_tasks w' ! 0) = [[1, 2]])"
proof -
  let ?w = "\<lparr>w_trace = [], w_tasks = [sample_relay]\<rparr>"
  let ?f = "[2 \<mapsto> \<lparr>to_target = 0, last_activity = 0, idle_timeout = None\<rparr>] :: u64 \<rightharpoonup> flow"
  have paired: "flows_paired [7] ?w ?f"
    by (auto simp: flows_paired_def flow_paired_def sample_relay_def split: if_splits)
  obtain flows' w' where d: "deliver_datagram (\<lambda>_. True) 5 (dgram_encode 2 [1, 2]) (?f, ?w) = (flows', w')" by force
  have "dgram_decode (dgram_encode 2 [1, 2]) = Some \<lparr>p_flow_id = 2, p_context_id = CONTEXT_ID_UDP, p_payload = [1, 2]\<rparr>"
    by code_simp
  with client_datagram_isolated [OF paired d, of 0] d show ?thesis by (auto simp: sample_relay_def)
qed

section \<open>Idle flows\<close>

lemma close_flows_fields [simp]:
  "c_http3 (close_flows q fids client) = c_http3 client" "c_peer (close_flows q fids client) = c_peer client"
  "c_flows (close_flows q fids client) = c_flows client |` (- set fids)"
  by (induction fids arbitrary: client) (auto simp: Let_def restrict_map_def)

lemma sweep_client_flows:
  assumes "set order = dom (c_flows client)"
  shows "c_flows (sweep_client q now order client) fid =
     (case c_flows client fid of None \<Rightarrow> None | Some fl \<Rightarrow> if flow_expired now fl then None else Some fl)"
  using assms by (auto simp: sweep_client_def restrict_map_def split: option.split)

lemma sweep_client_fields [simp]:
  "c_http3 (sweep_client q now order client) = c_http3 client" "c_peer (sweep_client q now order client) = c_peer client"
  by (simp_all add: sweep_client_def)

lemma flow_id_times_4: "flow_paired cid w fid fl \<Longrightarrow> unat (fid * 4) = 4 * unat fid"
  by (simp add: flow_paired_def unat_word_ariths)



section \<open>Termination of the handlers\<close>

text \<open>What the loops rely on: \<^verbatim>\<open>quiche\<close> has finitely many events, body bytes and datagrams queued, taking one makes
  them fewer and answering a request makes no new ones.\<close>

definition drains :: "('c, 'h, 'g) quiche \<Rightarrow> ('h \<Rightarrow> 'c \<Rightarrow> nat) \<Rightarrow> ('h \<Rightarrow> 'c \<Rightarrow> u64 \<Rightarrow> nat) \<Rightarrow> ('c \<Rightarrow> nat) \<Rightarrow> bool" where
  "drains q evs body dgrams \<longleftrightarrow>
     (\<forall>h c x h' c'. h3_poll q h c = (Inr x, h', c') \<longrightarrow> evs h' c' < evs h c)
     \<and> (\<forall>h c sid hs fin r h' c'. h3_send_response q h c sid hs fin = (r, h', c') \<longrightarrow> evs h' c' \<le> evs h c)
     \<and> (\<forall>h c sid n r h' c'. h3_recv_body q h c sid n = (r, h', c') \<longrightarrow> evs h' c' \<le> evs h c
          \<and> (\<forall>m. r = Inr m \<and> m \<noteq> 0 \<longrightarrow> body h' c' sid < body h c sid))
     \<and> (\<forall>c n d c'. q_dgram_recv q c n = (Inr d, c') \<longrightarrow> dgrams c' < dgrams c)"

lemma drain_body_total:
  assumes "drains q evs body dgrams"
  shows "\<exists>h' c'. drain_body q sid h c = Some (h', c') \<and> evs h' c' \<le> evs h c"
proof (induction "body h c sid" arbitrary: h c rule: less_induct)
  case less
  obtain r h1 c1 where r: "h3_recv_body q h c sid 4096 = (r, h1, c1)" by (metis prod_cases3)
  with assms have e: "evs h1 c1 \<le> evs h c" "\<And>m. r = Inr m \<Longrightarrow> m \<noteq> 0 \<Longrightarrow> body h1 c1 sid < body h c sid"
    unfolding drains_def by blast+
  show ?case
  proof (cases "\<exists>m. r = Inr m \<and> m \<noteq> 0")
    case True
    with less [of h1 c1] e obtain h' c' where "drain_body q sid h1 c1 = Some (h', c')" "evs h' c' \<le> evs h1 c1" by blast
    with True r e show ?thesis by (subst drain_body.simps) auto
  next
    case False
    with r e show ?thesis by (subst drain_body.simps, cases r) auto
  qed
qed

lemma handle_connect_request_evs:
  assumes "drains q evs body dgrams"
    and "handle_connect_request k q tbl client_addr cid sid hs (c, h, flows, w) = (c', h', flows', w')"
  shows "evs h' c' \<le> evs h c"
proof -
  have resp: "evs (fst (snd (h3_send_response q h c sid hs' fin))) (snd (snd (h3_send_response q h c sid hs' fin))) \<le> evs h c"
    for hs' fin
    using assms(1) unfolding drains_def by (metis prod.collapse)
  show ?thesis
  proof (cases "refusal k tbl client_addr hs (w_trace w)")
    case None
    from handle_connect_accepted [OF None assms(2)] resp [of accept_headers False] show ?thesis
      by (metis fst_conv snd_conv)
  next
    case (Some status)
    from handle_connect_refused [OF Some, of q cid sid c h flows] assms(2) resp [of "status_headers status" True] show ?thesis
      by (cases "h3_send_response q h c sid (status_headers status) True") auto
  qed
qed

lemma handle_event_total:
  assumes "drains q evs body dgrams"
  shows "\<exists>c' h' flows' w'. handle_event k q tbl client_addr cid sid ev (c, h, flows, w) = Some (c', h', flows', w')
     \<and> evs h' c' \<le> evs h c"
proof (cases ev)
  case (Headers hs)
  obtain c' h' flows' w' where "handle_connect_request k q tbl client_addr cid sid hs (c, h, flows, w) = (c', h', flows', w')"
    by (metis prod_cases4)
  with Headers handle_connect_request_evs [OF assms this] show ?thesis by auto
next
  case Data
  with drain_body_total [OF assms, of sid h c] show ?thesis by auto
qed auto

lemma drains_poll: "drains q evs body dgrams \<Longrightarrow> h3_poll q h c = (Inr x, h', c') \<Longrightarrow> evs h' c' < evs h c"
  unfolding drains_def by metis

lemma drains_dgram: "drains q evs body dgrams \<Longrightarrow> q_dgram_recv q c n = (Inr d, c') \<Longrightarrow> dgrams c' < dgrams c"
  unfolding drains_def by blast

lemma poll_loop_total:
  assumes "drains q evs body dgrams"
  shows "\<exists>st'. poll_loop k q tbl client_addr cid (c, h, flows, w) = Some st'"
proof (induction "evs h c" arbitrary: c h flows w rule: less_induct)
  case less
  obtain r h1 c1 where p: "h3_poll q h c = (r, h1, c1)" by (metis prod_cases3)
  show ?case
  proof (cases r)
    case (Inl e)
    with p show ?thesis by (subst poll_loop.simps) simp
  next
    case (Inr e)
    obtain sid ev where e: "e = (sid, ev)" by force
    have "evs h1 c1 < evs h c" using drains_poll [OF assms] p Inr by simp
    moreover obtain c2 h2 flows2 w2 where
      he: "handle_event k q tbl client_addr cid sid ev (c1, h1, flows, w) = Some (c2, h2, flows2, w2)" "evs h2 c2 \<le> evs h1 c1"
      using handle_event_total [OF assms] by blast
    ultimately obtain st' where "poll_loop k q tbl client_addr cid (c2, h2, flows2, w2) = Some st'"
      using less [of h2 c2 flows2 w2] by auto
    with p Inr e he(1) show ?thesis by (subst poll_loop.simps) (cases st', simp)
  qed
qed

lemma drain_loop_total:
  assumes "drains q evs body dgrams"
  shows "\<exists>c' fw'. drain_loop q room now c fw = Some (c', fw')"
proof (induction "dgrams c" arbitrary: c fw rule: less_induct)
  case less
  obtain r c1 where d: "q_dgram_recv q c MAX_DATAGRAM_SIZE = (r, c1)" by force
  show ?case
  proof (cases r)
    case (Inl e)
    with d show ?thesis by (subst drain_loop.simps) simp
  next
    case (Inr b)
    then have "dgrams c1 < dgrams c" using drains_dgram [OF assms] d by simp
    from less [OF this] d Inr show ?thesis by (subst drain_loop.simps) simp
  qed
qed

lemma process_client_total:
  assumes "drains q evs body dgrams"
  shows "\<exists>client' w'. process_client k q room tbl cid client w = Some (client', w')"
proof -
  have serve: "\<exists>c' h' flows' w'. serve_session k q room tbl addr cid (c, h, flows, w) = Some (c', h', flows', w')"
    for addr c h flows w
  proof -
    obtain st where st: "poll_loop k q tbl addr cid (c, h, flows, w) = Some st"
      using poll_loop_total [OF assms] by blast
    obtain c1 h1 flows1 w1 where st1: "st = (c1, h1, flows1, w1)" by (cases st)
    obtain now t where "instant_now k (w_trace w1) = (now, t)" by force
    then obtain c2 flows2 w2 where "drain_client_datagrams k q room c1 flows1 w1 = Some (c2, flows2, w2)"
      using drain_loop_total [OF assms, of room now c1 "(flows1, w1\<lparr>w_trace := t\<rparr>)"]
      by (auto simp: drain_client_datagrams_def)
    with st st1 show ?thesis by (simp add: serve_session_def)
  qed
  show ?thesis
  proof (cases "case c_http3 client of Some h \<Rightarrow> (Inr h, c_conn client) | None \<Rightarrow> h3_with_transport q (c_conn client)")
    case (Pair r c)
    show ?thesis
    proof (cases r)
      case (Inl e)
      with Pair show ?thesis by (simp add: process_client_def)
    next
      case (Inr h)
      with Pair serve [of "c_peer client" c h "c_flows client" w] show ?thesis by (auto simp: process_client_def)
    qed
  qed
qed

lemma process_client_step:
  assumes "process_client k q room tbl cid client w = Some (client', w')"
  shows "set (rules tbl) \<subseteq> R \<Longrightarrow> session_step R cid (c_flows client, w) (c_flows client', w')"
    and "c_http3 client = None \<longrightarrow> c_flows client = Map.empty \<Longrightarrow> c_http3 client' = None \<longrightarrow> c_flows client' = Map.empty"
proof -
  let ?r = "case c_http3 client of Some h \<Rightarrow> (Inr h, c_conn client) | None \<Rightarrow> h3_with_transport q (c_conn client)"
  consider "client' = client" "w' = w"
    | c where "client' = client\<lparr>c_conn := c\<rparr>" "w' = w"
    | c h c' h' where "serve_session k q room tbl (c_peer client) cid (c, h, c_flows client, w) = Some (c', h', c_flows client', w')"
        "c_http3 client' = Some h'"
    using assms
    by (cases ?r; cases "fst ?r") (auto simp: process_client_def bind_eq_Some_conv split: if_splits)
  then show "session_step R cid (c_flows client, w) (c_flows client', w')" if "set (rules tbl) \<subseteq> R"
    by cases (use that in \<open>auto dest: serve_session_step\<close>)
  show "c_http3 client = None \<longrightarrow> c_flows client = Map.empty \<Longrightarrow> c_http3 client' = None \<longrightarrow> c_flows client' = Map.empty"
    using assms by (cases ?r; cases "fst ?r") (auto simp: process_client_def bind_eq_Some_conv split: if_splits)
qed

end
