(* ===== verification/Server_System.thy ===== *)
theory Server_System
  imports Server_Flows
begin

text \<open>
  The server as a whole: the main loop of \<^verbatim>\<open>src/src/server.rs\<close> interleaved with the relay tasks it spawned and with
  configuration reloads, as a step relation; the invariant that every reachable state has; and that an
  iteration of the loop always returns.
\<close>

section \<open>The relay tasks beside the loop\<close>

text \<open>A flow's channel is open while some flow of some connection holds its sender.\<close>

definition sender_alive :: "('c, 'h, 'g) server \<Rightarrow> nat \<Rightarrow> bool" where
  "sender_alive s i \<longleftrightarrow>
     (\<exists>cid client fid fl. s_clients s cid = Some client \<and> c_flows client fid = Some fl \<and> to_target fl = i)"

text \<open>One turn of a relay task: it takes the payload it was woken with off its channel, and its socket is
  closed when it returns.\<close>

definition relay_step :: "kernel \<Rightarrow> offer \<Rightarrow> nat \<Rightarrow> target_wake \<Rightarrow> ('c, 'h, 'g) server \<Rightarrow> ('c, 'h, 'g) server option" where
  "relay_step k offer i wake s =
     (let w = s_world s; task = w_tasks w ! i in do {
        (fl, out, t) \<leftarrow> target_task_step k (tk_fd task) (tk_conn_id task) (tk_flow_id task) offer wake (w_trace w);
        let inbox = (case wake of From_Client (Some p) \<Rightarrow> tl (tk_inbox task) | _ \<Rightarrow> tk_inbox task);
        let t = (if fl = Task_Return then snd (sys k (Close (tk_fd task)) t) else t);
        Some (s\<lparr>s_to_client := s_to_client s @ out,
                s_world := \<lparr>w_trace = t,
                  w_tasks = (w_tasks w)[i := task\<lparr>tk_inbox := inbox, tk_done := (fl = Task_Return)\<rparr>]\<rparr>\<rparr>)
      })"

text \<open>A reload swaps the TLS configuration and the rule table; connections and flows are untouched.\<close>

definition install_reload :: "'g \<Rightarrow> rule_table \<Rightarrow> ('c, 'h, 'g) server \<Rightarrow> ('c, 'h, 'g) server" where
  "install_reload cfg tbl s = s\<lparr>s_config := cfg, s_rules := tbl\<rparr>"

section \<open>Steps\<close>

text \<open>Which arm of \<^verbatim>\<open>select!\<close> can fire when the loop has waited for \<open>waited\<close> since the iteration began: both timers
  are created anew by every iteration.\<close>

fun arm_ready :: "('c, 'h, 'g) quiche \<Rightarrow> scid list \<Rightarrow> duration \<Rightarrow> ('c, 'h, 'g) server \<Rightarrow> arm \<Rightarrow> bool" where
  "arm_ready q order waited s (Packets pkts) = (pkts \<noteq> [] \<and> (\<forall>(scid, _) \<in> set pkts. length scid = LOCAL_CONN_ID_LEN))"
| "arm_ready q order waited s Target_Payloads = (s_to_client s \<noteq> [])"
| "arm_ready q order waited s Conn_Timeout = sleep_opt (min_timeout q order s) waited"
| "arm_ready q order waited s (Sweep flow_order) =
     (FLOW_SWEEP_INTERVAL \<le> waited
      \<and> (\<forall>cid \<in> set order. case s_clients s cid of None \<Rightarrow> True
           | Some client \<Rightarrow> distinct (flow_order cid) \<and> set (flow_order cid) = dom (c_flows client)))"

definition enumerates :: "scid list \<Rightarrow> ('c, 'h, 'g) server \<Rightarrow> bool" where
  "enumerates order s \<longleftrightarrow> distinct order \<and> set order = dom (s_clients s)"

text \<open>The machine \<open>k\<close>, \<^verbatim>\<open>quiche\<close>, the channel capacities \<open>room\<close> and \<open>offer\<close> are fixed; \<open>L\<close> is what may be
  loaded, at the start or by a reload: a TLS configuration with its rule table.\<close>

inductive sys_step :: "kernel \<Rightarrow> ('c, 'h, 'g) quiche \<Rightarrow> (bytes list \<Rightarrow> bool) \<Rightarrow> ('g \<times> rule_table) set \<Rightarrow>
    ('c, 'h, 'g) server \<Rightarrow> ('c, 'h, 'g) server \<Rightarrow> bool" for k q room L where
  iteration: "enumerates order s \<Longrightarrow> arm_ready q order waited s a \<Longrightarrow> select_arm k q room a s = Some s1 \<Longrightarrow>
      enumerates order' s1 \<Longrightarrow> run_iteration k q room order' a s = Some s' \<Longrightarrow> sys_step k q room L s s'"
| relay_forwards: "i < length (w_tasks (s_world s)) \<Longrightarrow> \<not> tk_done (w_tasks (s_world s) ! i) \<Longrightarrow>
      tk_inbox (w_tasks (s_world s) ! i) = p # ps \<Longrightarrow> relay_step k offer i (From_Client (Some p)) s = Some s' \<Longrightarrow>
      sys_step k q room L s s'"
| relay_ends: "i < length (w_tasks (s_world s)) \<Longrightarrow> \<not> tk_done (w_tasks (s_world s) ! i) \<Longrightarrow>
      tk_inbox (w_tasks (s_world s) ! i) = [] \<Longrightarrow> \<not> sender_alive s i \<Longrightarrow>
      relay_step k offer i (From_Client None) s = Some s' \<Longrightarrow> sys_step k q room L s s'"
| relay_answers: "i < length (w_tasks (s_world s)) \<Longrightarrow> \<not> tk_done (w_tasks (s_world s) ! i) \<Longrightarrow>
      relay_step k offer i Target_Readable s = Some s' \<Longrightarrow> sys_step k q room L s s'"
| reload: "(cfg, tbl) \<in> L \<Longrightarrow> s' = install_reload cfg tbl s \<Longrightarrow> sys_step k q room L s s'"

definition server_init :: "('g \<times> rule_table) set \<Rightarrow> ('c, 'h, 'g) server \<Rightarrow> bool" where
  "server_init L s \<longleftrightarrow> (\<exists>fd local_addr cfg tbl t. (cfg, tbl) \<in> L \<and> s = server_new fd local_addr cfg tbl t)"

definition loaded_rules :: "('g \<times> rule_table) set \<Rightarrow> rule set" where
  "loaded_rules L = (\<Union>(cfg, tbl) \<in> L. set (rules tbl))"

section \<open>The invariant\<close>

definition client_ok :: "scid \<Rightarrow> world \<Rightarrow> ('c, 'h) client \<Rightarrow> bool" where
  "client_ok cid w client \<longleftrightarrow>
     flows_paired cid w (c_flows client) \<and> (c_http3 client = None \<longrightarrow> c_flows client = Map.empty)"

definition server_inv :: "rule set \<Rightarrow> ('c, 'h, 'g) server \<Rightarrow> bool" where
  "server_inv R s \<longleftrightarrow>
     ran (s_routes s) \<subseteq> dom (s_clients s) \<and> finite (dom (s_clients s))
     \<and> (\<forall>cid client. s_clients s cid = Some client \<longrightarrow> length cid = LOCAL_CONN_ID_LEN \<and> client_ok cid (s_world s) client)
     \<and> relays_pinned R (s_world s) \<and> set (rules (s_rules s)) \<subseteq> R
     \<and> (\<forall>tc \<in> set (s_to_client s). \<exists>task \<in> set (w_tasks (s_world s)).
          tk_conn_id task = tc_conn_id tc \<and> tk_flow_id task = tc_flow_id tc)"

lemma client_ok_grows: "grows w w' \<Longrightarrow> client_ok cid w client \<Longrightarrow> client_ok cid w' client"
  by (simp add: client_ok_def flows_paired_grows)

lemma client_ok_trace [simp]: "client_ok cid (w\<lparr>w_trace := t\<rparr>) client = client_ok cid w client"
  by (simp add: client_ok_def flows_paired_def flow_paired_def)

lemma client_ok_simps [simp]:
  "client_ok cid w (client\<lparr>c_conn := c\<rparr>) = client_ok cid w client"
  "client_ok cid w (client\<lparr>c_peer := a\<rparr>) = client_ok cid w client"
  "client_ok cid w \<lparr>c_conn = c, c_http3 = None, c_flows = Map.empty, c_peer = a\<rparr>"
  by (simp_all add: client_ok_def)

lemma server_inv_trace [simp]: "server_inv R (set_trace t s) = server_inv R s"
  by (simp add: server_inv_def set_trace_def)

lemma set_trace_simps [simp]:
  "s_clients (set_trace t s) = s_clients s" "s_routes (set_trace t s) = s_routes s" "s_rules (set_trace t s) = s_rules s"
  "s_to_client (set_trace t s) = s_to_client s" "w_tasks (s_world (set_trace t s)) = w_tasks (s_world s)"
  "s_socket (set_trace t s) = s_socket s" "s_local_addr (set_trace t s) = s_local_addr s"
  "w_trace (s_world (set_trace t s)) = t"
  by (simp_all add: set_trace_def)

lemma grows_labels:
  "grows w w' \<Longrightarrow> task \<in> set (w_tasks w) \<Longrightarrow> \<exists>task' \<in> set (w_tasks w'). tk_conn_id task' = tk_conn_id task \<and> tk_flow_id task' = tk_flow_id task"
proof -
  assume g: "grows w w'" and "task \<in> set (w_tasks w)"
  then obtain i where "i < length (w_tasks w)" "task = w_tasks w ! i" by (auto simp: in_set_conv_nth)
  with g show ?thesis
    by (intro bexI [of _ "w_tasks w' ! i"]) (auto simp: grows_def same_relay_def)
qed

text \<open>Replacing one connection and the world it acted on.\<close>

lemma server_inv_update:
  assumes "server_inv R s" "grows (s_world s) w'" "relays_pinned R w'" "client_ok cid w' client'" "length cid = LOCAL_CONN_ID_LEN"
  shows "server_inv R (s\<lparr>s_clients := (s_clients s)(cid \<mapsto> client'), s_world := w'\<rparr>)"
proof -
  have "\<exists>task \<in> set (w_tasks w'). tk_conn_id task = tc_conn_id tc \<and> tk_flow_id task = tc_flow_id tc"
    if "tc \<in> set (s_to_client s)" for tc
    using that assms(1) grows_labels [OF assms(2)] unfolding server_inv_def by metis
  with assms show ?thesis
    by (auto simp: server_inv_def intro: client_ok_grows)
qed

lemma server_inv_conn:
  assumes "server_inv R s" "client_ok cid (s_world s) client'" "length cid = LOCAL_CONN_ID_LEN"
  shows "server_inv R (s\<lparr>s_clients := (s_clients s)(cid \<mapsto> client')\<rparr>)"
  using server_inv_update [OF assms(1) _ _ assms(2,3)] assms(1) by (simp add: server_inv_def)

lemma server_inv_client:
  assumes "server_inv R s" "s_clients s cid = Some client"
  shows "client_ok cid (s_world s) client" "length cid = LOCAL_CONN_ID_LEN"
  using assms by (simp_all add: server_inv_def)

lemma process_client_inv:
  assumes inv: "server_inv R s" and ok: "client_ok cid (s_world s) client" and len: "length cid = LOCAL_CONN_ID_LEN"
    and p: "process_client k q room (s_rules s) cid client (s_world s) = Some (client', w')"
  shows "server_inv R (s\<lparr>s_clients := (s_clients s)(cid \<mapsto> client'), s_world := w'\<rparr>)"
proof -
  have "session_step R cid (c_flows client, s_world s) (c_flows client', w')"
    using process_client_step(1) [OF p] inv by (simp add: server_inv_def)
  with inv ok process_client_step(2) [OF p] show ?thesis
    by (intro server_inv_update len) (auto simp: session_step_def client_ok_def server_inv_def)
qed

lemma deliver_packet_inv:
  assumes inv: "server_inv R s" and d: "deliver_packet k q room cid pkt from s = Some s'"
  shows "server_inv R s'"
proof -
  from d obtain client where c: "s_clients s cid = Some client"
    by (auto simp: deliver_packet_def bind_eq_Some_conv)
  note ok = server_inv_client [OF inv c]
  obtain r conn where r: "q_recv q (c_conn client) pkt (s_local_addr s) from = (r, conn)" by force
  show ?thesis
  proof (cases r)
    case (Inl e)
    with d c r have "s' = s\<lparr>s_clients := (s_clients s)(cid \<mapsto> client\<lparr>c_peer := from, c_conn := conn\<rparr>)\<rparr>"
      by (simp add: deliver_packet_def)
    with server_inv_conn [OF inv _ ok(2)] ok(1) show ?thesis by simp
  next
    case (Inr n)
    with d c r obtain client' w' where
      p: "process_client k q room (s_rules s) cid (client\<lparr>c_peer := from, c_conn := conn\<rparr>) (s_world s) = Some (client', w')"
      "s' = s\<lparr>s_clients := (s_clients s)(cid \<mapsto> client'), s_world := w'\<rparr>"
      by (auto simp: deliver_packet_def bind_eq_Some_conv)
    with process_client_inv [OF inv _ ok(2) p(1)] ok(1) show ?thesis by simp
  qed
qed

lemma accept_inv:
  assumes inv: "server_inv R s" and a: "accept q scid dcid from s = (Inr cid, s')" and len: "length scid = LOCAL_CONN_ID_LEN"
  shows "server_inv R s'" "s_clients s' cid \<noteq> None"
proof -
  from a obtain conn where s': "cid = scid"
    "s' = (s\<lparr>s_clients := (s_clients s)(scid \<mapsto> \<lparr>c_conn = conn, c_http3 = None, c_flows = Map.empty, c_peer = from\<rparr>)\<rparr>)
       \<lparr>s_routes := (s_routes s)(dcid \<mapsto> scid)\<rparr>"
    by (auto simp: accept_def split: sum.splits)
  then show "s_clients s' cid \<noteq> None" by simp
  have "ran ((s_routes s)(dcid \<mapsto> scid)) \<subseteq> insert scid (ran (s_routes s))" by (auto simp: ran_def)
  with s' server_inv_conn [OF inv client_ok_simps(3) len] inv show "server_inv R s'"
    by (auto simp: server_inv_def)
qed

lemma send_version_negotiation_inv:
  "server_inv R s \<Longrightarrow> send_version_negotiation k q hdr from s = Some s' \<Longrightarrow> server_inv R s'"
  by (auto simp: send_version_negotiation_def bind_eq_Some_conv split: sum.splits)

lemma accept_Inl: "accept q scid dcid from s = (Inl e, s') \<Longrightarrow> s' = s"
  by (auto simp: accept_def split: sum.splits)

text \<open>What a packet can lead to.\<close>

lemma on_packet_cases [consumes 1, case_names drop negotiate routed accepted]:
  assumes p: "on_packet k q room scid pkt from s = Some s'"
  obtains "s' = s"
    | hdr where "send_version_negotiation k q hdr from s = Some s'"
    | hdr cid where "q_header_from_slice q pkt LOCAL_CONN_ID_LEN = Inr hdr" "route_packet s (hdr_dcid hdr) = Some cid"
        "deliver_packet k q room cid pkt from s = Some s'"
    | hdr cid s1 where "q_header_from_slice q pkt LOCAL_CONN_ID_LEN = Inr hdr" "route_packet s (hdr_dcid hdr) = None"
        "accept q scid (hdr_dcid hdr) from s = (Inr cid, s1)" "deliver_packet k q room cid pkt from s1 = Some s'"
proof (cases "q_header_from_slice q pkt LOCAL_CONN_ID_LEN")
  case (Inl e)
  with p have "s' = s" by (simp add: on_packet_def)
  then show ?thesis by (rule that(1))
next
  case (Inr hdr)
  show ?thesis
  proof (cases "route_packet s (hdr_dcid hdr)")
    case (Some cid)
    with p Inr have "deliver_packet k q room cid pkt from s = Some s'" by (simp add: on_packet_def)
    with Inr Some show ?thesis by (rule that(3))
  next
    case None
    obtain r s1 where a: "accept q scid (hdr_dcid hdr) from s = (r, s1)" by force
    consider "hdr_ty hdr \<noteq> Initial" | "hdr_ty hdr = Initial" "\<not> q_version_is_supported q (hdr_version hdr)"
      | e where "hdr_ty hdr = Initial" "q_version_is_supported q (hdr_version hdr)" "r = Inl e"
      | cid where "hdr_ty hdr = Initial" "q_version_is_supported q (hdr_version hdr)" "r = Inr cid"
      by (cases r) blast+
    then show ?thesis
    proof cases
      case 3
      with p Inr None a accept_Inl [of q scid "hdr_dcid hdr" "from" s e s1] have "s' = s" by (simp add: on_packet_def)
      then show ?thesis by (rule that(1))
    next
      case 4
      with p Inr None a have "deliver_packet k q room cid pkt from s1 = Some s'" by (simp add: on_packet_def)
      with Inr None a 4 show ?thesis using that(4) by blast
    qed (use p Inr None in \<open>simp_all add: on_packet_def that(1,2)\<close>)
  qed
qed

lemma on_packet_inv:
  assumes p: "on_packet k q room scid pkt from s = Some s'" and inv: "server_inv R s" and len: "length scid = LOCAL_CONN_ID_LEN"
  shows "server_inv R s'"
  using p
proof (cases rule: on_packet_cases)
  case (accepted hdr cid s1)
  from deliver_packet_inv [OF accept_inv(1) [OF inv accepted(3) len] accepted(4)] show ?thesis .
qed (use inv in \<open>auto intro: deliver_packet_inv send_version_negotiation_inv\<close>)

lemma on_packets_inv:
  "server_inv R s \<Longrightarrow> on_packets k q room pkts s = Some s' \<Longrightarrow> (\<And>p. p \<in> set pkts \<Longrightarrow> length (fst p) = LOCAL_CONN_ID_LEN) \<Longrightarrow>
     server_inv R s'"
proof (induction pkts arbitrary: s)
  case (Cons p pkts)
  obtain scid pkt addr where p: "p = (scid, pkt, addr)" by (cases p)
  with Cons.prems obtain s1 where s1: "on_packet k q room scid pkt addr s = Some s1" "on_packets k q room pkts s1 = Some s'"
    by (auto simp: bind_eq_Some_conv)
  from on_packet_inv [OF s1(1) Cons.prems(1)] Cons.prems(3) p have "server_inv R s1" by fastforce
  from Cons.IH [OF this s1(2)] Cons.prems(3) show ?case by simp
qed simp

lemma server_inv_clients:
  assumes inv: "server_inv R s" and "dom clients = dom (s_clients s)"
    and "\<And>cid client'. clients cid = Some client' \<Longrightarrow> \<exists>client. s_clients s cid = Some client
       \<and> (client_ok cid (s_world s) client \<longrightarrow> client_ok cid (s_world s) client')"
  shows "server_inv R (s\<lparr>s_clients := clients\<rparr>)"
proof -
  have "length cid = LOCAL_CONN_ID_LEN \<and> client_ok cid (s_world s) client'" if "clients cid = Some client'" for cid client'
    using assms(3) [OF that] inv by (auto simp: server_inv_def)
  with inv assms(2) show ?thesis by (simp add: server_inv_def)
qed

lemma client_ok_flows:
  assumes "client_ok cid w client" "flows_paired cid w flows" "c_flows client = Map.empty \<Longrightarrow> flows = Map.empty"
  shows "client_ok cid w (client\<lparr>c_flows := flows\<rparr>)"
  using assms by (simp add: client_ok_def)

lemma on_target_payload_inv: "server_inv R s \<Longrightarrow> server_inv R (on_target_payload q tc now s)"
proof (cases "s_clients s (tc_conn_id tc)")
  case (Some client)
  let ?flows = "case c_flows client (tc_flow_id tc) of None \<Rightarrow> c_flows client
     | Some fl \<Rightarrow> (c_flows client)(tc_flow_id tc \<mapsto> fl\<lparr>last_activity := now\<rparr>)"
  assume inv: "server_inv R s"
  note ok = server_inv_client [OF inv Some]
  then have "flows_paired (tc_conn_id tc) (s_world s) ?flows"
    by (auto simp: client_ok_def flows_paired_touch split: option.split)
  then have "client_ok (tc_conn_id tc) (s_world s) (client\<lparr>c_flows := ?flows\<rparr>)"
    by (rule client_ok_flows [OF ok(1)]) (auto split: option.split)
  then have "client_ok (tc_conn_id tc) (s_world s) (client\<lparr>c_conn := c, c_flows := ?flows\<rparr>)" for c
    by (simp add: client_ok_def)
  with Some server_inv_conn [OF inv _ ok(2)] show ?thesis by (simp add: on_target_payload_def Let_def)
qed (simp add: on_target_payload_def)

lemma on_target_payloads_inv: "server_inv R s \<Longrightarrow> server_inv R (fold (\<lambda>tc. on_target_payload q tc now) tcs s)"
  by (induction tcs arbitrary: s) (auto intro: on_target_payload_inv)

lemma server_inv_drained: "server_inv R s \<Longrightarrow> server_inv R (s\<lparr>s_to_client := []\<rparr>)"
  by (simp add: server_inv_def)

lemma on_timeout_all_inv: "server_inv R s \<Longrightarrow> server_inv R (on_timeout_all q s)"
  unfolding on_timeout_all_def by (rule server_inv_clients) (auto simp: dom_def)

lemma sweep_client_ok: "client_ok cid w client \<Longrightarrow> client_ok cid w (sweep_client q now order client)"
  by (auto simp: client_ok_def sweep_client_def flows_paired_def restrict_map_def)

lemma sweep_idle_flows_inv: "server_inv R s \<Longrightarrow> server_inv R (sweep_idle_flows k q flow_order s)"
proof -
  assume "server_inv R s"
  then have "server_inv R (s\<lparr>s_clients := (\<lambda>cid. map_option (sweep_client q now (flow_order cid)) (s_clients s cid))\<rparr>)" for now
    by (rule server_inv_clients) (auto simp: dom_def sweep_client_ok)
  then show ?thesis by (simp add: sweep_idle_flows_def split: prod.split)
qed

lemma select_arm_inv:
  assumes "server_inv R s" "arm_ready q order waited s a" "select_arm k q room a s = Some s'"
  shows "server_inv R s'"
proof (cases a)
  case (Packets pkts)
  with assms(2) have "length (fst p) = LOCAL_CONN_ID_LEN" if "p \<in> set pkts" for p using that by auto
  with Packets assms on_packets_inv [of R s k q room pkts s'] show ?thesis by simp
next
  case Target_Payloads
  with assms show ?thesis
    by (auto simp: instant_now_def Let_def intro!: server_inv_drained on_target_payloads_inv)
qed (use assms in \<open>auto intro: on_timeout_all_inv sweep_idle_flows_inv\<close>)

lemma flush_all_inv: "server_inv R s \<Longrightarrow> flush_all k q order s = Some s' \<Longrightarrow> server_inv R s'"
proof (induction order arbitrary: s)
  case (Cons cid order)
  show ?case
  proof (cases "s_clients s cid")
    case (Some client)
    with Cons.prems obtain r c t where "flush_all k q order (set_trace t (s\<lparr>s_clients := (s_clients s)(cid \<mapsto> client\<lparr>c_conn := c\<rparr>)\<rparr>)) = Some s'"
      by (auto simp: bind_eq_Some_conv)
    moreover have "server_inv R (s\<lparr>s_clients := (s_clients s)(cid \<mapsto> client\<lparr>c_conn := c\<rparr>)\<rparr>)"
      using server_inv_conn [OF Cons.prems(1)] server_inv_client [OF Cons.prems(1) Some] by simp
    ultimately show ?thesis using Cons.IH server_inv_trace by metis
  qed (use Cons in simp)
qed simp

lemma reap_closed_inv: "server_inv R s \<Longrightarrow> server_inv R (reap_closed q s)"
proof -
  assume inv: "server_inv R s"
  have "s_clients (reap_closed q s) cid \<noteq> None" if "s_routes (reap_closed q s) dcid = Some cid" for dcid cid
  proof -
    from that have "s_routes s dcid = Some cid" "\<not> closed_client q s cid"
      by (auto simp: reap_closed_def split: option.splits if_splits)
    moreover from this(1) inv have "cid \<in> dom (s_clients s)" by (auto simp: server_inv_def intro: ranI)
    ultimately show ?thesis by (auto simp: reap_closed_def)
  qed
  then have "ran (s_routes (reap_closed q s)) \<subseteq> dom (s_clients (reap_closed q s))" unfolding ran_def by blast
  moreover have "dom (s_clients (reap_closed q s)) \<subseteq> dom (s_clients s)" by (auto simp: reap_closed_def split: if_splits)
  then have "finite (dom (s_clients (reap_closed q s)))" using inv by (auto simp: server_inv_def intro: finite_subset)
  ultimately show ?thesis using inv by (simp add: reap_closed_def server_inv_def)
qed

lemma run_iteration_Some:
  assumes "run_iteration k q room order a s = Some s'"
  obtains s1 s2 where "select_arm k q room a s = Some s1" "flush_all k q order s1 = Some s2" "s' = reap_closed q s2"
  using assms by (auto simp: run_iteration_def bind_eq_Some_conv)

lemma run_iteration_inv:
  assumes inv: "server_inv R s" and a: "arm_ready q order waited s a" and r: "run_iteration k q room order' a s = Some s'"
  shows "server_inv R s'"
proof -
  from r obtain s1 s2 where s12: "select_arm k q room a s = Some s1" "flush_all k q order' s1 = Some s2" "s' = reap_closed q s2"
    by (rule run_iteration_Some)
  from flush_all_inv [OF select_arm_inv [OF inv a s12(1)] s12(2)] s12(3) show ?thesis by (simp add: reap_closed_inv)
qed

lemma relay_step_Some:
  assumes "relay_step k offer i wake s = Some s'"
  obtains fl out t inbox t' where
    "target_task_step k (tk_fd (w_tasks (s_world s) ! i)) (tk_conn_id (w_tasks (s_world s) ! i))
       (tk_flow_id (w_tasks (s_world s) ! i)) offer wake (w_trace (s_world s)) = Some (fl, out, t)"
    "s' = s\<lparr>s_to_client := s_to_client s @ out, s_world := \<lparr>w_trace = t', w_tasks =
       (w_tasks (s_world s))[i := (w_tasks (s_world s) ! i)\<lparr>tk_inbox := inbox, tk_done := (fl = Task_Return)\<rparr>]\<rparr>\<rparr>"
  using assms by (auto simp: relay_step_def Let_def bind_eq_Some_conv)

lemma relay_step_inv:
  assumes inv: "server_inv R s" and i: "i < length (w_tasks (s_world s))" and r: "relay_step k offer i wake s = Some s'"
  shows "server_inv R s'"
proof -
  let ?w = "s_world s"
  let ?task = "w_tasks ?w ! i"
  from r obtain fl out t inbox t' where
    st: "target_task_step k (tk_fd ?task) (tk_conn_id ?task) (tk_flow_id ?task) offer wake (w_trace ?w) = Some (fl, out, t)"
    and s': "s' = s\<lparr>s_to_client := s_to_client s @ out, s_world := \<lparr>w_trace = t', w_tasks =
       (w_tasks ?w)[i := ?task\<lparr>tk_inbox := inbox, tk_done := (fl = Task_Return)\<rparr>]\<rparr>\<rparr>"
    by (rule relay_step_Some)
  have g: "grows ?w (s_world s')" using s' i by (auto simp: grows_def same_relay_def nth_list_update)
  have lab: "tc_conn_id tc = tk_conn_id ?task \<and> tc_flow_id tc = tk_flow_id ?task" if "tc \<in> set out" for tc
    using target_task_step_relays [OF st] that by auto
  have msgs: "\<exists>task \<in> set (w_tasks (s_world s')). tk_conn_id task = tc_conn_id tc \<and> tk_flow_id task = tc_flow_id tc"
    if "tc \<in> set (s_to_client s')" for tc
  proof -
    have "\<exists>task \<in> set (w_tasks ?w). tk_conn_id task = tc_conn_id tc \<and> tk_flow_id task = tc_flow_id tc"
    proof (cases "tc \<in> set out")
      case True
      with lab [OF True] i show ?thesis by (intro bexI [of _ ?task]) auto
    next
      case False
      with that s' inv show ?thesis by (simp add: server_inv_def)
    qed
    with grows_labels [OF g] show ?thesis by metis
  qed
  have "relays_pinned R (s_world s')"
    using inv s' i by (auto simp: server_inv_def relays_pinned_def dest!: set_update_subset_insert [THEN subsetD])
  moreover have "s_clients s' = s_clients s" "s_routes s' = s_routes s" "s_rules s' = s_rules s" using s' by simp_all
  moreover have "length cid = LOCAL_CONN_ID_LEN \<and> client_ok cid (s_world s') client" if "s_clients s cid = Some client" for cid client
    using server_inv_client [OF inv that] client_ok_grows [OF g] by simp
  ultimately show ?thesis using inv msgs by (simp add: server_inv_def)
qed

section \<open>What a packet may touch\<close>

text \<open>The connection a packet belongs to: the one it is routed to, else the one it may open.\<close>

definition packet_conn :: "('c, 'h, 'g) quiche \<Rightarrow> scid \<Rightarrow> bytes \<Rightarrow> ('c, 'h, 'g) server \<Rightarrow> scid" where
  "packet_conn q fresh_scid pkt s =
     (case q_header_from_slice q pkt LOCAL_CONN_ID_LEN of
        Inl e \<Rightarrow> fresh_scid
      | Inr hdr \<Rightarrow> (case route_packet s (hdr_dcid hdr) of Some cid \<Rightarrow> cid | None \<Rightarrow> fresh_scid))"

lemma deliver_packet_effect:
  assumes d: "deliver_packet k q room cid pkt from s = Some s'"
  shows "\<exists>client'. s_clients s' = (s_clients s)(cid \<mapsto> client')" "s_routes s' = s_routes s" "s_to_client s' = s_to_client s"
    "server_inv R s \<Longrightarrow> grows (s_world s) (s_world s') \<and> others_kept cid (s_world s) (s_world s')"
    "s_config s' = s_config s" "s_rules s' = s_rules s"
proof -
  from d obtain client where c: "s_clients s cid = Some client"
    by (auto simp: deliver_packet_def bind_eq_Some_conv)
  obtain r conn where r: "q_recv q (c_conn client) pkt (s_local_addr s) from = (r, conn)" by force
  consider client' where "s' = s\<lparr>s_clients := (s_clients s)(cid \<mapsto> client')\<rparr>"
    | client' w' where "s' = s\<lparr>s_clients := (s_clients s)(cid \<mapsto> client'), s_world := w'\<rparr>"
        "process_client k q room (s_rules s) cid (client\<lparr>c_peer := from, c_conn := conn\<rparr>) (s_world s) = Some (client', w')"
    using d c r by (cases r) (auto simp: deliver_packet_def bind_eq_Some_conv)
  note cases = this
  then show "\<exists>client'. s_clients s' = (s_clients s)(cid \<mapsto> client')" "s_routes s' = s_routes s" "s_to_client s' = s_to_client s"
    "s_config s' = s_config s" "s_rules s' = s_rules s"
    by (cases; auto)+
  show "grows (s_world s) (s_world s') \<and> others_kept cid (s_world s) (s_world s')" if inv: "server_inv R s"
    using cases
  proof cases
    case (2 client' w')
    with process_client_step(1) [OF 2(2), of R] inv server_inv_client(1) [OF inv c] show ?thesis
      by (simp add: session_step_def server_inv_def client_ok_def)
  qed simp
qed

lemma send_version_negotiation_effect:
  "send_version_negotiation k q hdr from s = Some s' \<Longrightarrow> \<exists>t. s' = set_trace t s"
  by (auto simp: send_version_negotiation_def set_trace_def bind_eq_Some_conv split: sum.splits intro: exI [of _ "w_trace (s_world s)"])

lemma accept_effect:
  assumes "accept q scid dcid from s = (Inr cid, s1)"
  shows "cid = scid" "\<exists>client. s_clients s1 = (s_clients s)(scid \<mapsto> client)" "s_world s1 = s_world s"
    "s_routes s1 = (s_routes s)(dcid \<mapsto> scid)"
  using assms by (auto simp: accept_def split: sum.splits)

lemma on_packet_clients:
  assumes p: "on_packet k q room scid pkt from s = Some s'"
  shows "\<exists>v. s_clients s' = (s_clients s)(packet_conn q scid pkt s := v)"
  using p
proof (cases rule: on_packet_cases)
  case (negotiate hdr)
  from send_version_negotiation_effect [OF this] show ?thesis by (metis fun_upd_triv set_trace_simps(1))
next
  case (routed hdr cid)
  with deliver_packet_effect(1) [OF routed(3)] show ?thesis by (auto simp: packet_conn_def)
next
  case (accepted hdr cid s1)
  with deliver_packet_effect(1) [OF accepted(4)] accept_effect [OF accepted(3)] show ?thesis
    by (auto simp: packet_conn_def)
qed (metis fun_upd_triv)

lemma on_packet_relays:
  assumes p: "on_packet k q room scid pkt from s = Some s'" and inv: "server_inv R s" and len: "length scid = LOCAL_CONN_ID_LEN"
  shows "grows (s_world s) (s_world s') \<and> others_kept (packet_conn q scid pkt s) (s_world s) (s_world s')"
  using p
proof (cases rule: on_packet_cases)
  case (negotiate hdr)
  from send_version_negotiation_effect [OF this] show ?thesis by (auto simp: set_trace_def)
next
  case (routed hdr cid)
  with deliver_packet_effect(4) [OF routed(3) inv] show ?thesis by (simp add: packet_conn_def)
next
  case (accepted hdr cid s1)
  with deliver_packet_effect(4) [OF accepted(4) accept_inv(1) [OF inv accepted(3) len]] accept_effect [OF accepted(3)] show ?thesis
    by (simp add: packet_conn_def)
qed simp

section \<open>What is loaded\<close>

text \<open>Only a reload changes the configuration and the rules.\<close>

abbreviation loaded :: "('c, 'h, 'g) server \<Rightarrow> 'g \<times> rule_table" where
  "loaded s \<equiv> (s_config s, s_rules s)"

lemma set_trace_loaded [simp]: "s_config (set_trace t s) = s_config s"
  by (simp add: set_trace_def)

lemma deliver_packet_loaded: "deliver_packet k q room cid pkt from s = Some s' \<Longrightarrow> loaded s' = loaded s"
  by (simp add: deliver_packet_effect)

lemma on_packet_loaded:
  assumes "on_packet k q room scid pkt from s = Some s'"
  shows "loaded s' = loaded s"
  using assms
proof (cases rule: on_packet_cases)
  case (negotiate hdr)
  then show ?thesis by (auto simp: send_version_negotiation_def bind_eq_Some_conv split: sum.splits)
next
  case (accepted hdr cid s1)
  have "loaded s1 = loaded s" using accepted(3) by (auto simp: accept_def split: sum.splits)
  with deliver_packet_loaded [OF accepted(4)] show ?thesis by simp
qed (auto dest: deliver_packet_loaded)

lemma on_packets_loaded: "on_packets k q room pkts s = Some s' \<Longrightarrow> loaded s' = loaded s"
proof (induction pkts arbitrary: s)
  case (Cons p pkts)
  obtain scid pkt addr where p: "p = (scid, pkt, addr)" by (cases p)
  with Cons.prems obtain s1 where s1: "on_packet k q room scid pkt addr s = Some s1" "on_packets k q room pkts s1 = Some s'"
    by (auto simp: bind_eq_Some_conv)
  from on_packet_loaded [OF s1(1)] Cons.IH [OF s1(2)] show ?case by simp
qed simp

lemma on_target_payload_loaded: "loaded (on_target_payload q tc now s) = loaded s"
  by (simp add: on_target_payload_def Let_def split: option.split)

lemma on_target_payloads_loaded: "loaded (fold (\<lambda>tc. on_target_payload q tc now) tcs s) = loaded s"
proof (induction tcs arbitrary: s)
  case (Cons tc tcs)
  show ?case using Cons [of "on_target_payload q tc now s"] on_target_payload_loaded [of q tc now s] by simp
qed simp

lemma select_arm_loaded: "select_arm k q room a s = Some s' \<Longrightarrow> loaded s' = loaded s"
proof (cases a)
  case (Packets pkts)
  assume "select_arm k q room a s = Some s'"
  with Packets on_packets_loaded [of k q room pkts s s'] show ?thesis by simp
next
  case Target_Payloads
  assume "select_arm k q room a s = Some s'"
  with Target_Payloads on_target_payloads_loaded [of q _ "s_to_client s" "set_trace _ s"] show ?thesis
    by (auto simp: instant_now_def Let_def)
qed (auto simp: on_timeout_all_def sweep_idle_flows_def instant_now_def Let_def)

lemma flush_all_loaded: "flush_all k q order s = Some s' \<Longrightarrow> loaded s' = loaded s"
proof (induction order arbitrary: s)
  case (Cons cid order)
  show ?case
  proof (cases "s_clients s cid")
    case (Some client)
    with Cons.prems obtain c t where
      "flush_all k q order (set_trace t (s\<lparr>s_clients := (s_clients s)(cid \<mapsto> client\<lparr>c_conn := c\<rparr>)\<rparr>)) = Some s'"
      by (auto simp: bind_eq_Some_conv)
    from Cons.IH [OF this] show ?thesis by simp
  qed (use Cons in simp)
qed simp

lemma run_iteration_loaded: "run_iteration k q room order a s = Some s' \<Longrightarrow> loaded s' = loaded s"
proof (elim run_iteration_Some)
  fix s1 s2 assume "select_arm k q room a s = Some s1" "flush_all k q order s1 = Some s2" "s' = reap_closed q s2"
  with select_arm_loaded [of k q room a s s1] flush_all_loaded [of k q order s1 s2] show ?thesis
    by (simp add: reap_closed_def)
qed

lemma relay_step_loaded: "relay_step k offer i wake s = Some s' \<Longrightarrow> loaded s' = loaded s"
  by (elim relay_step_Some) simp

section \<open>Every reachable state\<close>

definition serving_inv :: "('g \<times> rule_table) set \<Rightarrow> ('c, 'h, 'g) server \<Rightarrow> bool" where
  "serving_inv L s \<longleftrightarrow> server_inv (loaded_rules L) s \<and> loaded s \<in> L"

lemma loaded_rules_subset: "(cfg, tbl) \<in> L \<Longrightarrow> set (rules tbl) \<subseteq> loaded_rules L"
  by (auto simp: loaded_rules_def)

lemma server_init_inv: "server_init L s \<Longrightarrow> serving_inv L s"
  using loaded_rules_subset
  by (fastforce simp: server_init_def serving_inv_def server_inv_def server_new_def relays_pinned_def)

lemma sys_step_inv: "sys_step k q room L s s' \<Longrightarrow> serving_inv L s \<Longrightarrow> serving_inv L s'"
proof (induction rule: sys_step.induct)
  case (iteration order s waited a s1 order' s')
  then show ?case using run_iteration_inv run_iteration_loaded by (fastforce simp: serving_inv_def)
next
  case (reload cfg tbl s' s)
  then show ?case using loaded_rules_subset [of cfg tbl L] by (simp add: serving_inv_def install_reload_def server_inv_def)
qed (use relay_step_inv relay_step_loaded in \<open>fastforce simp: serving_inv_def\<close>)+

interpretation srv: invariant_system "server_init L" "sys_step k q room L" "serving_inv L" for L k q room
  by unfold_locales (auto intro: server_init_inv sys_step_inv)

lemma reach_server_inv:
  "server_init L s0 \<Longrightarrow> (sys_step k q room L)\<^sup>*\<^sup>* s0 s \<Longrightarrow> server_inv (loaded_rules L) s"
  using srv.reach_inv [of L s0 k q room s] by (simp add: serving_inv_def)

section \<open>Every iteration returns\<close>

lemma flush_all_total:
  assumes "unblocks k m" "send_ok q" "sends_finite q"
  shows "\<exists>s'. flush_all k q order s = Some s'"
proof (induction order arbitrary: s)
  case (Cons cid order)
  show ?case
  proof (cases "s_clients s cid")
    case (Some client)
    obtain r c' t' where "flush_connection k q (s_socket s) (c_conn client) (w_trace (s_world s)) = Some (r, c', t')"
      using flush_connection_total [OF assms] by blast
    with Some Cons.IH show ?thesis by simp
  qed (use Cons.IH in simp)
qed simp

lemma deliver_packet_total:
  assumes "drains q evs body dgrams" "s_clients s cid = Some client"
  shows "\<exists>s'. deliver_packet k q room cid pkt from s = Some s'"
proof -
  obtain r c where r: "q_recv q (c_conn client) pkt (s_local_addr s) from = (r, c)" by force
  obtain client' w' where "process_client k q room (s_rules s) cid (client\<lparr>c_peer := from, c_conn := c\<rparr>) (s_world s) = Some (client', w')"
    using process_client_total [OF assms(1)] by blast
  with assms(2) r show ?thesis by (cases r) (simp_all add: deliver_packet_def)
qed

lemma send_version_negotiation_total:
  assumes "unblocks k m"
  shows "\<exists>s'. send_version_negotiation k q hdr from s = Some s'"
proof -
  have "\<exists>r t'. send_udp k fd out from t = Some (r, t')" for fd out t
    using send_batch_total [OF assms, of fd "push_first send_batch_new out from" t] by (auto simp: send_udp_def)
  then show ?thesis by (auto simp: send_version_negotiation_def split: sum.split) (metis (no_types, lifting) bind.bind_lunit case_prod_conv)
qed

lemma route_packet_client: "server_inv R s \<Longrightarrow> route_packet s dcid = Some cid \<Longrightarrow> \<exists>client. s_clients s cid = Some client"
  by (auto simp: server_inv_def route_packet_def split: if_splits intro: ranI)

lemma on_packet_total:
  assumes q: "drains q evs body dgrams" and k: "unblocks k m" and inv: "server_inv R s"
  shows "\<exists>s'. on_packet k q room scid pkt from s = Some s'"
proof (cases "q_header_from_slice q pkt LOCAL_CONN_ID_LEN")
  case (Inr hdr)
  show ?thesis
  proof (cases "route_packet s (hdr_dcid hdr)")
    case (Some cid)
    with Inr route_packet_client [OF inv Some] deliver_packet_total [OF q] show ?thesis by (auto simp: on_packet_def)
  next
    case None
    obtain sv where sv: "send_version_negotiation k q hdr from s = Some sv"
      using send_version_negotiation_total [OF k] by blast
    show ?thesis
    proof (cases "q_accept q scid (s_local_addr s) from (s_config s)")
      case (Inl e)
      with \<open>q_header_from_slice _ _ _ = _\<close> None sv show ?thesis by (simp add: on_packet_def accept_def)
    next
      case (Inr conn)
      obtain s1 where s1: "accept q scid (hdr_dcid hdr) from s = (Inr scid, s1)" "s_clients s1 scid \<noteq> None"
        using Inr by (simp add: accept_def)
      then obtain s2 where "deliver_packet k q room scid pkt from s1 = Some s2"
        using deliver_packet_total [OF q] by blast
      with s1 \<open>q_header_from_slice _ _ _ = _\<close> None sv show ?thesis by (simp add: on_packet_def)
    qed
  qed
qed (simp add: on_packet_def)

lemma on_packets_total:
  assumes q: "drains q evs body dgrams" and k: "unblocks k m"
  shows "server_inv R s \<Longrightarrow> (\<And>p. p \<in> set pkts \<Longrightarrow> length (fst p) = LOCAL_CONN_ID_LEN) \<Longrightarrow> \<exists>s'. on_packets k q room pkts s = Some s'"
proof (induction pkts arbitrary: s)
  case (Cons p pkts)
  obtain scid pkt addr where p: "p = (scid, pkt, addr)" by (cases p)
  obtain s1 where s1: "on_packet k q room scid pkt addr s = Some s1" using on_packet_total [OF q k Cons.prems(1)] by blast
  from Cons.prems(2) [of p] p have "length scid = LOCAL_CONN_ID_LEN" by simp
  from on_packet_inv [OF s1 Cons.prems(1) this] Cons p s1 show ?case by simp
qed simp

lemma select_arm_total:
  assumes "drains q evs body dgrams" "unblocks k m" "server_inv R s" "arm_ready q order waited s a"
  shows "\<exists>s'. select_arm k q room a s = Some s'"
proof (cases a)
  case (Packets pkts)
  with assms(4) have "length (fst p) = LOCAL_CONN_ID_LEN" if "p \<in> set pkts" for p using that by auto
  with Packets on_packets_total [OF assms(1-3), of pkts] show ?thesis by simp
qed (simp_all split: prod.split)

lemma run_iteration_total:
  assumes "drains q evs body dgrams" "unblocks k m" "send_ok q" "sends_finite q" "server_inv R s" "arm_ready q order waited s a"
  shows "\<exists>s'. run_iteration k q room order' a s = Some s'"
proof -
  obtain s1 where "select_arm k q room a s = Some s1" using select_arm_total [OF assms(1,2,5,6)] by blast
  moreover obtain s2 where "flush_all k q order' s1 = Some s2" using flush_all_total [OF assms(2-4)] by blast
  ultimately show ?thesis by (simp add: run_iteration_def)
qed

lemma drains_scripted:
  "drains (scripted start) (\<lambda>h c. length (sc_events c)) (\<lambda>h c sid. 0) (\<lambda>c. length (sc_dgrams c))"
  by (auto simp: drains_def scripted_def split: list.splits if_splits)

end
