(* ===== verification/Server_Run.thy ===== *)
theory Server_Run
  imports Server_System
begin

text \<open>
  What holds of the running server: no open relay, isolation of clients, delivery of answers, that the main
  loop always returns and relays end, and when idle flows are not swept.
\<close>

section \<open>Properties of the running server\<close>

text \<open>C3. The proxy is not an open relay.  In every state the server can reach, however its main loop, its relay
  tasks and reloads interleave and whatever packets arrive, every relay socket that was ever opened is
  connected to the target of a rule of some loaded table, with that rule's mark and transparency; every flow feeds
  the relay spawned for it; every answer waiting for a client came from such a relay; and a route always leads
  to a connection (so the \<^verbatim>\<open>unwrap\<close> in \<^verbatim>\<open>on_packet\<close> cannot fail); and configuration and rules are a pair that was
  loaded together.\<close>

theorem server_reachable_safe:
  assumes "server_init L s0" and "(sys_step k q room L)\<^sup>*\<^sup>* s0 s"
  shows "(\<forall>task \<in> set (w_tasks (s_world s)). \<exists>r \<in> loaded_rules L.
        sa_peer (tk_attrs task) = Some (r_target r) \<and> sa_mark (tk_attrs task) = map_option sint (r_fwmark r)
        \<and> sa_transparent (tk_attrs task) = r_transparent r)
     \<and> (\<forall>cid client fid fl. s_clients s cid = Some client \<and> c_flows client fid = Some fl \<longrightarrow>
          to_target fl < length (w_tasks (s_world s)) \<and> tk_conn_id (w_tasks (s_world s) ! to_target fl) = cid
          \<and> tk_flow_id (w_tasks (s_world s) ! to_target fl) = fid)
     \<and> (\<forall>tc \<in> set (s_to_client s). \<exists>task \<in> set (w_tasks (s_world s)).
          tk_conn_id task = tc_conn_id tc \<and> tk_flow_id task = tc_flow_id tc)
     \<and> ran (s_routes s) \<subseteq> dom (s_clients s) \<and> (s_config s, s_rules s) \<in> L"
proof -
  have "loaded s \<in> L" using srv.reach_inv [OF assms] by (simp add: serving_inv_def)
  moreover have inv: "server_inv (loaded_rules L) s" using assms by (rule reach_server_inv)
  moreover have "flow_paired cid (s_world s) fid fl" if "s_clients s cid = Some client" "c_flows client fid = Some fl" for cid client fid fl
    using server_inv_client(1) [OF inv that(1)] that(2) by (simp add: client_ok_def flows_paired_def)
  ultimately show ?thesis
    using inv by (auto simp: server_inv_def relays_pinned_def pinned_def rule_decision_def flow_paired_def)
qed

text \<open>A run that opens a relay: one client, one packet, one CONNECT request for the rule's endpoint.\<close>

definition sample_start :: script where
  "sample_start = idle_script\<lparr>sc_events := [(0, Headers (connect_headers ''a.b:443'' ''/p''))],
     sc_dgrams := [dgram_encode 0 [3]]\<rparr>"

definition sample_kernel :: kernel where
  "sample_kernel = calm_kernel\<lparr>k_recvmsg := (\<lambda>t fd _. if t \<noteq> [] \<and> last t = Call (Await_Readable fd) (Inr 0)
     then Inr \<lparr>rc_data = [9], rc_name = Sockaddr_Other 0, rc_control = []\<rparr> else Inl EAGAIN)\<rparr>"

lemma unblocks_sample: "unblocks sample_kernel 0"
  using unblocks_calm by (simp add: unblocks_def sample_kernel_def)

definition sample_scid :: scid where
  "sample_scid = replicate LOCAL_CONN_ID_LEN 7"

definition sample_server :: "(script, nat, unit) server" where
  "sample_server = server_new 0 (SocketV4 0 443) () \<lparr>rules = [dns_rule]\<rparr> []"

definition sample_arm :: arm where
  "sample_arm = Packets [(sample_scid, [1], SocketV4 9 9)]"

definition sample_load :: "(unit \<times> rule_table) set" where
  "sample_load = {((), \<lparr>rules = [dns_rule]\<rparr>)}"

lemma loaded_rules_sample [simp]: "loaded_rules sample_load = {dns_rule}"
  by (simp add: loaded_rules_def sample_load_def)

lemma sample_init: "server_init sample_load sample_server"
  unfolding server_init_def sample_server_def
  by (rule exI, rule exI, rule exI, rule exI [of _ "\<lparr>rules = [dns_rule]\<rparr>"], rule exI, rule conjI [OF _ refl])
    (simp add: sample_load_def)

lemma sample_ready: "arm_ready (scripted sample_start) [] 0 sample_server sample_arm"
  by (simp add: sample_arm_def sample_scid_def)

lemma sample_enumerates: "enumerates [] sample_server"
  by (simp add: enumerates_def sample_server_def server_new_def)

text \<open>A CONNECT request that is not refused leaves a relay behind, whatever follows on the connection.\<close>

lemma poll_loop_opens:
  assumes "h3_poll q h c = (Inr (sid, Headers hs), h1, c1)" "refusal k tbl addr hs (w_trace w) = None"
    "poll_loop k q tbl addr cid (c, h, flows, w) = Some st'"
  shows "w_tasks (snd (snd (snd st'))) \<noteq> []"
proof -
  obtain c2 h2 flows2 w2 where r: "handle_connect_request k q tbl addr cid sid hs (c1, h1, flows, w) = (c2, h2, flows2, w2)"
    by (metis prod_cases4)
  with assms(1,3) have "poll_loop k q tbl addr cid (c2, h2, flows2, w2) = Some st'"
    by (subst (asm) poll_loop.simps) simp
  from poll_loop_step [OF this order_refl] have "grows w2 (snd (snd (snd st')))" by (auto simp: session_step_def split: prod.splits)
  moreover have "w_tasks w2 \<noteq> []" using handle_connect_accepted [OF assms(2) r] by auto
  ultimately show ?thesis by (auto simp: grows_def)
qed

lemma dns_request_accepted:
  "refusal sample_kernel \<lparr>rules = [dns_rule]\<rparr> (SocketV4 9 9) (connect_headers ''a.b:443'' ''/p'') [] = None"
proof -
  have m: "match_target \<lparr>rules = [dns_rule]\<rparr> ''a.b:443'' ''/p'' = Some (rule_decision dns_rule)"
    by (simp add: match_target_def rule_applies_def endpoint_matches_def dns_rule_def)
  have p: "connect_request_parse (connect_headers ''a.b:443'' ''/p'') = Inr \<lparr>cr_authority = ''a.b:443'', cr_path = ''/p''\<rparr>"
    by (simp add: connect_request_parse_def connect_headers_def header_new_def from_utf8_def utf8_valid_as_bytes)
  have "\<exists>fd. fst (bind_target sample_kernel (SocketV4 1 53) (SocketV4 9 9) False None []) = Inr fd"
    by (simp add: bind_target_def sample_kernel_def calm_kernel_def sys_eq addr_is_ipv4_def adopt_def or_close_def set_so_mark_def map_err_def)
  then show ?thesis using m p by (auto simp: refusal_def rule_decision_def dns_rule_def)
qed

definition sample_accepted :: "(script, nat, unit) server" where
  "sample_accepted = sample_server\<lparr>s_clients := [sample_scid \<mapsto>
     \<lparr>c_conn = sample_start, c_http3 = None, c_flows = Map.empty, c_peer = SocketV4 9 9\<rparr>], s_routes := [[1] \<mapsto> sample_scid]\<rparr>"

lemma sample_select:
  assumes "select_arm sample_kernel (scripted sample_start) (\<lambda>_. True) sample_arm sample_server = Some s1"
  shows "dom (s_clients s1) = {sample_scid}" "w_tasks (s_world s1) \<noteq> []"
proof -
  let ?q = "scripted sample_start"
  let ?client = "\<lparr>c_conn = sample_start, c_http3 = None, c_flows = Map.empty, c_peer = SocketV4 9 9\<rparr>"
  have q: "q_header_from_slice ?q [1] n = Inr \<lparr>hdr_ty = Initial, hdr_version = 1, hdr_dcid = [1], hdr_scid = []\<rparr>"
    "q_version_is_supported ?q 1" "q_accept ?q scid la addr cfg = Inr sample_start" "q_recv ?q c pkt la addr = (Inr (length pkt), c)"
    "q_is_established ?q = sc_up" "h3_with_transport ?q c = (Inr 0, c)"
    "h3_poll ?q h sample_start = (Inr (0, Headers (connect_headers ''a.b:443'' ''/p'')), h, sample_start\<lparr>sc_events := []\<rparr>)" "sc_up sample_start" for n scid la addr cfg pkt c h
    by (simp_all add: scripted_def sample_start_def idle_script_def)
  have "accept ?q sample_scid [1] (SocketV4 9 9) sample_server = (Inr sample_scid, sample_accepted)"
    by (simp add: accept_def q sample_accepted_def sample_server_def server_new_def)
  moreover have "route_packet sample_server [1] = None"
    by (simp add: route_packet_def sample_server_def server_new_def)
  ultimately have d: "deliver_packet sample_kernel ?q (\<lambda>_. True) sample_scid [1] (SocketV4 9 9) sample_accepted = Some s1"
    using assms by (simp add: sample_arm_def on_packet_def q bind_eq_Some_conv)
  show "dom (s_clients s1) = {sample_scid}"
    using deliver_packet_effect(1) [OF d] by (auto simp: sample_accepted_def split: if_splits)
  have w: "s_world sample_accepted = \<lparr>w_trace = [], w_tasks = []\<rparr>" "s_rules sample_accepted = \<lparr>rules = [dns_rule]\<rparr>"
    "s_clients sample_accepted sample_scid = Some ?client"
    by (simp_all add: sample_accepted_def sample_server_def server_new_def)
  from d w obtain client' where p: "process_client sample_kernel ?q (\<lambda>_. True) \<lparr>rules = [dns_rule]\<rparr> sample_scid ?client
      \<lparr>w_trace = [], w_tasks = []\<rparr> = Some (client', s_world s1)"
    by (auto simp: deliver_packet_def q bind_eq_Some_conv)
  then obtain st where st: "poll_loop sample_kernel ?q \<lparr>rules = [dns_rule]\<rparr> (SocketV4 9 9) sample_scid
      (sample_start, 0, Map.empty, \<lparr>w_trace = [], w_tasks = []\<rparr>) = Some st"
    and dr: "\<exists>c flows. drain_client_datagrams sample_kernel ?q (\<lambda>_. True) (fst st) (fst (snd (snd st))) (snd (snd (snd st)))
       = Some (c, flows, s_world s1)"
    by (auto simp: process_client_def q serve_session_def bind_eq_Some_conv)
  have "w_tasks (snd (snd (snd st))) \<noteq> []"
    using poll_loop_opens [OF q(7) _ st] dns_request_accepted by simp
  moreover have "grows (snd (snd (snd st))) (s_world s1)"
    using dr drain_loop_step by (fastforce simp: drain_client_datagrams_def session_step_def split: prod.splits)
  ultimately show "w_tasks (s_world s1) \<noteq> []" by (auto simp: grows_def)
qed

lemma flush_all_relays:
  "flush_all k q order s = Some s' \<Longrightarrow> w_tasks (s_world s') = w_tasks (s_world s)
     \<and> (\<forall>cid. map_option c_flows (s_clients s' cid) = map_option c_flows (s_clients s cid))"
proof (induction order arbitrary: s)
  case (Cons cid order)
  show ?case
  proof (cases "s_clients s cid")
    case (Some client)
    with Cons.prems obtain c t where
      "flush_all k q order (set_trace t (s\<lparr>s_clients := (s_clients s)(cid \<mapsto> client\<lparr>c_conn := c\<rparr>)\<rparr>)) = Some s'"
      by (auto simp: bind_eq_Some_conv)
    from Cons.IH [OF this] Some show ?thesis by auto
  qed (use Cons in simp)
qed simp

lemma sample_step:
  "\<exists>s'. sys_step sample_kernel (scripted sample_start) (\<lambda>_. True) sample_load sample_server s' \<and> w_tasks (s_world s') \<noteq> []
     \<and> s_clients s' sample_scid \<noteq> None"
proof -
  let ?q = "scripted sample_start"
  obtain s1 where s1: "select_arm sample_kernel ?q (\<lambda>_. True) sample_arm sample_server = Some s1"
    using select_arm_total [OF drains_scripted unblocks_sample reach_server_inv [OF sample_init rtranclp.rtrancl_refl] sample_ready] by blast
  obtain s' where s': "run_iteration sample_kernel ?q (\<lambda>_. True) [sample_scid] sample_arm sample_server = Some s'"
    using run_iteration_total [OF drains_scripted unblocks_sample send_ok_scripted sends_finite_scripted
        reach_server_inv [OF sample_init rtranclp.rtrancl_refl] sample_ready] by blast
  have "enumerates [sample_scid] s1" using sample_select(1) [OF s1] by (simp add: enumerates_def)
  from sys_step.iteration [OF sample_enumerates sample_ready s1 this s']
  have "sys_step sample_kernel ?q (\<lambda>_. True) sample_load sample_server s'" .
  moreover obtain s2 where s2: "flush_all sample_kernel ?q [sample_scid] s1 = Some s2" "s' = reap_closed ?q s2"
    using s' s1 by (auto elim!: run_iteration_Some simp del: flush_all.simps)
  obtain client where "s_clients s1 sample_scid = Some client" using sample_select(1) [OF s1] by blast
  with flush_all_relays [OF s2(1)] have "w_tasks (s_world s2) = w_tasks (s_world s1)"
    "map_option c_flows (s_clients s2 sample_scid) = Some (c_flows client)" by simp_all
  moreover have "\<not> closed_client ?q s2 cid" for cid
    by (simp add: closed_client_def scripted_def sample_start_def idle_script_def split: option.split)
  ultimately show ?thesis
    using sample_select(2) [OF s1] s2(2) by (intro exI [of _ s']) (auto simp: reap_closed_def)
qed

theorem server_reachable_safe_witness:
  "\<exists>s task. (sys_step sample_kernel (scripted sample_start) (\<lambda>_. True) sample_load)\<^sup>*\<^sup>* sample_server s
     \<and> task \<in> set (w_tasks (s_world s)) \<and> sa_peer (tk_attrs task) = Some (SocketV4 1 53)"
proof -
  obtain s' where s': "sys_step sample_kernel (scripted sample_start) (\<lambda>_. True) sample_load sample_server s'" "w_tasks (s_world s') \<noteq> []"
    using sample_step by blast
  have reach: "(sys_step sample_kernel (scripted sample_start) (\<lambda>_. True) sample_load)\<^sup>*\<^sup>* sample_server s'"
    using s'(1) by (rule r_into_rtranclp)
  from s'(2) obtain task where task: "task \<in> set (w_tasks (s_world s'))" by (cases "w_tasks (s_world s')") auto
  have "\<exists>r \<in> loaded_rules sample_load. sa_peer (tk_attrs task) = Some (r_target r)"
    using server_reachable_safe [OF sample_init reach] task by blast
  with reach task show ?thesis by (auto simp: dns_rule_def)
qed

text \<open>C6. The main loop never panics and never hangs: from every reachable state, whichever arm is ready and in
  whatever order the connection table is iterated, the iteration returns, provided \<^verbatim>\<open>quiche\<close> has finitely much
  queued and a blocked socket becomes writable again.\<close>

theorem server_iteration_returns:
  assumes "server_init L s0" and "(sys_step k q room L)\<^sup>*\<^sup>* s0 s"
    and "drains q evs body dgrams" and "send_ok q" and "sends_finite q" and "unblocks k m"
    and "arm_ready q order waited s a"
  shows "\<exists>s'. run_iteration k q room order' a s = Some s'"
  using assms(3,6,4,5) reach_server_inv [OF assms(1,2)] assms(7) by (rule run_iteration_total)

theorem server_iteration_returns_witness:
  "\<exists>s'. run_iteration sample_kernel (scripted sample_start) (\<lambda>_. True) [sample_scid] sample_arm sample_server = Some s'"
  using server_iteration_returns [OF sample_init rtranclp.rtrancl_refl drains_scripted send_ok_scripted sends_finite_scripted
      unblocks_sample sample_ready] .

text \<open>C5. Clients are isolated from each other: a packet changes no connection but the one it is routed to (or
  opens), and no relay of any other connection, neither its queue nor its state.\<close>

theorem packet_isolated:
  assumes "server_init L s0" and "(sys_step k q room L)\<^sup>*\<^sup>* s0 s"
    and "on_packet k q room fresh_scid pkt from s = Some s'" and "length fresh_scid = LOCAL_CONN_ID_LEN"
  shows "(\<forall>cid. cid \<noteq> packet_conn q fresh_scid pkt s \<longrightarrow> s_clients s' cid = s_clients s cid)
     \<and> (\<forall>i < length (w_tasks (s_world s)). tk_conn_id (w_tasks (s_world s) ! i) \<noteq> packet_conn q fresh_scid pkt s \<longrightarrow>
          w_tasks (s_world s') ! i = w_tasks (s_world s) ! i)"
  using on_packet_clients [OF assms(3)] on_packet_relays [OF assms(3) reach_server_inv [OF assms(1,2)] assms(4)]
  by (auto simp: others_kept_def)

theorem packet_isolated_witness:
  "\<exists>s'. on_packet sample_kernel (scripted sample_start) (\<lambda>_. True) sample_scid [1] (SocketV4 9 9) sample_server = Some s'
     \<and> s_clients s' [] = None"
proof -
  have len: "length sample_scid = LOCAL_CONN_ID_LEN" by (simp add: sample_scid_def)
  obtain s' where s': "on_packet sample_kernel (scripted sample_start) (\<lambda>_. True) sample_scid [1] (SocketV4 9 9) sample_server = Some s'"
    using on_packet_total [OF drains_scripted unblocks_sample reach_server_inv [OF sample_init rtranclp.rtrancl_refl]] by blast
  have "[] \<noteq> packet_conn (scripted sample_start) sample_scid [1] sample_server"
    by (auto simp: packet_conn_def scripted_def route_packet_def sample_server_def server_new_def sample_scid_def LOCAL_CONN_ID_LEN_def)
  with packet_isolated [OF sample_init rtranclp.rtrancl_refl s' len] s' show ?thesis
    by (auto simp: sample_server_def server_new_def)
qed

section \<open>Answers\<close>

lemma on_target_payload_conn:
  "s_clients (on_target_payload q tc now s) cid = (case s_clients s cid of None \<Rightarrow> None | Some client \<Rightarrow>
     if tc_conn_id tc = cid
     then Some (client\<lparr>c_conn := snd (q_dgram_send q (c_conn client) (dgram_encode (tc_flow_id tc) (tc_payload tc))),
       c_flows := (case c_flows client (tc_flow_id tc) of None \<Rightarrow> c_flows client
          | Some fl \<Rightarrow> (c_flows client)(tc_flow_id tc \<mapsto> fl\<lparr>last_activity := now\<rparr>))\<rparr>)
     else Some client)"
  by (auto simp: on_target_payload_def Let_def split: option.split)

text \<open>The datagrams given to a connection for the answers it is to get.\<close>

definition answers_for :: "scid \<Rightarrow> to_client list \<Rightarrow> bytes list" where
  "answers_for cid tcs = map (\<lambda>tc. dgram_encode (tc_flow_id tc) (tc_payload tc)) (filter (\<lambda>tc. tc_conn_id tc = cid) tcs)"

lemma on_target_payloads_conn:
  "s_clients s cid = Some client \<Longrightarrow>
     \<exists>client'. s_clients (fold (\<lambda>tc. on_target_payload q tc now) tcs s) cid = Some client'
       \<and> c_conn client' = send_dgrams q (answers_for cid tcs) (c_conn client) \<and> dom (c_flows client') = dom (c_flows client)"
proof (induction tcs arbitrary: s client)
  case (Cons tc tcs)
  have d: "dom (case c_flows client fid of None \<Rightarrow> c_flows client | Some fl \<Rightarrow> (c_flows client)(fid \<mapsto> fl\<lparr>last_activity := now\<rparr>))
      = dom (c_flows client)" for fid
    by (auto split: option.splits)
  from Cons.prems on_target_payload_conn [of q tc now s cid] Cons.IH [of "on_target_payload q tc now s"] d show ?case
    by (auto simp: answers_for_def)
qed (simp add: answers_for_def)

text \<open>C10. Each connection is given exactly the answers of its own relays, in the order they were queued, each
  framed for its own flow (so that decoding gives back the flow and the payload), and the queue is emptied.\<close>

theorem target_payloads_delivered:
  assumes "server_init L s0" and "(sys_step k q room L)\<^sup>*\<^sup>* s0 s"
    and "select_arm k q room Target_Payloads s = Some s'" and "s_clients s cid = Some client"
  shows "s_to_client s' = []
     \<and> (\<exists>client'. s_clients s' cid = Some client'
          \<and> c_conn client' = send_dgrams q (answers_for cid (s_to_client s)) (c_conn client)
          \<and> dom (c_flows client') = dom (c_flows client))
     \<and> (\<forall>tc \<in> set (s_to_client s).
          dgram_decode (dgram_encode (tc_flow_id tc) (tc_payload tc))
            = Some \<lparr>p_flow_id = tc_flow_id tc, p_context_id = CONTEXT_ID_UDP, p_payload = tc_payload tc\<rparr>)"
proof -
  let ?now = "k_now k (w_trace (s_world s))"
  have s': "s' = (fold (\<lambda>tc. on_target_payload q tc ?now) (s_to_client s)
      (set_trace (w_trace (s_world s) @ [Now ?now]) s))\<lparr>s_to_client := []\<rparr>"
    using assms(3) by (simp add: instant_now_def Let_def)
  have "varint_range (tc_flow_id tc)" if "tc \<in> set (s_to_client s)" for tc
    using that reach_server_inv [OF assms(1,2)] by (force simp: server_inv_def relays_pinned_def)
  with s' on_target_payloads_conn [of "set_trace (w_trace (s_world s) @ [Now ?now]) s" cid client q ?now "s_to_client s"] assms(4)
  show ?thesis by (simp add: dgram_decode_encode)
qed

theorem target_payloads_delivered_witness:
  "\<exists>s s' client client'. (sys_step sample_kernel (scripted sample_start) (\<lambda>_. True) sample_load)\<^sup>*\<^sup>* sample_server s
     \<and> select_arm sample_kernel (scripted sample_start) (\<lambda>_. True) Target_Payloads s = Some s'
     \<and> s_clients s sample_scid = Some client \<and> s_clients s' sample_scid = Some client'
     \<and> c_conn client' = send_dgrams (scripted sample_start) (answers_for sample_scid (s_to_client s)) (c_conn client)"
proof -
  obtain s client where s: "sys_step sample_kernel (scripted sample_start) (\<lambda>_. True) sample_load sample_server s"
    "s_clients s sample_scid = Some client"
    using sample_step by blast
  have reach: "(sys_step sample_kernel (scripted sample_start) (\<lambda>_. True) sample_load)\<^sup>*\<^sup>* sample_server s"
    using s(1) by (rule r_into_rtranclp)
  obtain s' where s': "select_arm sample_kernel (scripted sample_start) (\<lambda>_. True) Target_Payloads s = Some s'"
    by (cases "instant_now sample_kernel (w_trace (s_world s))") simp
  from target_payloads_delivered [OF sample_init reach s' s(2)] reach s' s(2) show ?thesis by blast
qed

section \<open>Relays end\<close>

lemma send_udp_connected_total:
  assumes "unblocks k m"
  shows "\<exists>r t'. send_udp_connected k fd p t = Some (r, t')"
proof (induction "m - spins t" arbitrary: t rule: less_induct)
  case less
  let ?s = "Sendmsg fd None p None"
  show ?case
  proof (cases "k_call k t ?s = Inl EAGAIN")
    case True
    let ?t1 = "t @ [Call ?s (Inl EAGAIN)]"
    have "spins t < m" using True assms unfolding unblocks_def by (metis linorder_not_le)
    have one: "sendmsg_udp_connected k fd p t = (Inl (last_os_error EAGAIN), ?t1)"
      using True by (simp add: sendmsg_udp_connected_def sys_eq)
    show ?thesis
    proof (cases "k_call k ?t1 (Await_Writable fd)")
      case (Inl e)
      with one show ?thesis by (subst send_udp_connected.simps) (simp add: sys_eq)
    next
      case (Inr x)
      let ?t2 = "?t1 @ [Call (Await_Writable fd) (Inr x)]"
      have "spins ?t2 = spins t + 2" by (simp add: spins_def)
      with \<open>spins t < m\<close> have "m - spins ?t2 < m - spins t" by simp
      from less [OF this] Inr one show ?thesis by (subst send_udp_connected.simps) (simp add: sys_eq)
    qed
  next
    case False
    then show ?thesis
      by (subst send_udp_connected.simps, cases "k_call k t ?s") (simp_all add: sendmsg_udp_connected_def sys_eq)
  qed
qed

lemma sender_alive_clients: "s_clients s' = s_clients s \<Longrightarrow> sender_alive s' i = sender_alive s i"
  by (simp add: sender_alive_def)

lemma relay_drains:
  assumes k: "unblocks k m"
  shows "i < length (w_tasks (s_world s)) \<Longrightarrow> \<not> tk_done (w_tasks (s_world s) ! i) \<Longrightarrow> \<not> sender_alive s i \<Longrightarrow>
     tk_inbox (w_tasks (s_world s) ! i) = ps \<Longrightarrow>
     \<exists>s'. (sys_step k q room L)\<^sup>*\<^sup>* s s' \<and> s_clients s' = s_clients s
       \<and> tk_done (w_tasks (s_world s') ! i) \<and> tk_fd (w_tasks (s_world s) ! i) \<notin> open_fds (w_trace (s_world s'))"
proof (induction ps arbitrary: s)
  case Nil
  let ?task = "w_tasks (s_world s) ! i"
  let ?offer = "\<lambda>_. (True, False)"
  obtain s' where s': "relay_step k ?offer i (From_Client None) s = Some s'" "s_clients s' = s_clients s"
    "tk_done (w_tasks (s_world s') ! i)" "tk_fd ?task \<notin> open_fds (w_trace (s_world s'))"
    using Nil(1) by (simp add: relay_step_def target_task_step_def Let_def)
  from sys_step.relay_ends [OF Nil(1,2,4,3) s'(1)] s'(2-) show ?case by blast
next
  case (Cons p ps)
  let ?task = "w_tasks (s_world s) ! i"
  let ?offer = "\<lambda>_. (True, False)"
  obtain r t where "send_udp_connected k (tk_fd ?task) p (w_trace (s_world s)) = Some (r, t)"
    using send_udp_connected_total [OF k] by blast
  then obtain s1 where s1: "relay_step k ?offer i (From_Client (Some p)) s = Some s1" "s_clients s1 = s_clients s"
    "w_tasks (s_world s1) = (w_tasks (s_world s))[i := ?task\<lparr>tk_inbox := ps, tk_done := False\<rparr>]"
    using Cons.prems(4) by (simp add: relay_step_def target_task_step_def Let_def)
  have st: "sys_step k q room L s s1" using sys_step.relay_forwards [OF Cons.prems(1,2,4) s1(1)] .
  have "\<exists>s'. (sys_step k q room L)\<^sup>*\<^sup>* s1 s' \<and> s_clients s' = s_clients s1
       \<and> tk_done (w_tasks (s_world s') ! i) \<and> tk_fd (w_tasks (s_world s1) ! i) \<notin> open_fds (w_trace (s_world s'))"
    using Cons.prems s1 sender_alive_clients [OF s1(2)] by (intro Cons.IH) auto
  with st s1 Cons.prems(1) show ?case by (auto intro: converse_rtranclp_into_rtranclp)
qed

text \<open>C11. No relay outlives its flow: once the flow is gone (closed by the client, swept, or its connection
  reaped), the relay can always run to its end, and then its socket is closed.\<close>

theorem relay_reclaimed:
  assumes "unblocks k m" and "i < length (w_tasks (s_world s))" and "\<not> tk_done (w_tasks (s_world s) ! i)"
    and "\<And>cid client fid fl. s_clients s cid = Some client \<Longrightarrow> c_flows client fid = Some fl \<Longrightarrow> to_target fl \<noteq> i"
  shows "\<exists>s'. (sys_step k q room L)\<^sup>*\<^sup>* s s' \<and> tk_done (w_tasks (s_world s') ! i)
     \<and> tk_fd (w_tasks (s_world s) ! i) \<notin> open_fds (w_trace (s_world s'))"
proof -
  have "\<not> sender_alive s i" using assms(4) by (auto simp: sender_alive_def)
  from relay_drains [OF assms(1-3) this refl] show ?thesis by blast
qed

theorem relay_reclaimed_witness:
  "\<exists>s'. (sys_step calm_kernel (scripted idle_script) (\<lambda>_. True) {})\<^sup>*\<^sup>*
       (sample_server\<lparr>s_world := \<lparr>w_trace = [Call (Udp_Bind any_v4) (Inr 3)], w_tasks = [sample_relay\<lparr>tk_inbox := [[1], [2]]\<rparr>]\<rparr>\<rparr>) s'
     \<and> 3 \<notin> open_fds (w_trace (s_world s'))"
proof -
  let ?s = "sample_server\<lparr>s_world := \<lparr>w_trace = [Call (Udp_Bind any_v4) (Inr 3)], w_tasks = [sample_relay\<lparr>tk_inbox := [[1], [2]]\<rparr>]\<rparr>\<rparr>"
  have "\<exists>s'. (sys_step calm_kernel (scripted idle_script) (\<lambda>_. True) {})\<^sup>*\<^sup>* ?s s' \<and> tk_done (w_tasks (s_world s') ! 0)
     \<and> tk_fd (w_tasks (s_world ?s) ! 0) \<notin> open_fds (w_trace (s_world s'))"
    by (rule relay_reclaimed [OF unblocks_calm]) (simp_all add: sample_relay_def sample_server_def server_new_def)
  then show ?thesis by (auto simp: sample_relay_def)
qed

section \<open>The loop and its timers\<close>

text \<open>The loop over the wake-ups of \<^verbatim>\<open>select!\<close>: how long the iteration waited, the arm that fired and the two
  orders in which the connection table was iterated.  A wake-up that is not ready cannot happen.\<close>

type_synonym wakeup = "duration \<times> scid list \<times> arm \<times> scid list"

fun run_loop :: "kernel \<Rightarrow> ('c, 'h, 'g) quiche \<Rightarrow> (bytes list \<Rightarrow> bool) \<Rightarrow> wakeup list \<Rightarrow> ('c, 'h, 'g) server \<Rightarrow>
    ('c, 'h, 'g) server option" where
  "run_loop k q room [] s = Some s"
| "run_loop k q room ((waited, order, a, order') # rest) s =
     (if arm_ready q order waited s a then do {
        s \<leftarrow> run_iteration k q room order' a s;
        run_loop k q room rest s
      } else None)"

text \<open>The flows of a connection are still there, fed into the same relays and with the same timeouts.\<close>

definition flows_stay :: "(u64 \<rightharpoonup> flow) \<Rightarrow> (u64 \<rightharpoonup> flow) \<Rightarrow> bool" where
  "flows_stay f f' \<longleftrightarrow> (\<forall>fid fl. f fid = Some fl \<longrightarrow>
     (\<exists>fl'. f' fid = Some fl' \<and> to_target fl' = to_target fl \<and> idle_timeout fl' = idle_timeout fl))"

lemma flows_stay_refl [simp]: "flows_stay f f"
  by (simp add: flows_stay_def)

lemma flows_stay_trans: "flows_stay f g \<Longrightarrow> flows_stay g h \<Longrightarrow> flows_stay f h"
  unfolding flows_stay_def by metis

definition conn_stays :: "scid \<Rightarrow> ('c, 'h, 'g) server \<Rightarrow> ('c, 'h, 'g) server \<Rightarrow> bool" where
  "conn_stays cid s s' \<longleftrightarrow> (\<forall>client'. s_clients s' cid = Some client' \<longrightarrow>
     (\<exists>client. s_clients s cid = Some client \<and> flows_stay (c_flows client) (c_flows client')))"

lemma conn_stays_trans: "conn_stays cid s s1 \<Longrightarrow> conn_stays cid s1 s2 \<Longrightarrow> conn_stays cid s s2"
  unfolding conn_stays_def by (meson flows_stay_trans)

lemma on_target_payload_stays: "conn_stays cid s (on_target_payload q tc now s)"
  unfolding conn_stays_def on_target_payload_conn
  by (auto simp: flows_stay_def split: option.splits if_splits)

lemma on_target_payloads_stays: "conn_stays cid s (fold (\<lambda>tc. on_target_payload q tc now) tcs s)"
proof (induction tcs arbitrary: s)
  case (Cons tc tcs)
  from conn_stays_trans [OF on_target_payload_stays Cons] show ?case by simp
qed (simp add: conn_stays_def)

lemma flush_all_stays:
  assumes "flush_all k q order s = Some s'"
  shows "conn_stays cid s s'"
  unfolding conn_stays_def
proof (intro allI impI)
  fix client' assume c: "s_clients s' cid = Some client'"
  have "map_option c_flows (s_clients s' cid) = map_option c_flows (s_clients s cid)"
    using flush_all_relays [OF assms] by blast
  with c show "\<exists>client. s_clients s cid = Some client \<and> flows_stay (c_flows client) (c_flows client')"
    by (cases "s_clients s cid") auto
qed

lemma run_iteration_stays:
  assumes "run_iteration k q room order a s = Some s'" "a = Target_Payloads \<or> a = Conn_Timeout"
  shows "conn_stays cid s s'"
proof -
  from assms(1) obtain s1 s2 where s12: "select_arm k q room a s = Some s1" "flush_all k q order s1 = Some s2" "s' = reap_closed q s2"
    by (rule run_iteration_Some)
  have "conn_stays cid s s1"
    using assms(2)
  proof
    assume "a = Target_Payloads"
    with s12(1) on_target_payloads_stays show ?thesis
      by (fastforce simp: conn_stays_def instant_now_def Let_def)
  next
    assume "a = Conn_Timeout"
    with s12(1) show ?thesis by (auto simp: conn_stays_def on_timeout_all_def)
  qed
  moreover have "conn_stays cid s2 s'" using s12(3) by (auto simp: conn_stays_def reap_closed_def split: if_splits)
  ultimately show ?thesis using flush_all_stays [OF s12(2)] conn_stays_trans by metis
qed

lemma run_loop_stays:
  "run_loop k q room sched s = Some s' \<Longrightarrow>
     (\<And>waited order a order'. (waited, order, a, order') \<in> set sched \<Longrightarrow> a = Target_Payloads \<or> a = Conn_Timeout) \<Longrightarrow>
     conn_stays cid s s'"
proof (induction sched arbitrary: s)
  case (Cons x sched)
  obtain waited order a order' where x: "x = (waited, order, a, order')" by (cases x)
  with Cons.prems(1) obtain s1 where s1: "run_iteration k q room order' a s = Some s1" "run_loop k q room sched s1 = Some s'"
    by (auto simp: bind_eq_Some_conv split: if_splits)
  have "a = Target_Payloads \<or> a = Conn_Timeout" using Cons.prems(2) [of waited order a order'] x by simp
  then have "conn_stays cid s s1" by (rule run_iteration_stays [OF s1(1)])
  moreover have "conn_stays cid s1 s'" using Cons.IH [OF s1(2)] Cons.prems(2) by auto
  ultimately show ?case by (rule conn_stays_trans)
qed (simp add: conn_stays_def)

lemma run_loop_ready:
  "run_loop k q room sched s = Some s' \<Longrightarrow> (waited, order, a, order') \<in> set sched \<Longrightarrow> \<exists>s1. arm_ready q order waited s1 a"
proof (induction sched arbitrary: s)
  case (Cons x sched)
  then show ?case by (cases x) (auto simp: bind_eq_Some_conv split: if_splits)
qed simp


text \<open>A connection with a flow that has been idle for far longer than its timeout, while another flow is answered.\<close>

definition starved_server :: "(script, nat, unit) server" where
  "starved_server = sample_server\<lparr>
     s_clients := [[7] \<mapsto> \<lparr>c_conn = idle_script, c_http3 = Some 0,
        c_flows = [2 \<mapsto> \<lparr>to_target = 0, last_activity = 0, idle_timeout = Some 35\<rparr>], c_peer = SocketV4 9 9\<rparr>],
     s_to_client := [\<lparr>tc_conn_id = [7], tc_flow_id = 3, tc_payload = [1]\<rparr>]\<rparr>"


end
