(* ===== verification/Server_Feed.thy ===== *)
theory Server_Feed
  imports Server_Run
begin

text \<open>
  What waits at a relay.  The datagrams a connection has handed out so far are observed through a function \<open>got\<close> on
  connections; in every state the server can reach, what a flow's relay still has to send is, in order and each at
  most once, among the payloads that came for this flow on this connection.
\<close>

section \<open>Payloads of a flow\<close>

definition payload_on :: "u64 \<Rightarrow> bytes \<Rightarrow> bytes list" where
  "payload_on fid d =
     (case dgram_decode d of
        None \<Rightarrow> []
      | Some p \<Rightarrow> if p_context_id p = CONTEXT_ID_UDP \<and> p_flow_id p = fid then [p_payload p] else [])"

definition payloads_on :: "u64 \<Rightarrow> bytes list \<Rightarrow> bytes list" where
  "payloads_on fid ds = concat (map (payload_on fid) ds)"

lemma payloads_on_simps [simp]:
  "payloads_on fid [] = []" "payloads_on fid (d # ds) = payload_on fid d @ payloads_on fid ds"
  "payloads_on fid (ds @ ds') = payloads_on fid ds @ payloads_on fid ds'"
  by (simp_all add: payloads_on_def)

lemma payloads_on_subseq: "subseq ds ds' \<Longrightarrow> subseq (payloads_on fid ds) (payloads_on fid ds')"
  by (induction rule: list_emb.induct) (auto intro: list_emb_append_mono subseq_order.trans [OF _ list_emb_append2])

section \<open>What a connection has handed out\<close>

text \<open>\<^verbatim>\<open>dgram_recv\<close> is the only call of the server that hands out a datagram.\<close>

definition takes :: "('c, 'h, 'g) quiche \<Rightarrow> ('c \<Rightarrow> bytes list) \<Rightarrow> bool" where
  "takes q got \<longleftrightarrow>
     (\<forall>c n d c'. q_dgram_recv q c n = (Inr d, c') \<longrightarrow> got c' = got c @ [d])
     \<and> (\<forall>c n e c'. q_dgram_recv q c n = (Inl e, c') \<longrightarrow> got c' = got c)
     \<and> (\<forall>c d. got (snd (q_dgram_send q c d)) = got c)
     \<and> (\<forall>c pkt dst src. got (snd (q_recv q c pkt dst src)) = got c)
     \<and> (\<forall>c n. got (snd (q_send q c n)) = got c)
     \<and> (\<forall>c. got (q_on_timeout q c) = got c \<and> got (snd (h3_with_transport q c)) = got c)
     \<and> (\<forall>c sid dir err. got (snd (q_stream_shutdown q c sid dir err)) = got c)
     \<and> (\<forall>h c. got (snd (snd (h3_poll q h c))) = got c)
     \<and> (\<forall>h c sid n. got (snd (snd (h3_recv_body q h c sid n))) = got c)
     \<and> (\<forall>h c sid hs fin. got (snd (snd (h3_send_response q h c sid hs fin))) = got c)"

lemma takesD:
  assumes "takes q got"
  shows "q_dgram_recv q c n = (Inr d, c') \<Longrightarrow> got c' = got c @ [d]" and "q_dgram_recv q c n = (Inl e, c') \<Longrightarrow> got c' = got c"
    and "got (snd (q_dgram_send q c d)) = got c" and "q_recv q c pkt dst src = (x1, c') \<Longrightarrow> got c' = got c"
    and "q_send q c n = (x2, c') \<Longrightarrow> got c' = got c" and "got (q_on_timeout q c) = got c"
    and "h3_with_transport q c = (x3, c') \<Longrightarrow> got c' = got c" and "got (snd (q_stream_shutdown q c sid dir err)) = got c"
    and "h3_poll q h c = (x4, h', c') \<Longrightarrow> got c' = got c" and "h3_recv_body q h c sid n = (x5, h', c') \<Longrightarrow> got c' = got c"
    and "h3_send_response q h c sid hs fin = (x6, h', c') \<Longrightarrow> got c' = got c"
  using assms unfolding takes_def by (metis snd_conv)+

lemma takes_scripted: "takes (scripted_for start) sc_taken"
  by (auto simp: takes_def scripted_for_def split: list.splits if_splits)

section \<open>Relays are fed by their own flow\<close>

definition fed :: "bytes list \<Rightarrow> (u64 \<rightharpoonup> flow) \<times> world \<Rightarrow> bool" where
  "fed ds fw \<longleftrightarrow> (\<forall>fid fl. fst fw fid = Some fl \<longrightarrow> subseq (tk_inbox (w_tasks (snd fw) ! to_target fl)) (payloads_on fid ds))"

lemma fed_empty [simp]: "fed ds (Map.empty, w)"
  by (simp add: fed_def)

lemma fed_trace [simp]: "fed ds (flows, w\<lparr>w_trace := t\<rparr>) = fed ds (flows, w)"
  by (simp add: fed_def)

lemma fed_le:
  assumes "fed ds (flows, w)" "\<And>fid fl'. flows' fid = Some fl' \<Longrightarrow> \<exists>fl. flows fid = Some fl \<and> to_target fl' = to_target fl"
  shows "fed ds (flows', w)"
  using assms by (fastforce simp: fed_def)

lemma fed_remove: "fed ds (flows, w) \<Longrightarrow> fed ds (flows(fid := None), w)"
  by (rule fed_le) (auto split: if_splits)

lemma fed_world:
  assumes "fed ds (flows, w)" "\<And>fid fl. flows fid = Some fl \<Longrightarrow>
     subseq (tk_inbox (w_tasks w' ! to_target fl)) (tk_inbox (w_tasks w ! to_target fl))"
  shows "fed ds (flows, w')"
  using assms unfolding fed_def by (metis fst_conv snd_conv subseq_order.trans)

lemma deliver_datagram_fed:
  assumes "fed ds (flows, w)" "flows_paired cid w flows" and d: "deliver_datagram room now d (flows, w) = (flows', w')"
  shows "fed (ds @ [d]) (flows', w')"
  unfolding fed_def
proof (intro allI impI)
  fix fid fl' assume f: "fst (flows', w') fid = Some fl'"
  then obtain fl where fl: "flows fid = Some fl" "to_target fl' = to_target fl"
    using d by (auto simp: deliver_datagram_def split: option.splits if_splits)
  then have pr: "flow_paired cid w fid fl" using assms(2) by (simp add: flows_paired_def)
  have old: "subseq (tk_inbox (w_tasks w ! to_target fl)) (payloads_on fid ds)" using assms(1) fl by (simp add: fed_def)
  have "tk_inbox (w_tasks w' ! to_target fl) = tk_inbox (w_tasks w ! to_target fl)
      \<or> tk_inbox (w_tasks w' ! to_target fl) = tk_inbox (w_tasks w ! to_target fl) @ payload_on fid d"
    using client_datagram_isolated [OF assms(2) d, of "to_target fl"] pr by (auto simp: flow_paired_def payload_on_def)
  with old fl(2) show "subseq (tk_inbox (w_tasks (snd (flows', w')) ! to_target fl')) (payloads_on fid (ds @ [d]))"
    by (auto intro: list_emb_append_mono subseq_order.trans [OF _ prefix_imp_subseq])
qed

section \<open>One connection\<close>

lemma drain_loop_fed:
  "drain_loop q room now c fw = Some y \<Longrightarrow> takes q got \<Longrightarrow> fed (got c) fw \<Longrightarrow> flows_paired cid (snd fw) (fst fw) \<Longrightarrow>
     fed (got (fst y)) (snd y)"
proof (induction rule: drain_loop.raw_induct [rotated, consumes 1, case_names step])
  case (step f q room now c fw y)
  obtain flows w where fw: "fw = (flows, w)" by force
  obtain r c1 where d: "q_dgram_recv q c MAX_DATAGRAM_SIZE = (r, c1)" by force
  show ?case
  proof (cases r)
    case (Inl e)
    with step.hyps d have "y = (c1, fw)" by simp
    with step.prems(2) takesD(2) [OF step.prems(1) d [unfolded Inl]] show ?thesis by simp
  next
    case (Inr b)
    obtain flows1 w1 where one: "deliver_datagram room now b (flows, w) = (flows1, w1)" by force
    have "f q room now c1 (flows1, w1) = Some y" using step.hyps d Inr fw one by simp
    moreover have "fed (got c1) (flows1, w1)"
      using deliver_datagram_fed [OF _ _ one, of "got c" cid] step.prems(2,3) fw takesD(1) [OF step.prems(1) d [unfolded Inr]] by simp
    moreover have "flows_paired cid w1 flows1"
      using deliver_datagram_step [of "{}" cid "(flows, w)" room now b] one step.prems(3) fw by (simp add: session_step_def)
    ultimately show ?thesis using step.IH step.prems(1) by simp
  qed
qed

lemma drain_body_got: "drain_body q sid h c = Some y \<Longrightarrow> takes q got \<Longrightarrow> got (snd y) = got c"
proof (induction rule: drain_body.raw_induct [rotated, consumes 1, case_names step])
  case (step f q sid h c y)
  obtain r h1 c1 where b: "h3_recv_body q h c sid 4096 = (r, h1, c1)" by (metis prod_cases3)
  have c1: "got c1 = got c" using takesD(10) [OF step.prems b] .
  have "y = (h1, c1) \<or> f q sid h1 c1 = Some y" using step.hyps b by (auto split: sum.splits if_splits)
  moreover have "got (snd y) = got c1" if "f q sid h1 c1 = Some y" using step.IH [OF that step.prems] .
  ultimately show ?case using c1 by auto
qed

lemma handle_connect_request_fed:
  assumes q: "takes q got" and r: "handle_connect_request k q tbl addr cid sid hs (c, h, flows, w) = (c', h', flows', w')"
    and f: "fed (got c) (flows, w)" "flows_paired cid w flows"
  shows "fed (got c') (flows', w')"
proof (cases "refusal k tbl addr hs (w_trace w)")
  case (Some status)
  with handle_connect_refused [OF Some, of q cid sid c h flows] r takesD(11) [OF q] f(1) show ?thesis
    by (cases "h3_send_response q h c sid (status_headers status) True") auto
next
  case None
  obtain task now idle where a: "w_tasks w' = w_tasks w @ [task]" "tk_inbox task = []"
    "(h', c') = snd (h3_send_response q h c sid accept_headers False)"
    and fl: "flows' = flows(sid div 4 := (case fst (h3_send_response q h c sid accept_headers False) of Inl _ \<Rightarrow> None
       | Inr _ \<Rightarrow> Some \<lparr>to_target = length (w_tasks w), last_activity = now, idle_timeout = idle\<rparr>))"
    using handle_connect_accepted [OF None r] by (elim exE conjE) (rule that)
  have c': "got c' = got c"
    using a(3) takesD(11) [OF q, of h c sid accept_headers False] by (cases "h3_send_response q h c sid accept_headers False") auto
  have old: "w_tasks w' ! to_target f = w_tasks w ! to_target f" if "flows fid = Some f" for fid f
    using that f(2) a(1) by (auto simp: flows_paired_def flow_paired_def nth_append)
  then have "fed (got c) (flows, w')" using fed_world [OF f(1), of w'] by simp
  with fl a(1,2) c' show ?thesis by (auto simp: fed_def nth_append split: sum.splits)
qed

lemma handle_event_fed:
  assumes q: "takes q got" and e: "handle_event k q tbl addr cid sid ev (c, h, flows, w) = Some (c', h', flows', w')"
    and f: "fed (got c) (flows, w)" "flows_paired cid w flows"
  shows "fed (got c') (flows', w')"
proof (cases ev)
  case (Headers hs)
  with e have "handle_connect_request k q tbl addr cid sid hs (c, h, flows, w) = (c', h', flows', w')" by simp
  from handle_connect_request_fed [OF q this f] show ?thesis .
next
  case Data
  with e obtain h1 where "drain_body q sid h c = Some (h1, c')" "flows' = flows" "w' = w" by auto
  with drain_body_got [OF this(1) q] f(1) show ?thesis by simp
qed (use e f(1) in \<open>auto intro: fed_remove\<close>)

lemma poll_loop_fed:
  "poll_loop k q tbl addr cid st = Some st' \<Longrightarrow> takes q got \<Longrightarrow> fed (got (fst st)) (snd (snd st)) \<Longrightarrow>
     flows_paired cid (snd (snd (snd st))) (fst (snd (snd st))) \<Longrightarrow> fed (got (fst st')) (snd (snd st'))"
proof (induction rule: poll_loop.raw_induct [rotated, consumes 1, case_names step])
  case (step f k q tbl addr cid st st')
  obtain c h flows w where st: "st = (c, h, flows, w)" by (cases st)
  obtain r h1 c1 where p: "h3_poll q h c = (r, h1, c1)" by (metis prod_cases3)
  have c1: "got c1 = got c" using takesD(9) [OF step.prems(1) p] .
  show ?case
  proof (cases r)
    case (Inl e)
    with step.hyps st p have "st' = (c1, h1, flows, w)" by simp
    with step.prems(2) st c1 show ?thesis by simp
  next
    case (Inr e)
    obtain sid ev where e: "e = (sid, ev)" by force
    then obtain st1 where st1: "handle_event k q tbl addr cid sid ev (c1, h1, flows, w) = Some st1" "f k q tbl addr cid st1 = Some st'"
      using step.hyps st p Inr by (auto simp: bind_eq_Some_conv)
    obtain c2 h2 flows2 w2 where st2: "st1 = (c2, h2, flows2, w2)" by (cases st1)
    note ev = st1(1) [unfolded st2]
    have "fed (got c2) (flows2, w2)" using handle_event_fed [OF step.prems(1) ev] step.prems(2,3) st c1 by simp
    moreover have "flows_paired cid w2 flows2" using handle_event_step [OF ev order_refl] step.prems(3) st by (simp add: session_step_def)
    ultimately show ?thesis using step.IH [OF st1(2) step.prems(1)] st2 by simp
  qed
qed

abbreviation client_fed :: "('c \<Rightarrow> bytes list) \<Rightarrow> world \<Rightarrow> ('c, 'h) client \<Rightarrow> bool" where
  "client_fed got w client \<equiv> fed (got (c_conn client)) (c_flows client, w)"

lemma serve_session_fed:
  assumes q: "takes q got" and s: "serve_session k q room tbl addr cid (c, h, flows, w) = Some (c', h', flows', w')"
    and f: "fed (got c) (flows, w)" "flows_paired cid w flows"
  shows "fed (got c') (flows', w')"
proof -
  from s obtain c1 h1 flows1 w1 where p: "poll_loop k q tbl addr cid (c, h, flows, w) = Some (c1, h1, flows1, w1)"
    by (auto simp: serve_session_def bind_eq_Some_conv)
  with s obtain now t where d: "drain_loop q room now c1 (flows1, w1\<lparr>w_trace := t\<rparr>) = Some (c', flows', w')"
    by (auto simp: serve_session_def drain_client_datagrams_def bind_eq_Some_conv split: prod.splits)
  have "flows_paired cid w1 flows1" using poll_loop_step [OF p order_refl] f(2) by (simp add: session_step_def)
  then have "flows_paired cid (w1\<lparr>w_trace := t\<rparr>) flows1" by (simp add: flows_paired_def flow_paired_def)
  with drain_loop_fed [OF d q, of cid] poll_loop_fed [OF p q] f show ?thesis by simp
qed

lemma process_client_fed:
  assumes q: "takes q got" and p: "process_client k q room tbl cid client w = Some (client', w')"
    and f: "client_fed got w client" "flows_paired cid w (c_flows client)"
  shows "client_fed got w' client'"
proof (cases "q_is_established q (c_conn client) \<or> q_is_in_early_data q (c_conn client)")
  case True
  let ?r = "case c_http3 client of Some h \<Rightarrow> (Inr h, c_conn client) | None \<Rightarrow> h3_with_transport q (c_conn client)"
  obtain r c where r: "?r = (r, c)" by force
  have c: "got c = got (c_conn client)" using r takesD(7) [OF q] by (auto split: option.splits)
  show ?thesis
  proof (cases r)
    case (Inl e)
    with p True r c f(1) show ?thesis by (auto simp: process_client_def)
  next
    case (Inr h)
    with p True r obtain c' h' flows' where
      s: "serve_session k q room tbl (c_peer client) cid (c, h, c_flows client, w) = Some (c', h', flows', w')"
      and "client' = client\<lparr>c_conn := c', c_http3 := Some h', c_flows := flows'\<rparr>"
      by (auto simp: process_client_def bind_eq_Some_conv)
    with serve_session_fed [OF q s] c f show ?thesis by simp
  qed
qed (use p f(1) in \<open>simp add: process_client_def\<close>)

section \<open>Every reachable state\<close>

definition server_fed :: "('c \<Rightarrow> bytes list) \<Rightarrow> ('c, 'h, 'g) server \<Rightarrow> bool" where
  "server_fed got s \<longleftrightarrow> (\<forall>cid client. s_clients s cid = Some client \<longrightarrow> client_fed got (s_world s) client)"

lemma server_fedD: "server_fed got s \<Longrightarrow> s_clients s cid = Some client \<Longrightarrow> client_fed got (s_world s) client"
  by (simp add: server_fed_def)

lemma server_fed_trace [simp]: "server_fed got (set_trace t s) = server_fed got s"
  by (simp add: server_fed_def set_trace_def)

lemma server_fed_conn: "server_fed got s \<Longrightarrow> client_fed got (s_world s) client' \<Longrightarrow> server_fed got (s\<lparr>s_clients := (s_clients s)(cid \<mapsto> client')\<rparr>)"
  by (auto simp: server_fed_def)

lemma server_fed_clients:
  assumes "server_fed got s" "\<And>cid client'. clients cid = Some client' \<Longrightarrow> \<exists>client. s_clients s cid = Some client
       \<and> (client_fed got (s_world s) client \<longrightarrow> client_fed got (s_world s) client')"
  shows "server_fed got (s\<lparr>s_clients := clients\<rparr>)"
  using assms by (fastforce simp: server_fed_def)

text \<open>Replacing one connection and the world it acted on: the relays of the others are as they were.\<close>

lemma server_fed_update:
  assumes f: "server_fed got s" and inv: "server_inv R s" and o: "others_kept cid (s_world s) w'" and c: "client_fed got w' client'"
  shows "server_fed got (s\<lparr>s_clients := (s_clients s)(cid \<mapsto> client'), s_world := w'\<rparr>)"
proof -
  have "client_fed got w' client2" if c2: "s_clients s cid2 = Some client2" "cid2 \<noteq> cid" for cid2 client2
  proof (rule fed_world [OF server_fedD [OF f c2(1)]])
    fix fid fl assume "c_flows client2 fid = Some fl"
    then have "flow_paired cid2 (s_world s) fid fl" using server_inv_client(1) [OF inv c2(1)] by (simp add: client_ok_def flows_paired_def)
    with o c2(2) show "subseq (tk_inbox (w_tasks w' ! to_target fl)) (tk_inbox (w_tasks (s_world s) ! to_target fl))"
      by (simp add: others_kept_def flow_paired_def)
  qed
  with c show ?thesis by (simp add: server_fed_def)
qed

lemma deliver_packet_fed:
  assumes q: "takes q got" and inv: "server_inv R s" and f: "server_fed got s" and d: "deliver_packet k q room cid pkt from s = Some s'"
  shows "server_fed got s'"
proof -
  from d obtain client where c: "s_clients s cid = Some client" by (auto simp: deliver_packet_def bind_eq_Some_conv)
  obtain r conn where r: "q_recv q (c_conn client) pkt (s_local_addr s) from = (r, conn)" by force
  note ok = server_inv_client(1) [OF inv c] and fc = server_fedD [OF f c] and conn = takesD(4) [OF q r]
  show ?thesis
  proof (cases r)
    case (Inl e)
    with d c r have "s' = s\<lparr>s_clients := (s_clients s)(cid \<mapsto> client\<lparr>c_peer := from, c_conn := conn\<rparr>)\<rparr>" by (simp add: deliver_packet_def)
    with server_fed_conn [OF f] fc conn show ?thesis by simp
  next
    case (Inr n)
    with d c r obtain client' w' where
      p: "process_client k q room (s_rules s) cid (client\<lparr>c_peer := from, c_conn := conn\<rparr>) (s_world s) = Some (client', w')"
      and s': "s' = s\<lparr>s_clients := (s_clients s)(cid \<mapsto> client'), s_world := w'\<rparr>"
      by (auto simp: deliver_packet_def bind_eq_Some_conv)
    have "client_fed got w' client'" using process_client_fed [OF q p] fc conn ok by (simp add: client_ok_def)
    moreover have "others_kept cid (s_world s) w'" using deliver_packet_effect(4) [OF d inv] s' by simp
    ultimately show ?thesis using server_fed_update [OF f inv] s' by simp
  qed
qed

lemma on_packet_fed:
  assumes q: "takes q got" and p: "on_packet k q room scid pkt from s = Some s'" and inv: "server_inv R s"
    and len: "length scid = LOCAL_CONN_ID_LEN" and f: "server_fed got s"
  shows "server_fed got s'"
  using p
proof (cases rule: on_packet_cases)
  case (negotiate hdr)
  from send_version_negotiation_effect [OF this] f show ?thesis by auto
next
  case (routed hdr cid)
  from deliver_packet_fed [OF q inv f routed(3)] show ?thesis .
next
  case (accepted hdr cid s1)
  have "server_fed got s1" using accepted(3) f by (auto simp: accept_def server_fed_def split: sum.splits if_splits)
  from deliver_packet_fed [OF q accept_inv(1) [OF inv accepted(3) len] this accepted(4)] show ?thesis .
qed (use f in simp)

lemma on_packets_fed:
  assumes q: "takes q got"
  shows "on_packets k q room pkts s = Some s' \<Longrightarrow> server_inv R s \<Longrightarrow> server_fed got s \<Longrightarrow>
     (\<And>p. p \<in> set pkts \<Longrightarrow> length (fst p) = LOCAL_CONN_ID_LEN) \<Longrightarrow> server_fed got s'"
proof (induction pkts arbitrary: s)
  case (Cons p pkts)
  obtain scid pkt addr where p: "p = (scid, pkt, addr)" by (cases p)
  with Cons.prems obtain s1 where s1: "on_packet k q room scid pkt addr s = Some s1" "on_packets k q room pkts s1 = Some s'"
    by (auto simp: bind_eq_Some_conv)
  have len: "length scid = LOCAL_CONN_ID_LEN" using Cons.prems(4) p by force
  from Cons.IH [OF s1(2) on_packet_inv [OF s1(1) Cons.prems(2) len] on_packet_fed [OF q s1(1) Cons.prems(2) len Cons.prems(3)]]
    Cons.prems(4) show ?case by simp
qed simp

lemma on_target_payload_fed:
  assumes q: "takes q got" and f: "server_fed got s"
  shows "server_fed got (on_target_payload q tc now s)"
proof (cases "s_clients s (tc_conn_id tc)")
  case (Some client)
  let ?flows = "case c_flows client (tc_flow_id tc) of None \<Rightarrow> c_flows client
     | Some fl \<Rightarrow> (c_flows client)(tc_flow_id tc \<mapsto> fl\<lparr>last_activity := now\<rparr>)"
  have "fed (got (c_conn client)) (?flows, s_world s)"
    by (rule fed_le [OF server_fedD [OF f Some]]) (auto split: option.splits if_splits)
  then have "client_fed got (s_world s) (client\<lparr>c_conn := snd (q_dgram_send q (c_conn client) d), c_flows := ?flows\<rparr>)" for d
    by (simp add: takesD(3) [OF q])
  from server_fed_conn [OF f this] Some show ?thesis by (simp add: on_target_payload_def Let_def)
qed (use f in \<open>simp add: on_target_payload_def\<close>)

lemma on_target_payloads_fed:
  "takes q got \<Longrightarrow> server_fed got s \<Longrightarrow> server_fed got (fold (\<lambda>tc. on_target_payload q tc now) tcs s)"
  by (induction tcs arbitrary: s) (simp_all add: on_target_payload_fed)

lemma close_flows_fed:
  assumes q: "takes q got"
  shows "client_fed got w client \<Longrightarrow> client_fed got w (close_flows q fids client)"
proof (induction fids arbitrary: client)
  case (Cons fid fids)
  let ?sh = "\<lambda>dir c. snd (q_stream_shutdown q c (fid * 4) dir 0x100)"
  have "client_fed got w (client\<lparr>c_conn := ?sh Shutdown_Read (?sh Shutdown_Write (c_conn client)), c_flows := (c_flows client)(fid := None)\<rparr>)"
    using fed_remove [OF Cons.prems] by (simp add: takesD(8) [OF q])
  from Cons.IH [OF this] show ?case by (simp add: Let_def)
qed simp

lemma flush_all_fed:
  assumes q: "takes q got"
  shows "flush_all k q order s = Some s' \<Longrightarrow> server_fed got s \<Longrightarrow> server_fed got s'"
proof (induction order arbitrary: s)
  case (Cons cid order)
  show ?case
  proof (cases "s_clients s cid")
    case (Some client)
    with Cons.prems(1) obtain r c t where f: "flush_connection k q (s_socket s) (c_conn client) (w_trace (s_world s)) = Some (r, c, t)"
      and rest: "flush_all k q order (set_trace t (s\<lparr>s_clients := (s_clients s)(cid \<mapsto> client\<lparr>c_conn := c\<rparr>)\<rparr>)) = Some s'"
      by (auto simp: bind_eq_Some_conv)
    have "got c = got (c_conn client)" using flush_connection_keeps [where obs = got, OF f takesD(5) [OF q]] .
    then have "server_fed got (s\<lparr>s_clients := (s_clients s)(cid \<mapsto> client\<lparr>c_conn := c\<rparr>)\<rparr>)"
      using server_fed_conn [OF Cons.prems(2)] server_fedD [OF Cons.prems(2) Some] by simp
    with Cons.IH [OF rest] show ?thesis by simp
  qed (use Cons in simp)
qed simp

lemma reap_closed_fed: "server_fed got s \<Longrightarrow> server_fed got (reap_closed q s)"
  by (auto simp: server_fed_def reap_closed_def)

lemma select_arm_fed:
  assumes q: "takes q got" and f: "server_fed got s" and inv: "server_inv R s" and a: "arm_ready q order waited s a"
    and s: "select_arm k q room a s = Some s'"
  shows "server_fed got s'"
proof (cases a)
  case (Packets pkts)
  with a have "length (fst p) = LOCAL_CONN_ID_LEN" if "p \<in> set pkts" for p using that by auto
  with Packets s on_packets_fed [OF q _ inv f, of k room pkts s'] show ?thesis by simp
next
  case Target_Payloads
  let ?now = "k_now k (w_trace (s_world s))"
  have "server_fed got (fold (\<lambda>tc. on_target_payload q tc ?now) (s_to_client s) (set_trace t s))" for t
    using on_target_payloads_fed [OF q] f by simp
  with Target_Payloads s show ?thesis by (auto simp: instant_now_def Let_def server_fed_def)
next
  case Conn_Timeout
  have "server_fed got (on_timeout_all q s)"
    unfolding on_timeout_all_def by (rule server_fed_clients [OF f]) (auto simp: takesD(6) [OF q])
  with Conn_Timeout s show ?thesis by simp
next
  case (Sweep flow_order)
  have "server_fed got (s\<lparr>s_clients := (\<lambda>cid. map_option (sweep_client q now (flow_order cid)) (s_clients s cid))\<rparr>)" for now
    by (rule server_fed_clients [OF f]) (auto simp: sweep_client_def Let_def intro: close_flows_fed [OF q])
  with Sweep s show ?thesis by (auto simp: sweep_idle_flows_def split: prod.splits)
qed

lemma relay_step_fed:
  assumes f: "server_fed got s" and inv: "server_inv R s" and i: "i < length (w_tasks (s_world s))" and r: "relay_step k offer i wake s = Some s'"
  shows "server_fed got s'"
proof -
  have "subseq (tk_inbox (w_tasks (s_world s') ! j)) (tk_inbox (w_tasks (s_world s) ! j))" if "j < length (w_tasks (s_world s))" for j
    using r i that by (cases "tk_inbox (w_tasks (s_world s) ! i)")
      (auto simp: relay_step_def Let_def bind_eq_Some_conv nth_list_update split: target_wake.split option.split)
  moreover have "s_clients s' = s_clients s" "length (w_tasks (s_world s')) = length (w_tasks (s_world s))"
    using r by (auto simp: relay_step_def Let_def bind_eq_Some_conv)
  moreover have "to_target fl < length (w_tasks (s_world s))" if "s_clients s cid = Some client" "c_flows client fid = Some fl" for cid client fid fl
    using server_inv_client(1) [OF inv that(1)] that(2) by (simp add: client_ok_def flows_paired_def flow_paired_def)
  ultimately have "client_fed got (s_world s') client" if "s_clients s cid = Some client" for cid client
    using that by (intro fed_world [OF server_fedD [OF f that]]) blast
  with \<open>s_clients s' = s_clients s\<close> show ?thesis by (simp add: server_fed_def)
qed

lemma sys_step_fed:
  assumes "sys_step k q room L s s'" "takes q got" "serving_inv L s" "server_fed got s"
  shows "server_fed got s'"
proof -
  have inv: "server_inv (loaded_rules L) s" using assms(3) by (simp add: serving_inv_def)
  from assms(1) show ?thesis
  proof cases
    case (iteration order waited a s1 order')
    from iteration(5) obtain s2 where s2: "flush_all k q order' s1 = Some s2" "s' = reap_closed q s2"
      using iteration(3) by (auto elim!: run_iteration_Some simp del: flush_all.simps)
    from flush_all_fed [OF assms(2) s2(1) select_arm_fed [OF assms(2,4) inv iteration(2,3)]] s2(2) show ?thesis
      by (simp add: reap_closed_fed)
  next
    case (reload cfg tbl)
    with assms(4) show ?thesis by (simp add: server_fed_def install_reload_def)
  qed (use relay_step_fed [OF assms(4) inv] in blast)+
qed

interpretation feed: invariant_system "server_init L" "sys_step k q room L" "\<lambda>s. serving_inv L s \<and> (takes q got \<longrightarrow> server_fed got s)"
  for L :: "('g \<times> rule_table) set" and k and q :: "('c, 'h, 'g) quiche" and room and got :: "'c \<Rightarrow> bytes list"
proof unfold_locales
  fix s :: "('c, 'h, 'g) server"
  assume i: "server_init L s"
  then have "server_fed got s" by (auto simp: server_init_def server_new_def server_fed_def)
  with server_init_inv [OF i] show "serving_inv L s \<and> (takes q got \<longrightarrow> server_fed got s)" by simp
qed (auto intro: sys_step_inv sys_step_fed)

text \<open>In every reachable state, what a relay still has to send came for its flow on its connection.\<close>

lemma reach_fed:
  assumes "server_init L s0" "(sys_step k q room L)\<^sup>*\<^sup>* s0 s" "takes q got" "s_clients s cid = Some client" "c_flows client fid = Some fl"
  shows "subseq (tk_inbox (w_tasks (s_world s) ! to_target fl)) (payloads_on fid (got (c_conn client)))"
  using feed.reach_inv [OF assms(1,2), of got] assms(3-5) by (auto simp: server_fed_def fed_def)

end
