(* ===== verification/Ech_Config.thy ===== *)
theory Ech_Config
  imports Prelude "HOL-Library.Monad_Syntax"
begin

text \<open>
  The ECHConfig wire format, \<^verbatim>\<open>src/src/ech/config.rs\<close>: a byte reader with a cursor, the encoder of a
  configuration and of a configuration list, and the decoder.  The encoder's \<^verbatim>\<open>expect\<close> calls abort the
  process on an oversized field; \<^const>\<open>None\<close> stands for that abort.
\<close>

section \<open>Definitions\<close>

definition ECH_CONFIG_VERSION_V18 :: u16 where
  "ECH_CONFIG_VERSION_V18 = 0xfe0d"

definition HPKE_KEM_DHKEM_X25519 :: u16 where
  "HPKE_KEM_DHKEM_X25519 = 0x0020"

definition HPKE_KDF_HKDF_SHA256 :: u16 where
  "HPKE_KDF_HKDF_SHA256 = 0x0001"

definition HPKE_AEAD_AES_128_GCM :: u16 where
  "HPKE_AEAD_AES_128_GCM = 0x0001"

record cipher_suite =
  kdf_id :: u16
  aead_id :: u16

record ech_config =
  config_id :: u8
  kem_id :: u16
  public_key :: bytes
  cipher_suites :: "cipher_suite list"
  maximum_name_length :: u8
  public_name :: string

datatype ech_error =
    Short_Read nat
  | Unsupported_Version u16
  | Invalid_Suites_Length
  | Name_Not_Utf8
  | Trailing_Bytes

subsection \<open>The reader\<close>

record reader =
  rd_buf :: bytes
  rd_pos :: nat

definition reader_new :: "bytes \<Rightarrow> reader" where
  "reader_new buf = \<lparr>rd_buf = buf, rd_pos = 0\<rparr>"

definition remaining :: "reader \<Rightarrow> nat" where
  "remaining r = length (rd_buf r) - rd_pos r"

definition is_empty :: "reader \<Rightarrow> bool" where
  "is_empty r \<longleftrightarrow> remaining r = 0"

definition read_u8 :: "reader \<Rightarrow> ech_error + u8 \<times> reader" where
  "read_u8 r =
     (if remaining r < 1 then Inl (Short_Read 1)
      else Inr (rd_buf r ! rd_pos r, r\<lparr>rd_pos := rd_pos r + 1\<rparr>))"

definition read_u16 :: "reader \<Rightarrow> ech_error + u16 \<times> reader" where
  "read_u16 r =
     (if remaining r < 2 then Inl (Short_Read 2)
      else Inr (from_be_bytes [rd_buf r ! rd_pos r, rd_buf r ! (rd_pos r + 1)],
                r\<lparr>rd_pos := rd_pos r + 2\<rparr>))"

definition read_u24 :: "reader \<Rightarrow> ech_error + u32 \<times> reader" where
  "read_u24 r =
     (if remaining r < 3 then Inl (Short_Read 3)
      else Inr (from_be_bytes [0, rd_buf r ! rd_pos r, rd_buf r ! (rd_pos r + 1),
                  rd_buf r ! (rd_pos r + 2)],
                r\<lparr>rd_pos := rd_pos r + 3\<rparr>))"

definition read_slice :: "reader \<Rightarrow> nat \<Rightarrow> ech_error + bytes \<times> reader" where
  "read_slice r n =
     (if remaining r < n then Inl (Short_Read n)
      else Inr (slice (rd_buf r) (rd_pos r) (rd_pos r + n), r\<lparr>rd_pos := rd_pos r + n\<rparr>))"

subsection \<open>Encoding\<close>

definition encode_suite :: "cipher_suite \<Rightarrow> bytes" where
  "encode_suite cs = to_be_bytes 2 (kdf_id cs) @ to_be_bytes 2 (aead_id cs)"

definition ech_config_encode :: "ech_config \<Rightarrow> bytes option" where
  "ech_config_encode self = do {
     let contents = [config_id self] @ to_be_bytes 2 (kem_id self);
     pk_len \<leftarrow> (try_from_len (length (public_key self)) :: u16 option);
     let contents = contents @ to_be_bytes 2 pk_len @ public_key self;
     cs_bytes_len \<leftarrow> (try_from_len (length (cipher_suites self) * 4) :: u16 option);
     let contents = contents @ to_be_bytes 2 cs_bytes_len
       @ concat (map encode_suite (cipher_suites self));
     let contents = contents @ [maximum_name_length self];
     let pn_bytes = as_bytes (public_name self);
     pn_len \<leftarrow> (try_from_len (length pn_bytes) :: u8 option);
     let contents = contents @ [pn_len] @ pn_bytes @ [0, 0];
     contents_len \<leftarrow> (try_from_len (length contents) :: u16 option);
     Some (to_be_bytes 2 ECH_CONFIG_VERSION_V18 @ to_be_bytes 2 contents_len @ contents)
   }"

fun encode_configs :: "ech_config list \<Rightarrow> bytes \<Rightarrow> bytes option" where
  "encode_configs [] body = Some body"
| "encode_configs (c # cs) body = do {
     b \<leftarrow> ech_config_encode c;
     encode_configs cs (body @ b)
   }"

definition encode_list :: "ech_config list \<Rightarrow> bytes option" where
  "encode_list configs = do {
     body \<leftarrow> encode_configs configs [];
     body_len \<leftarrow> (try_from_len (length body) :: u16 option);
     Some (to_be_bytes 2 body_len @ body)
   }"

subsection \<open>Decoding\<close>

function decode_suites :: "reader \<Rightarrow> cipher_suite list \<Rightarrow> ech_error + cipher_suite list" where
  "decode_suites csr acc =
     (if is_empty csr then Inr acc
      else (case read_u16 csr of
              Inl e \<Rightarrow> Inl e
            | Inr (kdf, csr1) \<Rightarrow>
                (case read_u16 csr1 of
                   Inl e \<Rightarrow> Inl e
                 | Inr (aead, csr2) \<Rightarrow>
                     decode_suites csr2 (acc @ [\<lparr>kdf_id = kdf, aead_id = aead\<rparr>]))))"
  by pat_completeness auto
termination
  by (relation "measure (\<lambda>(csr, acc). remaining csr)")
    (auto simp: read_u16_def remaining_def split: if_splits)

declare decode_suites.simps [simp del]

definition ech_config_decode_from :: "reader \<Rightarrow> ech_error + ech_config \<times> reader" where
  "ech_config_decode_from r =
     and_then (read_u16 r) (\<lambda>(version, r).
     and_then (read_u16 r) (\<lambda>(contents_len, r).
     and_then (read_slice r (unat contents_len)) (\<lambda>(contents, r).
     if version \<noteq> ECH_CONFIG_VERSION_V18 then Inl (Unsupported_Version version) else
     (let cr = reader_new contents in
     and_then (read_u8 cr) (\<lambda>(cfg_id, cr).
     and_then (read_u16 cr) (\<lambda>(kem, cr).
     and_then (read_u16 cr) (\<lambda>(pk_len, cr).
     and_then (read_slice cr (unat pk_len)) (\<lambda>(pk, cr).
     and_then (read_u16 cr) (\<lambda>(cs_bytes_len, cr).
     if \<not> 4 dvd unat cs_bytes_len \<or> unat cs_bytes_len = 0 then Inl Invalid_Suites_Length else
     and_then (read_slice cr (unat cs_bytes_len)) (\<lambda>(cs_bytes, cr).
     and_then (decode_suites (reader_new cs_bytes) []) (\<lambda>suites.
     and_then (read_u8 cr) (\<lambda>(max_name, cr).
     and_then (read_u8 cr) (\<lambda>(pn_len, cr).
     and_then (read_slice cr (unat pn_len)) (\<lambda>(pn_bytes, cr).
     and_then (ok_or Name_Not_Utf8 (from_utf8 pn_bytes)) (\<lambda>name.
     and_then (read_u16 cr) (\<lambda>(ext_len, cr).
     and_then (read_slice cr (unat ext_len)) (\<lambda>(ext_bytes, cr).
       Inr (\<lparr>config_id = cfg_id, kem_id = kem, public_key = pk, cipher_suites = suites,
             maximum_name_length = max_name, public_name = name\<rparr>, r))))))))))))))))))"

definition ech_config_decode :: "bytes \<Rightarrow> ech_error + ech_config" where
  "ech_config_decode bs =
     and_then (ech_config_decode_from (reader_new bs)) (\<lambda>(cfg, r).
       if \<not> is_empty r then Inl Trailing_Bytes else Inr cfg)"

section \<open>The reader as a byte source\<close>

text \<open>
  What the parsers rely on: a reader stands for the bytes it has not consumed (\<open>view\<close>), and each read
  either takes its bytes from the front of the view or, if there are too few, fails.
\<close>

locale byte_source =
  fixes view :: "'r \<Rightarrow> bytes"
    and adv :: "nat \<Rightarrow> 'r \<Rightarrow> 'r"
    and get8 :: "'r \<Rightarrow> ech_error + u8 \<times> 'r"
    and get16 :: "'r \<Rightarrow> ech_error + u16 \<times> 'r"
    and getn :: "'r \<Rightarrow> nat \<Rightarrow> ech_error + bytes \<times> 'r"
  assumes view_adv: "view (adv n r) = drop n (view r)"
    and get8_eq: "get8 r = (case view r of b # _ \<Rightarrow> Inr (b, adv 1 r) | [] \<Rightarrow> Inl (Short_Read 1))"
    and get16_eq: "get16 r = (case view r of b # c # _ \<Rightarrow> Inr (from_be_bytes [b, c], adv 2 r)
                                | _ \<Rightarrow> Inl (Short_Read 2))"
    and getn_eq: "getn r n = (if n \<le> length (view r) then Inr (take n (view r), adv n r)
                              else Inl (Short_Read n))"
begin

lemma get8_Cons: "view r = b # s \<Longrightarrow> get8 r = Inr (b, adv 1 r) \<and> view (adv 1 r) = s"
  by (simp add: get8_eq view_adv)

lemma get16_be: "view r = to_be_bytes 2 w @ s \<Longrightarrow> get16 r = Inr (w, adv 2 r) \<and> view (adv 2 r) = s"
  by (simp add: get16_eq view_adv to_be_bytes_u16)

lemma getn_append: "view r = b @ s \<Longrightarrow> getn r (length b) = Inr (b, adv (length b) r) \<and> view (adv (length b) r) = s"
  by (simp add: getn_eq view_adv)

lemma getn_0: "getn r 0 = Inr ([], adv 0 r)"
  by (simp add: getn_eq)

lemma get8_Inr: "get8 r = Inr (b, r') \<Longrightarrow> view r = b # view r'"
  by (auto simp: get8_eq view_adv split: list.splits)

lemma get16_Inr: "get16 r = Inr (w, r') \<Longrightarrow> view r = take 2 (view r) @ view r' \<and> length (take 2 (view r)) = 2"
  by (auto simp: get16_eq view_adv numeral_2_eq_2 split: list.splits)

lemma getn_Inr: "getn r n = Inr (b, r') \<Longrightarrow> view r = b @ view r' \<and> length b = n"
  by (auto simp: getn_eq view_adv split: if_splits)

end

definition rd_view :: "reader \<Rightarrow> bytes" where
  "rd_view r = drop (rd_pos r) (rd_buf r)"

definition rd_adv :: "nat \<Rightarrow> reader \<Rightarrow> reader" where
  "rd_adv n r = r\<lparr>rd_pos := rd_pos r + n\<rparr>"

lemma remaining_view: "remaining r = length (rd_view r)"
  by (simp add: remaining_def rd_view_def)

lemma is_empty_view: "is_empty r \<longleftrightarrow> rd_view r = []"
  by (simp add: is_empty_def remaining_view)

lemma rd_view_new [simp]: "rd_view (reader_new b) = b"
  by (simp add: rd_view_def reader_new_def)

lemma rd_view_nth:
  "rd_view r = b # s \<Longrightarrow> rd_buf r ! rd_pos r = b"
  "rd_view r = b # c # s \<Longrightarrow> rd_buf r ! Suc (rd_pos r) = c"
proof -
  show "rd_view r = b # s \<Longrightarrow> rd_buf r ! rd_pos r = b"
    unfolding rd_view_def by (metis nth_via_drop)
  assume "rd_view r = b # c # s"
  then have "drop (Suc (rd_pos r)) (rd_buf r) = c # s"
    unfolding rd_view_def by (metis drop_Suc list.sel(3) tl_drop)
  then show "rd_buf r ! Suc (rd_pos r) = c" by (metis nth_via_drop)
qed

interpretation rd: byte_source rd_view rd_adv read_u8 read_u16 read_slice
proof unfold_locales
  show "rd_view (rd_adv n r) = drop n (rd_view r)" for n r
    by (simp add: rd_view_def rd_adv_def add.commute)
  show "read_u8 r = (case rd_view r of b # _ \<Rightarrow> Inr (b, rd_adv 1 r) | [] \<Rightarrow> Inl (Short_Read 1))" for r
    by (cases "rd_view r") (simp_all add: read_u8_def rd_adv_def remaining_view rd_view_nth)
  show "read_u16 r = (case rd_view r of b # c # _ \<Rightarrow> Inr (from_be_bytes [b, c], rd_adv 2 r)
                                | _ \<Rightarrow> Inl (Short_Read 2))" for r
    by (cases "rd_view r" rule: remdups_adj.cases)
      (simp_all add: read_u16_def rd_adv_def remaining_view rd_view_nth)
  show "read_slice r n = (if n \<le> length (rd_view r) then Inr (take n (rd_view r), rd_adv n r)
                              else Inl (Short_Read n))" for r n
    by (simp add: read_slice_def rd_view_def rd_adv_def remaining_def slice_def not_less)
qed

lemmas read_simps = rd.get8_Cons rd.get16_be rd.getn_append

section \<open>Encoding then decoding\<close>

lemma length_encode_suite [simp]: "length (encode_suite c) = 4"
  by (simp add: encode_suite_def)

lemma length_encode_suites [simp]: "length (concat (map encode_suite cs)) = 4 * length cs"
  by (induction cs) auto

lemma decode_suites_encode:
  "rd_view r = concat (map encode_suite cs) \<Longrightarrow> decode_suites r acc = Inr (acc @ cs)"
proof (induction cs arbitrary: r acc)
  case Nil
  then show ?case by (simp add: decode_suites.simps is_empty_view)
next
  case (Cons c cs)
  from Cons.prems have v: "rd_view r = to_be_bytes 2 (kdf_id c) @ to_be_bytes 2 (aead_id c) @ concat (map encode_suite cs)"
    by (simp add: encode_suite_def [of c])
  note r1 = rd.get16_be [OF v]
  note r2 = rd.get16_be [OF r1 [THEN conjunct2]]
  have "\<not> is_empty r" using v by (simp add: is_empty_view to_be_bytes_u16)
  with r1 r2 show ?case
    by (simp add: decode_suites.simps [of r] Cons.IH)
qed

text \<open>The contents of an encoded configuration, and the sizes that fit.\<close>

definition ech_contents :: "ech_config \<Rightarrow> bytes" where
  "ech_contents c =
     config_id c # to_be_bytes 2 (kem_id c)
     @ to_be_bytes 2 (word_of_nat (length (public_key c)) :: u16) @ public_key c
     @ to_be_bytes 2 (word_of_nat (length (cipher_suites c) * 4) :: u16) @ concat (map encode_suite (cipher_suites c))
     @ [maximum_name_length c, word_of_nat (length (public_name c))] @ as_bytes (public_name c) @ to_be_bytes 2 (0 :: u16)"

definition ech_fits :: "ech_config \<Rightarrow> bool" where
  "ech_fits c \<longleftrightarrow> length (public_name c) < 2 ^ 8
     \<and> 11 + length (public_key c) + 4 * length (cipher_suites c) + length (public_name c) < 2 ^ 16"

lemma length_ech_contents:
  "length (ech_contents c) = 11 + length (public_key c) + 4 * length (cipher_suites c) + length (public_name c)"
  by (simp add: ech_contents_def)

lemma zero_be [simp]: "to_be_bytes 2 (0 :: u16) = [0, 0]"
  by (simp add: to_be_bytes_u16)

lemma ech_config_encode_eq:
  "ech_config_encode c =
     (if ech_fits c then Some (to_be_bytes 2 ECH_CONFIG_VERSION_V18
        @ to_be_bytes 2 (word_of_nat (length (ech_contents c)) :: u16) @ ech_contents c)
      else None)"
proof (cases "length (public_key c) < 2 ^ 16 \<and> length (cipher_suites c) * 4 < 2 ^ 16
    \<and> length (as_bytes (public_name c)) < 2 ^ 8")
  case True
  then have "ech_config_encode c = do {
      len \<leftarrow> (try_from_len (length (ech_contents c)) :: u16 option);
      Some (to_be_bytes 2 ECH_CONFIG_VERSION_V18 @ to_be_bytes 2 len @ ech_contents c) }"
    by (simp add: ech_config_encode_def try_from_len_def ech_contents_def)
  with True show ?thesis
    by (simp add: try_from_len_def ech_fits_def length_ech_contents)
next
  case False
  then have "\<not> ech_fits c" by (auto simp: ech_fits_def)
  moreover have "ech_config_encode c = None"
    using False by (auto simp: ech_config_encode_def try_from_len_def)
  ultimately show ?thesis by simp
qed

lemma unat_len: "n < 2 ^ LENGTH('a) \<Longrightarrow> unat (word_of_nat n :: 'a::len word) = n"
  by (simp add: unat_of_nat)

lemma ech_config_decode_from_encode:
  assumes enc: "ech_config_encode c = Some b" and ne: "cipher_suites c \<noteq> []"
    and utf8: "utf8_valid (as_bytes (public_name c))" and v: "rd_view r = b @ rest"
  shows "\<exists>r'. ech_config_decode_from r = Inr (c, r') \<and> rd_view r' = rest"
proof -
  have fits: "ech_fits c" and b: "b = to_be_bytes 2 ECH_CONFIG_VERSION_V18
        @ to_be_bytes 2 (word_of_nat (length (ech_contents c)) :: u16) @ ech_contents c"
    using enc by (auto simp: ech_config_encode_eq split: if_splits)
  note lens = fits [unfolded ech_fits_def]
  have u: "unat (word_of_nat (length (ech_contents c)) :: u16) = length (ech_contents c)"
    "unat (word_of_nat (length (public_key c)) :: u16) = length (public_key c)"
    "unat (word_of_nat (length (cipher_suites c) * 4) :: u16) = length (concat (map encode_suite (cipher_suites c)))"
    "unat (word_of_nat (length (public_name c)) :: u8) = length (as_bytes (public_name c))"
    using lens by ((subst unat_len, simp_all add: length_ech_contents)[1])+
  let ?C = "ech_contents c" and ?S = "concat (map encode_suite (cipher_suites c))"
  have "rd_view r = to_be_bytes 2 ECH_CONFIG_VERSION_V18
      @ to_be_bytes 2 (word_of_nat (length ?C) :: u16) @ ?C @ rest"
    by (simp add: v b)
  note r1 = rd.get16_be [OF this]
  note r2 = rd.get16_be [OF r1 [THEN conjunct2]]
  note r3 = rd.getn_append [OF r2 [THEN conjunct2]]
  have "rd_view (reader_new ?C) = config_id c # to_be_bytes 2 (kem_id c)
     @ to_be_bytes 2 (word_of_nat (length (public_key c)) :: u16) @ public_key c
     @ to_be_bytes 2 (word_of_nat (length (cipher_suites c) * 4) :: u16) @ ?S
     @ maximum_name_length c # word_of_nat (length (public_name c)) # as_bytes (public_name c)
     @ to_be_bytes 2 (0 :: u16) @ []"
    by (simp add: ech_contents_def)
  note c1 = rd.get8_Cons [OF this]
  note c2 = rd.get16_be [OF c1 [THEN conjunct2]]
  note c3 = rd.get16_be [OF c2 [THEN conjunct2]]
  note c4 = rd.getn_append [OF c3 [THEN conjunct2]]
  note c5 = rd.get16_be [OF c4 [THEN conjunct2]]
  note c6 = rd.getn_append [OF c5 [THEN conjunct2]]
  note c7 = rd.get8_Cons [OF c6 [THEN conjunct2]]
  note c8 = rd.get8_Cons [OF c7 [THEN conjunct2]]
  note c9 = rd.getn_append [OF c8 [THEN conjunct2]]
  note c10 = rd.get16_be [OF c9 [THEN conjunct2]]
  have suites: "decode_suites (reader_new ?S) [] = Inr (cipher_suites c)"
    using decode_suites_encode [of "reader_new ?S" "cipher_suites c" "[]"] by simp
  have dvd: "4 dvd length ?S" "length ?S \<noteq> 0" using ne by simp_all
  have name: "from_utf8 (as_bytes (public_name c)) = Some (public_name c)"
    by (simp add: from_utf8_def utf8)
  show ?thesis
    unfolding ech_config_decode_from_def
    using r3
    by (simp only: r1 [THEN conjunct1] r2 [THEN conjunct1] r3 [THEN conjunct1] c1 [THEN conjunct1]
        c2 [THEN conjunct1] c3 [THEN conjunct1] c4 [THEN conjunct1] c5 [THEN conjunct1]
        c6 [THEN conjunct1] c7 [THEN conjunct1] c8 [THEN conjunct1] c9 [THEN conjunct1]
        c10 [THEN conjunct1] u suites dvd name rd.getn_0 unat_0 and_then_simps ok_or_simps prod.case
        Let_def simp_thms if_True if_False) simp
qed

lemma ech_decode_encode:
  "ech_config_encode c = Some b \<Longrightarrow> cipher_suites c \<noteq> [] \<Longrightarrow> utf8_valid (as_bytes (public_name c)) \<Longrightarrow>
     ech_config_decode b = Inr c"
  using ech_config_decode_from_encode [of c b "reader_new b" "[]"]
  by (auto simp: ech_config_decode_def is_empty_view)

section \<open>What the decoder accepts\<close>

lemma decode_suites_length:
  "decode_suites r acc = Inr suites \<Longrightarrow> length (rd_view r) + 4 * length acc = 4 * length suites"
proof (induction r acc rule: decode_suites.induct)
  case (1 r acc)
  show ?case
  proof (cases "is_empty r")
    case True
    with "1.prems" show ?thesis by (simp add: decode_suites.simps [of r] is_empty_view)
  next
    case False
    with "1.prems" obtain kdf r1 aead r2 where r: "read_u16 r = Inr (kdf, r1)" "read_u16 r1 = Inr (aead, r2)"
      and rec: "decode_suites r2 (acc @ [\<lparr>kdf_id = kdf, aead_id = aead\<rparr>]) = Inr suites"
      by (auto simp: decode_suites.simps [of r] split: sum.splits)
    have "length (rd_view r) = 2 + length (rd_view r1)" "length (rd_view r1) = 2 + length (rd_view r2)"
      using rd.get16_Inr [OF r(1)] rd.get16_Inr [OF r(2)] by (metis length_append)+
    moreover have "length (rd_view r2) + 4 * length (acc @ [\<lparr>kdf_id = kdf, aead_id = aead\<rparr>]) = 4 * length suites"
      using "1.IH" [OF False r(1) _ r(2) _ rec] by simp
    ultimately show ?thesis by simp
  qed
qed

lemma read_lengths:
  "read_u8 r = Inr (b, r') \<Longrightarrow> length (rd_view r) = Suc (length (rd_view r'))"
  "read_u16 r = Inr (w, r') \<Longrightarrow> length (rd_view r) = 2 + length (rd_view r')"
  "read_slice r n = Inr (s, r') \<Longrightarrow> length (rd_view r) = n + length (rd_view r') \<and> length s = n"
  using rd.get8_Inr rd.get16_Inr rd.getn_Inr by (fastforce, metis length_append, fastforce)

lemma from_utf8_Some: "from_utf8 b = Some s \<longleftrightarrow> utf8_valid b \<and> s = str_of_bytes b"
  by (auto simp: from_utf8_def)

lemma ech_config_decode_from_Inr:
  assumes "ech_config_decode_from r = Inr (c, r')"
  shows "ech_fits c" "cipher_suites c \<noteq> []" "utf8_valid (as_bytes (public_name c))"
    "length (rd_view r) \<ge> length (rd_view r') + 4 + length (ech_contents c)"
proof -
  from assms obtain version r1 contents_len r2 contents cfg_id c1 kem c2 pk_len c3 pk c4 cs_len c5
    cs_bytes c6 suites max_name c7 pn_len c8 pn_bytes c9 name ext_len c10 ext c11 where r: "read_u16 r = Inr (version, r1)" "read_u16 r1 = Inr (contents_len, r2)"
     "read_slice r2 (unat contents_len) = Inr (contents, r')"
    and c: "read_u8 (reader_new contents) = Inr (cfg_id, c1)" "read_u16 c1 = Inr (kem, c2)"
     "read_u16 c2 = Inr (pk_len, c3)" "read_slice c3 (unat pk_len) = Inr (pk, c4)"
     "read_u16 c4 = Inr (cs_len, c5)" "unat cs_len \<noteq> 0"
     "read_slice c5 (unat cs_len) = Inr (cs_bytes, c6)" "decode_suites (reader_new cs_bytes) [] = Inr suites"
     "read_u8 c6 = Inr (max_name, c7)" "read_u8 c7 = Inr (pn_len, c8)" "read_slice c8 (unat pn_len) = Inr (pn_bytes, c9)"
     "from_utf8 pn_bytes = Some name" "read_u16 c9 = Inr (ext_len, c10)" "read_slice c10 (unat ext_len) = Inr (ext, c11)"
    and cfg: "c = \<lparr>config_id = cfg_id, kem_id = kem, public_key = pk, cipher_suites = suites,
             maximum_name_length = max_name, public_name = name\<rparr>"
    by (auto simp: ech_config_decode_from_def result_iffs Let_def split: if_splits prod.splits)
  have n: "utf8_valid pn_bytes" "name = str_of_bytes pn_bytes" using c(12) by (auto simp: from_utf8_Some)
  note len = read_lengths(1) [OF c(1)] read_lengths(2) [OF c(2)] read_lengths(2) [OF c(3)] read_lengths(3) [OF c(4)]
    read_lengths(2) [OF c(5)] read_lengths(3) [OF c(7)] read_lengths(1) [OF c(9)] read_lengths(1) [OF c(10)]
    read_lengths(3) [OF c(11)] read_lengths(2) [OF c(13)] read_lengths(3) [OF c(14)] decode_suites_length [OF c(8)]
    read_lengths(2) [OF r(1)] read_lengths(2) [OF r(2)] read_lengths(3) [OF r(3)]
  have bound: "unat contents_len < 2 ^ 16" "unat pn_len < 2 ^ 8"
    using unsigned_less [of contents_len, where 'a = nat] unsigned_less [of pn_len, where 'a = nat] by simp_all
  have lname: "length name = length pn_bytes" by (simp add: n str_of_bytes_def)
  have total: "11 + length pk + 4 * length suites + length name \<le> length contents"
    using len lname by (simp)
  show "ech_fits c" using total bound len lname by (simp add: cfg ech_fits_def)
  show "cipher_suites c \<noteq> []" using len c(6) by (auto simp: cfg)
  show "utf8_valid (as_bytes (public_name c))" using n by (simp add: cfg)
  show "length (rd_view r) \<ge> length (rd_view r') + 4 + length (ech_contents c)"
    using total len by (simp add: cfg length_ech_contents)
qed
section \<open>Lists of configurations\<close>

fun decode_many :: "nat \<Rightarrow> reader \<Rightarrow> ech_error + ech_config list \<times> reader" where
  "decode_many 0 r = Inr ([], r)"
| "decode_many (Suc n) r =
     and_then (ech_config_decode_from r) (\<lambda>(c, r).
     and_then (decode_many n r) (\<lambda>(cs, r). Inr (c # cs, r)))"

definition ech_wf :: "ech_config \<Rightarrow> bool" where
  "ech_wf c \<longleftrightarrow> cipher_suites c \<noteq> [] \<and> utf8_valid (as_bytes (public_name c))"

lemma encode_configs_acc: "encode_configs cs body = map_option (\<lambda>b. body @ b) (encode_configs cs [])"
proof (induction cs arbitrary: body)
  case (Cons c cs)
  show ?case
  proof (cases "ech_config_encode c")
    case (Some b)
    then show ?thesis
      using Cons.IH [of "body @ b"] Cons.IH [of b] by (simp add: option.map_comp comp_def)
  qed simp
qed simp

lemma decode_many_encode:
  "encode_configs cs [] = Some body \<Longrightarrow> \<forall>c \<in> set cs. ech_wf c \<Longrightarrow> rd_view r = body @ rest \<Longrightarrow>
     \<exists>r'. decode_many (length cs) r = Inr (cs, r') \<and> rd_view r' = rest"
proof (induction cs arbitrary: body r)
  case (Cons c cs)
  from Cons.prems(1) obtain b where b: "ech_config_encode c = Some b" and "encode_configs cs b = Some body"
    by (auto simp: bind_eq_Some_conv)
  then obtain b' where b': "encode_configs cs [] = Some b'" "body = b @ b'"
    by (auto simp: encode_configs_acc [of cs b])
  have v: "rd_view r = b @ (b' @ rest)" using Cons.prems(3) b'(2) by simp
  obtain r1 where r1: "ech_config_decode_from r = Inr (c, r1)" "rd_view r1 = b' @ rest"
    using ech_config_decode_from_encode [OF b _ _ v] Cons.prems(2) by (auto simp: ech_wf_def)
  from Cons.IH [OF b'(1) _ r1(2)] Cons.prems(2) r1(1) show ?case by auto
qed simp

lemma encode_configs_None: "encode_configs cs [] = None \<longleftrightarrow> (\<exists>c \<in> set cs. \<not> ech_fits c)"
proof (induction cs)
  case (Cons c cs)
  then show ?case
    by (auto simp: ech_config_encode_eq encode_configs_acc [of cs "_ @ _"] split: if_splits)
qed simp

definition ech_encoded_len :: "ech_config \<Rightarrow> nat" where
  "ech_encoded_len c = 15 + length (public_key c) + 4 * length (cipher_suites c) + length (public_name c)"

lemma encode_configs_length:
  "encode_configs cs [] = Some body \<Longrightarrow> length body = (\<Sum>c \<leftarrow> cs. ech_encoded_len c)"
proof (induction cs arbitrary: body)
  case (Cons c cs)
  from Cons.prems show ?case
    using Cons.IH by (auto simp: encode_configs_acc [of cs "_ @ _"] ech_config_encode_eq ech_encoded_len_def
      length_ech_contents split: if_splits)
qed simp

section \<open>Properties\<close>

text \<open>A configuration as the key generator makes it.\<close>

definition sample_config :: "u8 \<Rightarrow> ech_config" where
  "sample_config i = \<lparr>config_id = i, kem_id = HPKE_KEM_DHKEM_X25519, public_key = replicate 32 0xab,
     cipher_suites = [\<lparr>kdf_id = HPKE_KDF_HKDF_SHA256, aead_id = HPKE_AEAD_AES_128_GCM\<rparr>],
     maximum_name_length = 0, public_name = ''a.b''\<rparr>"

lemma sample_config_ok: "ech_fits (sample_config i)" "ech_wf (sample_config i)"
  by (simp_all add: sample_config_def ech_fits_def ech_wf_def as_bytes_def utf8_valid.simps utf8_len_def)



text \<open>The encoder aborts exactly when the public name exceeds 255 bytes or the contents exceed
  65535 bytes; otherwise it produces the 4-byte header and the contents.\<close>

theorem ech_config_encode_total:
  "(ech_config_encode c = None \<longleftrightarrow>
      255 < length (public_name c) \<or>
      65535 < 11 + length (public_key c) + 4 * length (cipher_suites c) + length (public_name c))
   \<and> (\<forall>b. ech_config_encode c = Some b \<longrightarrow>
        length b = 15 + length (public_key c) + 4 * length (cipher_suites c) + length (public_name c))"
  by (auto simp: ech_config_encode_eq ech_fits_def length_ech_contents split: if_splits)

theorem ech_config_encode_total_witness:
  "\<exists>b. ech_config_encode (sample_config 1) = Some b \<and> length b = 54"
proof -
  obtain b where b: "ech_config_encode (sample_config 1) = Some b"
    by (auto simp: ech_config_encode_eq sample_config_ok)
  with ech_config_encode_total [of "sample_config 1"] show ?thesis by (simp add: sample_config_def)
qed

text \<open>A configuration that was decoded can be re-encoded: the encoder does not abort on it, the
  result is no longer than the input (unknown trailing contents and extensions are dropped), and it
  decodes to the same configuration.  Serving loaded keys therefore never aborts on one of them.\<close>

theorem ech_config_decode_reencode:
  assumes "ech_config_decode b = Inr c"
  shows "\<exists>b'. ech_config_encode c = Some b' \<and> length b' \<le> length b \<and> ech_config_decode b' = Inr c"
proof -
  from assms obtain r where r: "ech_config_decode_from (reader_new b) = Inr (c, r)"
    by (auto simp: ech_config_decode_def result_iffs split: if_splits)
  note c = ech_config_decode_from_Inr [OF r]
  then obtain b' where b': "ech_config_encode c = Some b'" "length b' = 4 + length (ech_contents c)"
    by (simp add: ech_config_encode_eq)
  have "ech_config_decode b' = Inr c"
    by (rule ech_decode_encode [OF b'(1) c(2,3)])
  with b' c(4) show ?thesis by auto
qed

theorem ech_config_decode_reencode_witness:
  "\<exists>b b'. ech_config_decode b = Inr (sample_config 2) \<and> ech_config_encode (sample_config 2) = Some b'
     \<and> length b' \<le> length b"
proof -
  obtain b where b: "ech_config_encode (sample_config 2) = Some b"
    by (auto simp: ech_config_encode_eq sample_config_ok)
  have "ech_config_decode b = Inr (sample_config 2)"
    using ech_decode_encode [OF b] sample_config_ok(2) by (simp add: ech_wf_def)
  with ech_config_decode_reencode [OF this] show ?thesis by auto
qed

lemma encode_list_decodes:
  assumes "encode_list cs = Some b" and "\<forall>c \<in> set cs. ech_wf c"
  shows "\<exists>len r r'. read_u16 (reader_new b) = Inr (len, r) \<and> unat len = remaining r
     \<and> decode_many (length cs) r = Inr (cs, r') \<and> is_empty r'"
proof -
  from assms(1) obtain body len where body: "encode_configs cs [] = Some body"
    and len: "try_from_len (length body) = Some (len :: u16)" and b: "b = to_be_bytes 2 len @ body"
    by (auto simp: encode_list_def bind_eq_Some_conv)
  note r = rd.get16_be [of "reader_new b" len body, unfolded rd_view_new, OF b]
  obtain r' where "decode_many (length cs) (rd_adv 2 (reader_new b)) = Inr (cs, r')" "rd_view r' = []"
    using decode_many_encode [OF body assms(2), of _ "[]"] r by auto
  with r len show ?thesis
    by (auto simp: remaining_view is_empty_view try_from_len_Some)
qed

text \<open>A configuration list is its 16-bit length followed by its configurations: reading the length
  and then as many configurations as were written returns them in order and leaves nothing.\<close>

theorem encode_list_roundtrip:
  assumes "encode_list cs = Some b" and "\<forall>c \<in> set cs. ech_wf c"
  shows "\<exists>len r r'. read_u16 (reader_new b) = Inr (len, r) \<and> unat len = remaining r
     \<and> decode_many (length cs) r = Inr (cs, r') \<and> is_empty r'"
  using assms by (rule encode_list_decodes)

theorem encode_list_roundtrip_witness:
  "\<exists>b len r r'. encode_list [sample_config 1, sample_config 2] = Some b
     \<and> read_u16 (reader_new b) = Inr (len, r)
     \<and> decode_many 2 r = Inr ([sample_config 1, sample_config 2], r') \<and> is_empty r'"
proof -
  obtain b where b: "encode_list [sample_config 1, sample_config 2] = Some b"
    by (simp add: encode_list_def ech_config_encode_eq sample_config_ok try_from_len_def
        length_ech_contents) (simp add: sample_config_def)
  with encode_list_roundtrip [OF b] show ?thesis by (auto simp: sample_config_ok numeral_2_eq_2)
qed

end
