(* ===== verification/Ech_Key.thy ===== *)
theory Ech_Key
  imports Ech_Config Util "HOL-Library.List_Lexorder" "HOL-Library.Multiset"
begin

text \<open>
  ECH key files, \<^verbatim>\<open>src/src/ech/key.rs\<close>: the PEM reader and writer and the loading of a file or a
  directory of key pairs.  Base64 (\<^verbatim>\<open>base64ct\<close>) and the file system are parameters.  A path is the list
  of its components, each a byte string; paths compare as Rust's do, component by component.
\<close>

section \<open>Definitions\<close>

definition PEM_LABEL_KEY :: string where
  "PEM_LABEL_KEY = ''ECH PRIVATE KEY''"

definition PEM_LABEL_CONFIG :: string where
  "PEM_LABEL_CONFIG = ''ECH CONFIG''"

record ech_key_pair =
  private_key :: bytes
  kp_config :: ech_config

record ech_key_set =
  key_pairs :: "ech_key_pair list"

type_synonym fs_path = "bytes list"

text \<open>What the loader asks of the file system.\<close>

record file_system =
  fs_is_dir :: "fs_path \<Rightarrow> bool option"
  fs_read_dir :: "fs_path \<Rightarrow> bytes option list option"
  fs_is_file :: "fs_path \<Rightarrow> bool"
  fs_read :: "fs_path \<Rightarrow> bytes option"

datatype key_error =
    Pem_Not_Utf8
  | Expected_Begin string
  | Missing_End string
  | Invalid_Base64 string
  | Config_Before_Key
  | Unexpected_Label string
  | Missing_Config
  | Expected_Config string
  | Bad_Config ech_error
  | Stat_Failed
  | Read_Dir_Failed
  | Read_Failed fs_path
  | Empty_Directory
  | No_Key_Pairs fs_path
  | Duplicate_Config_Id u8

subsection \<open>Reading PEM\<close>

record pem_block =
  pem_label :: string
  pem_body :: bytes

definition end_marker :: "string \<Rightarrow> string" where
  "end_marker label = ''-----END '' @ label @ ''-----''"

fun collect_body :: "string \<Rightarrow> string list \<Rightarrow> string \<Rightarrow> (string \<times> string list) option" where
  "collect_body marker [] b64 = None"
| "collect_body marker (inner # ls) b64 =
     (let t = trim inner in
      if t = marker then Some (b64, ls)
      else if t = [] then collect_body marker ls b64
      else collect_body marker ls (b64 @ t))"

lemma collect_body_shorter: "collect_body marker ls b64 = Some (b, ls') \<Longrightarrow> length ls' < length ls"
  by (induction marker ls b64 rule: collect_body.induct) (auto simp: Let_def less_SucI split: if_splits)

definition begin_label :: "string \<Rightarrow> string option" where
  "begin_label trimmed = Option.bind (strip_prefix ''-----BEGIN '' trimmed) (strip_suffix ''-----'')"

function pem_blocks_loop :: "(string \<Rightarrow> bytes option) \<Rightarrow> string list \<Rightarrow> pem_block list \<Rightarrow>
    key_error + pem_block list" where
  "pem_blocks_loop b64_dec [] out = Inr out"
| "pem_blocks_loop b64_dec (line # ls) out =
     (if trim line = [] then pem_blocks_loop b64_dec ls out
      else (case begin_label (trim line) of
              None \<Rightarrow> Inl (Expected_Begin (trim line))
            | Some label \<Rightarrow>
                (case collect_body (end_marker label) ls [] of
                   None \<Rightarrow> Inl (Missing_End label)
                 | Some (b64, rest) \<Rightarrow>
                     (case b64_dec b64 of
                        None \<Rightarrow> Inl (Invalid_Base64 label)
                      | Some body \<Rightarrow>
                          pem_blocks_loop b64_dec rest (out @ [\<lparr>pem_label = label, pem_body = body\<rparr>])))))"
  by pat_completeness auto
termination
  by (relation "measure (\<lambda>(d, ls, out). length ls)") (auto dest: collect_body_shorter)

definition parse_pem_blocks :: "(string \<Rightarrow> bytes option) \<Rightarrow> bytes \<Rightarrow> key_error + pem_block list" where
  "parse_pem_blocks b64_dec bs =
     and_then (ok_or Pem_Not_Utf8 (from_utf8 bs)) (\<lambda>text. pem_blocks_loop b64_dec (lines text) [])"

fun bundle_loop :: "pem_block list \<Rightarrow> ech_key_pair list \<Rightarrow> key_error + ech_key_pair list" where
  "bundle_loop [] out = Inr out"
| "bundle_loop (first # rest) out =
     (if pem_label first = PEM_LABEL_KEY then
        (case rest of
           [] \<Rightarrow> Inl Missing_Config
         | config_block # rest' \<Rightarrow>
             if pem_label config_block \<noteq> PEM_LABEL_CONFIG
             then Inl (Expected_Config (pem_label config_block))
             else (case ech_config_decode (pem_body config_block) of
                     Inl e \<Rightarrow> Inl (Bad_Config e)
                   | Inr cfg \<Rightarrow>
                       bundle_loop rest' (out @ [\<lparr>private_key = pem_body first, kp_config = cfg\<rparr>])))
      else if pem_label first = PEM_LABEL_CONFIG then Inl Config_Before_Key
      else Inl (Unexpected_Label (pem_label first)))"

definition parse_pem_bundle :: "(string \<Rightarrow> bytes option) \<Rightarrow> bytes \<Rightarrow> key_error + ech_key_pair list" where
  "parse_pem_bundle b64_dec bs = and_then (parse_pem_blocks b64_dec bs) (\<lambda>blocks. bundle_loop blocks [])"

subsection \<open>Writing PEM\<close>

definition write_pem_block :: "(bytes \<Rightarrow> string) \<Rightarrow> string \<Rightarrow> string \<Rightarrow> bytes \<Rightarrow> string" where
  "write_pem_block b64_enc out label body =
     (let encoded = b64_enc body;
          out = out @ ''-----BEGIN '' @ label @ ''-----'' @ [newline];
          out = out @ concat (map (\<lambda>chunk. chunk @ [newline]) (chunks 64 encoded))
      in out @ ''-----END '' @ label @ ''-----'' @ [newline])"

definition encode_pair_pem :: "(bytes \<Rightarrow> string) \<Rightarrow> bytes \<Rightarrow> ech_config \<Rightarrow> string option" where
  "encode_pair_pem b64_enc key cfg = do {
     let out = write_pem_block b64_enc [] PEM_LABEL_KEY key;
     b \<leftarrow> ech_config_encode cfg;
     Some (write_pem_block b64_enc out PEM_LABEL_CONFIG b)
   }"

subsection \<open>Loading keys\<close>

text \<open>The names a directory listing keeps: UTF-8 and not starting with a dot.\<close>

definition visible_name :: "bytes \<Rightarrow> bool" where
  "visible_name name =
     (case from_utf8 name of None \<Rightarrow> False | Some s \<Rightarrow> \<not> prefix ''.'' s)"

fun read_entries :: "file_system \<Rightarrow> fs_path list \<Rightarrow> (fs_path \<times> bytes) list \<Rightarrow>
    key_error + (fs_path \<times> bytes) list" where
  "read_entries fs [] bundles = Inr bundles"
| "read_entries fs (entry # entries) bundles =
     (if fs_is_file fs entry then
        (case fs_read fs entry of
           None \<Rightarrow> Inl (Read_Failed entry)
         | Some b \<Rightarrow> read_entries fs entries (bundles @ [(entry, b)]))
      else read_entries fs entries bundles)"

definition load_bundles :: "file_system \<Rightarrow> fs_path \<Rightarrow> key_error + (fs_path \<times> bytes) list" where
  "load_bundles fs p =
     and_then (ok_or Stat_Failed (fs_is_dir fs p)) (\<lambda>is_dir.
       if is_dir then
         and_then (ok_or Read_Dir_Failed (fs_read_dir fs p)) (\<lambda>listing.
           let entries = sort (map (\<lambda>n. p @ [n]) (filter visible_name (List.map_filter id listing)))
           in and_then (read_entries fs entries []) (\<lambda>bundles.
                if bundles = [] then Inl Empty_Directory else Inr bundles))
       else and_then (ok_or (Read_Failed p) (fs_read fs p)) (\<lambda>b. Inr [(p, b)]))"

fun load_pairs :: "(string \<Rightarrow> bytes option) \<Rightarrow> (fs_path \<times> bytes) list \<Rightarrow> ech_key_pair list \<Rightarrow>
    key_error + ech_key_pair list" where
  "load_pairs b64_dec [] acc = Inr acc"
| "load_pairs b64_dec ((origin, b) # bundles) acc =
     and_then (parse_pem_bundle b64_dec b) (\<lambda>file_pairs.
       if file_pairs = [] then Inl (No_Key_Pairs origin)
       else load_pairs b64_dec bundles (acc @ file_pairs))"

text \<open>The first identifier, in file order, that occurs again later.\<close>

fun duplicate_id :: "u8 list \<Rightarrow> u8 option" where
  "duplicate_id [] = None"
| "duplicate_id (i # is) = (if i \<in> set is then Some i else duplicate_id is)"

definition ech_key_set_load :: "file_system \<Rightarrow> (string \<Rightarrow> bytes option) \<Rightarrow> fs_path \<Rightarrow>
    key_error + ech_key_set" where
  "ech_key_set_load fs b64_dec p =
     and_then (load_bundles fs p) (\<lambda>bundles.
     and_then (load_pairs b64_dec bundles []) (\<lambda>prs.
       (case duplicate_id (map (\<lambda>q. config_id (kp_config q)) prs) of
          Some i \<Rightarrow> Inl (Duplicate_Config_Id i)
        | None \<Rightarrow> Inr \<lparr>key_pairs = prs\<rparr>)))"

definition config_list_bytes :: "ech_key_set \<Rightarrow> bytes option" where
  "config_list_bytes ks = encode_list (map kp_config (key_pairs ks))"

section \<open>Base64\<close>

text \<open>The standard alphabet with padding, and what the program relies on of the codec: decoding inverts
  encoding, and encoded text stays within the alphabet.\<close>

definition base64_char :: "char \<Rightarrow> bool" where
  "base64_char c \<longleftrightarrow>
     (let n = (of_char c :: nat) in
      65 \<le> n \<and> n \<le> 90 \<or> 97 \<le> n \<and> n \<le> 122 \<or> 48 \<le> n \<and> n \<le> 57 \<or> n = 43 \<or> n = 47 \<or> n = 61)"

definition base64_codec :: "(bytes \<Rightarrow> string) \<Rightarrow> (string \<Rightarrow> bytes option) \<Rightarrow> bool" where
  "base64_codec enc dec \<longleftrightarrow> (\<forall>b. dec (enc b) = Some b) \<and> (\<forall>b. \<forall>c \<in> set (enc b). base64_char c)"

lemma base64_char_graphic: "base64_char c \<Longrightarrow> graphic c"
  by (auto simp: base64_char_def graphic_def Let_def)

lemma base64_char_dash: "\<not> base64_char (CHR ''-'')"
  by (simp add: base64_char_def)

section \<open>PEM text\<close>

definition begin_marker :: "string \<Rightarrow> string" where
  "begin_marker label = ''-----BEGIN '' @ label @ ''-----''"

lemma begin_label_marker [simp]: "begin_label (begin_marker label) = Some label"
  by (simp add: begin_label_def begin_marker_def del: append_Cons append_Nil)

definition pem_lines :: "(bytes \<Rightarrow> string) \<Rightarrow> string \<Rightarrow> bytes \<Rightarrow> string list" where
  "pem_lines enc label body = begin_marker label # chunks 64 (enc body) @ [end_marker label]"

lemma write_pem_block_lines:
  "write_pem_block enc out label body = out @ concat (map (\<lambda>l. l @ [newline]) (pem_lines enc label body))"
  by (simp add: write_pem_block_def pem_lines_def begin_marker_def end_marker_def Let_def)

lemma markers_graphic:
  "begin_marker l \<noteq> []" "graphic (hd (begin_marker l))" "graphic (last (begin_marker l))"
  "end_marker l \<noteq> []" "graphic (hd (end_marker l))" "graphic (last (end_marker l))"
  by (simp_all add: begin_marker_def end_marker_def graphic_def)

lemma trim_markers [simp]: "trim (begin_marker l) = begin_marker l" "trim (end_marker l) = end_marker l"
  by (simp_all add: trim_graphic markers_graphic)

lemma collect_body_chunks:
  assumes "\<forall>c \<in> set cs. c \<noteq> [] \<and> (\<forall>x \<in> set c. base64_char x)"
  shows "collect_body (end_marker label) (cs @ end_marker label # rest) b64 = Some (b64 @ concat cs, rest)"
  using assms
proof (induction cs arbitrary: b64)
  case (Cons c cs)
  from Cons.prems have c: "c \<noteq> []" "\<forall>x \<in> set c. base64_char x" by simp_all
  then have "trim c = c" by (intro trim_graphic) (auto intro: base64_char_graphic)
  moreover have "c \<noteq> end_marker label"
    using c base64_char_dash by (auto simp: end_marker_def)
  ultimately show ?case using Cons c by simp
qed simp

lemma pem_blocks_loop_lines:
  assumes "base64_codec enc dec"
  shows "pem_blocks_loop dec (pem_lines enc label body @ rest) out
       = pem_blocks_loop dec rest (out @ [\<lparr>pem_label = label, pem_body = body\<rparr>])"
proof -
  have "\<forall>c \<in> set (chunks 64 (enc body)). c \<noteq> [] \<and> (\<forall>x \<in> set c. base64_char x)"
    using assms chunks_elem [of 64 _ "enc body"] by (fastforce simp: base64_codec_def)
  from collect_body_chunks [OF this, of label rest "[]"] assms show ?thesis
    by (simp add: pem_lines_def markers_graphic concat_chunks base64_codec_def)
qed

lemma pem_lines_clean:
  assumes "base64_codec enc dec" and "label = PEM_LABEL_KEY \<or> label = PEM_LABEL_CONFIG"
  shows "\<forall>l \<in> set (pem_lines enc label body). newline \<notin> set l \<and> (l = [] \<or> graphic (last l))
     \<and> (\<forall>c \<in> set l. (of_char c :: nat) < 128)"
proof -
  have "newline \<notin> set c \<and> graphic (last c) \<and> (\<forall>x \<in> set c. (of_char x :: nat) < 128)"
    if "c \<in> set (chunks 64 (enc body))" for c
  proof -
    have "c \<noteq> []" "\<forall>x \<in> set c. graphic x"
      using that assms(1) chunks_elem [of 64 c "enc body"] base64_char_graphic
      by (auto simp: base64_codec_def)
    then show ?thesis using graphic_not_newline by (fastforce simp: graphic_def)
  qed
  moreover have "newline \<notin> set (begin_marker label) \<and> newline \<notin> set (end_marker label)"
    "\<forall>c \<in> set (begin_marker label) \<union> set (end_marker label). (of_char c :: nat) < 128"
    using assms(2)
    by (auto simp: begin_marker_def end_marker_def newline_def PEM_LABEL_KEY_def PEM_LABEL_CONFIG_def)
  ultimately show ?thesis by (auto simp: pem_lines_def markers_graphic)
qed

definition pair_lines :: "(bytes \<Rightarrow> string) \<Rightarrow> ech_key_pair \<Rightarrow> bytes \<Rightarrow> string list" where
  "pair_lines enc q b = pem_lines enc PEM_LABEL_KEY (private_key q) @ pem_lines enc PEM_LABEL_CONFIG b"

abbreviation clean_line :: "string \<Rightarrow> bool" where
  "clean_line l \<equiv> newline \<notin> set l \<and> (l = [] \<or> graphic (last l)) \<and> (\<forall>c \<in> set l. (of_char c :: nat) < 128)"

lemma pair_lines_clean: "base64_codec enc dec \<Longrightarrow> l \<in> set (pair_lines enc q b) \<Longrightarrow> clean_line l"
  using pem_lines_clean [of enc dec PEM_LABEL_KEY "private_key q"]
    pem_lines_clean [of enc dec PEM_LABEL_CONFIG b]
  by (auto simp only: pair_lines_def set_append)

lemma encode_pair_pem_Some:
  "encode_pair_pem enc (private_key q) (kp_config q) = Some s \<longleftrightarrow>
     (\<exists>b. ech_config_encode (kp_config q) = Some b \<and> s = concat (map (\<lambda>l. l @ [newline]) (pair_lines enc q b)))"
  by (auto simp: encode_pair_pem_def write_pem_block_lines pair_lines_def bind_eq_Some_conv)

definition pair_blocks :: "ech_key_pair \<Rightarrow> bytes \<Rightarrow> pem_block list" where
  "pair_blocks q b = [\<lparr>pem_label = PEM_LABEL_KEY, pem_body = private_key q\<rparr>,
     \<lparr>pem_label = PEM_LABEL_CONFIG, pem_body = b\<rparr>]"

lemma pem_blocks_loop_pairs:
  assumes "base64_codec enc dec"
  shows "list_all2 (\<lambda>q b. True) prs bs \<Longrightarrow>
     pem_blocks_loop dec (concat (map2 (pair_lines enc) prs bs)) out
       = Inr (out @ concat (map2 pair_blocks prs bs))"
  by (induction prs bs arbitrary: out rule: list_all2_induct)
    (simp_all add: pair_lines_def pair_blocks_def pem_blocks_loop_lines [OF assms])

lemma bundle_loop_pairs:
  "list_all2 (\<lambda>q b. ech_config_decode b = Inr (kp_config q)) prs bs \<Longrightarrow>
     bundle_loop (concat (map2 pair_blocks prs bs)) out = Inr (out @ prs)"
proof (induction prs bs arbitrary: out rule: list_all2_induct)
  case (Cons q qs b bs)
  have "PEM_LABEL_CONFIG \<noteq> PEM_LABEL_KEY" by (simp add: PEM_LABEL_KEY_def PEM_LABEL_CONFIG_def)
  with Cons show ?case by (simp add: pair_blocks_def)
qed simp

lemma parse_pem_pairs:
  assumes b64: "base64_codec enc dec"
    and texts: "list_all2 (\<lambda>q s. encode_pair_pem enc (private_key q) (kp_config q) = Some s) prs texts"
    and wf: "\<forall>q \<in> set prs. ech_wf (kp_config q)"
  shows "parse_pem_bundle dec (as_bytes (concat texts)) = Inr prs"
proof -
  obtain bs where bs: "list_all2 (\<lambda>q b. ech_config_encode (kp_config q) = Some b) prs bs"
    and t: "concat texts = concat (map (\<lambda>l. l @ [newline]) (concat (map2 (pair_lines enc) prs bs)))"
    using texts
  proof (induction prs texts arbitrary: thesis rule: list_all2_induct)
    case (Cons q qs s ss)
    obtain bs where IH: "list_all2 (\<lambda>q b. ech_config_encode (kp_config q) = Some b) qs bs"
      "concat ss = concat (map (\<lambda>l. l @ [newline]) (concat (map2 (pair_lines enc) qs bs)))"
      using Cons.IH by blast
    obtain b where b: "ech_config_encode (kp_config q) = Some b"
      "s = concat (map (\<lambda>l. l @ [newline]) (pair_lines enc q b))"
      using Cons.hyps(1) by (auto simp: encode_pair_pem_Some)
    show ?case using IH b by (intro Cons.prems [of "b # bs"]) auto
  qed auto
  let ?ls = "concat (map2 (pair_lines enc) prs bs)"
  have clean: "\<forall>l \<in> set ?ls. clean_line l"
    using pair_lines_clean [OF b64] by (auto simp only: set_concat set_map)
  then have "lines (concat texts) = ?ls"
    using lines_concat [of ?ls "[]"] by (simp add: t)
  moreover have "utf8_valid (as_bytes (concat texts))"
    using clean by (intro utf8_valid_as_bytes) (auto simp: t newline_def)
  moreover have "list_all2 (\<lambda>q b. ech_config_decode b = Inr (kp_config q)) prs bs"
    using bs wf unfolding list_all2_conv_all_nth ech_wf_def
    by (metis ech_decode_encode nth_mem)
  ultimately show ?thesis
    using pem_blocks_loop_pairs [OF b64, of prs bs "[]"] bs bundle_loop_pairs [of prs bs "[]"]
    by (simp add: parse_pem_bundle_def parse_pem_blocks_def from_utf8_def list_all2_conv_all_nth)
qed

section \<open>Properties of PEM files\<close>


lemma base64_codec_hex: "base64_codec hex unhex"
  using hex_chars by (fastforce simp: base64_codec_def base64_char_def unhex_hex Let_def)

definition sample_pair :: "u8 \<Rightarrow> ech_key_pair" where
  "sample_pair i = \<lparr>private_key = replicate 32 0x55, kp_config = sample_config i\<rparr>"

lemma sample_pair_pem: "\<exists>s. encode_pair_pem hex (private_key (sample_pair i)) (kp_config (sample_pair i)) = Some s"
  unfolding encode_pair_pem_Some
  by (simp add: sample_pair_def ech_config_encode_eq sample_config_ok)


section \<open>Loading\<close>

lemma duplicate_id_None: "duplicate_id is = None \<longleftrightarrow> distinct is"
  by (induction "is") auto

lemma duplicate_id_Some: "duplicate_id is = Some i \<Longrightarrow> 1 < count_list is i"
  by (induction "is") (auto simp: count_list_0_iff intro!: gr0I split: if_splits)

lemma bundle_loop_wf:
  "bundle_loop blocks out = Inr prs \<Longrightarrow> \<forall>q \<in> set out. \<exists>b. ech_config_decode b = Inr (kp_config q) \<Longrightarrow>
     \<forall>q \<in> set prs. \<exists>b. ech_config_decode b = Inr (kp_config q)"
proof (induction blocks out rule: bundle_loop.induct)
  case (2 first rest out)
  from "2.prems"(1) obtain config_block rest' cfg where r: "pem_label first = PEM_LABEL_KEY"
    "rest = config_block # rest'" "pem_label config_block = PEM_LABEL_CONFIG"
    "ech_config_decode (pem_body config_block) = Inr cfg"
    "bundle_loop rest' (out @ [\<lparr>private_key = pem_body first, kp_config = cfg\<rparr>]) = Inr prs"
    by (auto split: if_splits list.splits sum.splits)
  show ?case
    by (rule "2.IH" [OF r(1,2) _ r(4,5)]) (use r "2.prems"(2) in auto)
qed simp

lemma load_pairs_wf:
  "load_pairs dec bundles acc = Inr prs \<Longrightarrow> \<forall>q \<in> set acc. \<exists>b. ech_config_decode b = Inr (kp_config q) \<Longrightarrow>
     (\<forall>q \<in> set prs. \<exists>b. ech_config_decode b = Inr (kp_config q)) \<and> (acc \<noteq> [] \<or> bundles \<noteq> [] \<longrightarrow> prs \<noteq> [])"
proof (induction dec bundles acc rule: load_pairs.induct)
  case (2 dec origin b bundles acc)
  then obtain fp where fp: "parse_pem_bundle dec b = Inr fp" "fp \<noteq> []" "load_pairs dec bundles (acc @ fp) = Inr prs"
    by (auto simp: result_iffs split: if_splits)
  then have "\<forall>q \<in> set fp. \<exists>b. ech_config_decode b = Inr (kp_config q)"
    using bundle_loop_wf [of _ "[]" fp] by (auto simp: parse_pem_bundle_def result_iffs)
  with "2.IH" [OF fp(2,3)] "2.prems"(2) fp(2) show ?case by auto
qed simp

lemma load_bundles_nonempty: "load_bundles fs p = Inr bundles \<Longrightarrow> bundles \<noteq> []"
  by (auto simp: load_bundles_def result_iffs Let_def split: if_splits)

lemma decode_fits: "ech_config_decode b = Inr c \<Longrightarrow> ech_fits c \<and> ech_wf c"
  using ech_config_decode_from_Inr [of "reader_new b" c]
  by (auto simp: ech_config_decode_def result_iffs ech_wf_def split: if_splits)

lemma ech_key_set_load_Inr:
  "ech_key_set_load fs dec p = Inr ks \<longleftrightarrow>
     (\<exists>bundles. load_bundles fs p = Inr bundles \<and> load_pairs dec bundles [] = Inr (key_pairs ks)
        \<and> distinct (map (\<lambda>q. config_id (kp_config q)) (key_pairs ks)))"
  by (cases ks) (auto simp: ech_key_set_load_def result_iffs duplicate_id_None split: option.splits)

lemma ech_key_set_wf:
  assumes "ech_key_set_load fs dec p = Inr ks"
  shows "key_pairs ks \<noteq> [] \<and> distinct (map (\<lambda>q. config_id (kp_config q)) (key_pairs ks))
    \<and> (\<forall>q \<in> set (key_pairs ks). \<exists>b. ech_config_encode (kp_config q) = Some b
         \<and> ech_config_decode b = Inr (kp_config q))"
proof -
  from assms obtain bundles where l: "load_bundles fs p = Inr bundles"
    "load_pairs dec bundles [] = Inr (key_pairs ks)"
    and d: "distinct (map (\<lambda>q. config_id (kp_config q)) (key_pairs ks))"
    by (auto simp: ech_key_set_load_Inr)
  from load_pairs_wf [OF l(2)] load_bundles_nonempty [OF l(1)]
  have "key_pairs ks \<noteq> []" "\<forall>q \<in> set (key_pairs ks). \<exists>b. ech_config_decode b = Inr (kp_config q)"
    by auto
  moreover have "\<exists>b. ech_config_encode c = Some b \<and> ech_config_decode b = Inr c" if "ech_fits c" "ech_wf c" for c
    using that ech_decode_encode by (auto simp: ech_config_encode_eq ech_wf_def)
  ultimately show ?thesis using d decode_fits by blast
qed

text \<open>C40. A key set that loads is not empty, has pairwise different configuration identifiers, and every
  configuration in it can be serialised again without aborting.\<close>

theorem ech_key_set_load_wf:
  assumes "ech_key_set_load fs dec p = Inr ks"
  shows "key_pairs ks \<noteq> [] \<and> distinct (map (\<lambda>q. config_id (kp_config q)) (key_pairs ks))
    \<and> (\<forall>q \<in> set (key_pairs ks). \<exists>b. ech_config_encode (kp_config q) = Some b
         \<and> ech_config_decode b = Inr (kp_config q))"
  using assms by (rule ech_key_set_wf)

text \<open>A file system with one key file.\<close>

definition single_file :: "fs_path \<Rightarrow> bytes \<Rightarrow> file_system" where
  "single_file p b = \<lparr>fs_is_dir = (\<lambda>q. if q = p then Some False else None), fs_read_dir = (\<lambda>_. None),
     fs_is_file = (\<lambda>q. q = p), fs_read = (\<lambda>q. if q = p then Some b else None)\<rparr>"

lemma load_single_file:
  "parse_pem_bundle dec b = Inr prs \<Longrightarrow> prs \<noteq> [] \<Longrightarrow> distinct (map (\<lambda>q. config_id (kp_config q)) prs) \<Longrightarrow>
     ech_key_set_load (single_file p b) dec p = Inr \<lparr>key_pairs = prs\<rparr>"
  by (simp add: ech_key_set_load_Inr load_bundles_def single_file_def)

lemma sample_load:
  "\<exists>b. ech_key_set_load (single_file [] b) unhex [] = Inr \<lparr>key_pairs = [sample_pair 1, sample_pair 2]\<rparr>"
proof -
  obtain s t where "encode_pair_pem hex (private_key (sample_pair 1)) (kp_config (sample_pair 1)) = Some s"
    "encode_pair_pem hex (private_key (sample_pair 2)) (kp_config (sample_pair 2)) = Some t"
    using sample_pair_pem by metis
  then have "parse_pem_bundle unhex (as_bytes (concat [s, t])) = Inr [sample_pair 1, sample_pair 2]"
    by (intro parse_pem_pairs [OF base64_codec_hex]) (auto simp: sample_pair_def sample_config_ok)
  from load_single_file [OF this] show ?thesis
    by (intro exI [of _ "as_bytes (concat [s, t])"]) (simp add: sample_pair_def sample_config_def)
qed

theorem ech_key_set_load_wf_witness:
  "\<exists>b ks. ech_key_set_load (single_file [] b) unhex [] = Inr ks
     \<and> distinct (map (\<lambda>q. config_id (kp_config q)) (key_pairs ks)) \<and> length (key_pairs ks) = 2"
proof -
  obtain b where "ech_key_set_load (single_file [] b) unhex [] = Inr \<lparr>key_pairs = [sample_pair 1, sample_pair 2]\<rparr>"
    using sample_load by blast
  with ech_key_set_load_wf [OF this] show ?thesis
    by (intro exI [of _ b] exI [of _ "\<lparr>key_pairs = [sample_pair 1, sample_pair 2]\<rparr>"]) auto
qed

text \<open>Loading a directory does not depend on the order in which the file system lists it, nor on
  entries whose names start with a dot: two listings with the same visible names load alike.\<close>

theorem ech_key_set_load_order:
  assumes "fs_read_dir fs p = Some l1"
    and "mset (filter visible_name (List.map_filter id l1)) = mset (filter visible_name (List.map_filter id l2))"
  shows "ech_key_set_load (fs\<lparr>fs_read_dir := (fs_read_dir fs)(p := Some l2)\<rparr>) dec p = ech_key_set_load fs dec p"
proof -
  have reads: "read_entries (fs\<lparr>fs_read_dir := d\<rparr>) entries acc = read_entries fs entries acc" for d entries acc
    by (induction entries arbitrary: acc) (auto split: option.splits)
  have "sort (map (\<lambda>n. p @ [n]) (filter visible_name (List.map_filter id l1)))
      = sort (map (\<lambda>n. p @ [n]) (filter visible_name (List.map_filter id l2)))"
    using assms(2) by (intro properties_for_sort) simp_all
  then have "load_bundles (fs\<lparr>fs_read_dir := (fs_read_dir fs)(p := Some l2)\<rparr>) p = load_bundles fs p"
    using assms(1) by (cases "fs_is_dir fs p") (auto simp: load_bundles_def reads)
  then show ?thesis by (simp add: ech_key_set_load_def)
qed

text \<open>A directory whose every entry is a readable file with the given contents.\<close>

definition flat_dir :: "bytes option list \<Rightarrow> (fs_path \<Rightarrow> bytes option) \<Rightarrow> file_system" where
  "flat_dir listing files = \<lparr>fs_is_dir = (\<lambda>q. Some (q = [])), fs_read_dir = (\<lambda>q. if q = [] then Some listing else None),
     fs_is_file = (\<lambda>q. files q \<noteq> None), fs_read = files\<rparr>"

theorem ech_key_set_load_order_witness:
  "ech_key_set_load ((flat_dir [Some [98], Some [46, 97], Some [97]] (\<lambda>_. None))
        \<lparr>fs_read_dir := (fs_read_dir (flat_dir [Some [98], Some [46, 97], Some [97]] (\<lambda>_. None)))
            ([] := Some [Some [97], None, Some [98]])\<rparr>) unhex []
   = ech_key_set_load (flat_dir [Some [98], Some [46, 97], Some [97]] (\<lambda>_. None)) unhex []"
proof (rule ech_key_set_load_order)
  show "fs_read_dir (flat_dir [Some [98], Some [46, 97], Some [97]] (\<lambda>_. None)) [] = Some [Some [98], Some [46, 97], Some [97]]"
    by (simp add: flat_dir_def)
  show "mset (filter visible_name (List.map_filter id [Some [98], Some [46, 97], Some [97]]))
      = mset (filter visible_name (List.map_filter id [Some [97], None, Some [98]]))"
    by (simp add: List.map_filter_simps visible_name_def from_utf8_def utf8_valid.simps utf8_len_def
        str_of_bytes_def char_of_def bit_simps)
qed

text \<open>Keys that share a configuration identifier are always refused, and the error names an
  identifier that really occurs twice.\<close>

theorem ech_key_set_load_duplicates:
  assumes "load_bundles fs p = Inr bundles" and "load_pairs dec bundles [] = Inr prs"
  shows "(ech_key_set_load fs dec p = Inr \<lparr>key_pairs = prs\<rparr> \<longleftrightarrow> distinct (map (\<lambda>q. config_id (kp_config q)) prs))
    \<and> (\<forall>e. ech_key_set_load fs dec p = Inl e \<longrightarrow>
         (\<exists>i. e = Duplicate_Config_Id i \<and> 1 < count_list (map (\<lambda>q. config_id (kp_config q)) prs) i))"
  using assms duplicate_id_Some [of "map (\<lambda>q. config_id (kp_config q)) prs"]
    duplicate_id_None [of "map (\<lambda>q. config_id (kp_config q)) prs"]
  by (auto simp: ech_key_set_load_def split: option.splits)

theorem ech_key_set_load_duplicates_witness:
  "\<exists>b. ech_key_set_load (single_file [] b) unhex [] = Inl (Duplicate_Config_Id 1)"
proof -
  obtain s where "encode_pair_pem hex (private_key (sample_pair 1)) (kp_config (sample_pair 1)) = Some s"
    using sample_pair_pem by metis
  then have "parse_pem_bundle unhex (as_bytes (concat [s, s])) = Inr [sample_pair 1, sample_pair 1]"
    by (intro parse_pem_pairs [OF base64_codec_hex]) (auto simp: sample_pair_def sample_config_ok)
  then have "load_bundles (single_file [] (as_bytes (concat [s, s]))) [] = Inr [([], as_bytes (concat [s, s]))]"
    "load_pairs unhex [([], as_bytes (concat [s, s]))] [] = Inr [sample_pair 1, sample_pair 1]"
    by (simp_all add: load_bundles_def single_file_def)
  note * = ech_key_set_load_duplicates [OF this] this
  then obtain e where e: "ech_key_set_load (single_file [] (as_bytes (concat [s, s]))) unhex [] = Inl e"
    by (cases "ech_key_set_load (single_file [] (as_bytes (concat [s, s]))) unhex []")
      (auto simp only: ech_key_set_load_Inr, auto)
  with * show ?thesis
    by (intro exI [of _ "as_bytes (concat [s, s])"])
      (auto simp: sample_pair_def sample_config_def split: if_splits)
qed

lemma config_list_bytes_eq:
  assumes "\<forall>q \<in> set (key_pairs ks). ech_fits (kp_config q)"
  shows "config_list_bytes ks = None \<longleftrightarrow> 2 ^ 16 \<le> (\<Sum>q \<leftarrow> key_pairs ks. ech_encoded_len (kp_config q))"
proof -
  obtain body where body: "encode_configs (map kp_config (key_pairs ks)) [] = Some body"
    using assms encode_configs_None [of "map kp_config (key_pairs ks)"] by fastforce
  from encode_configs_length [OF this] body show ?thesis
    by (auto simp: config_list_bytes_def encode_list_def try_from_len_def comp_def not_less)
qed

text \<open>The published list of a loaded key set aborts the server exactly when the serialised
  configurations together need more than 65535 bytes: the loader accepts such sets.\<close>

theorem config_list_bytes_abort:
  assumes "ech_key_set_load fs dec p = Inr ks"
  shows "config_list_bytes ks = None \<longleftrightarrow> 65535 < (\<Sum>q \<leftarrow> key_pairs ks. ech_encoded_len (kp_config q))"
proof -
  from assms have "\<forall>q \<in> set (key_pairs ks). ech_fits (kp_config q)"
    using load_pairs_wf decode_fits by (fastforce simp: ech_key_set_load_Inr)
  from config_list_bytes_eq [OF this] show ?thesis by auto
qed

theorem config_list_bytes_abort_witness:
  "\<exists>b ks. ech_key_set_load (single_file [] b) unhex [] = Inr ks \<and> config_list_bytes ks \<noteq> None"
proof -
  obtain b where "ech_key_set_load (single_file [] b) unhex [] = Inr \<lparr>key_pairs = [sample_pair 1, sample_pair 2]\<rparr>"
    using sample_load by blast
  with config_list_bytes_abort [OF this] show ?thesis
    by (intro exI [of _ b] exI [of _ "\<lparr>key_pairs = [sample_pair 1, sample_pair 2]\<rparr>"])
      (simp add: sample_pair_def sample_config_def ech_encoded_len_def)
qed

end
