(* ===== verification/Quic_Config.thy ===== *)
theory Quic_Config
  imports Ech_Key Rules Quic_Socket
begin

text \<open>
  TLS and transport configuration of \<^verbatim>\<open>src/src/quic.rs\<close>.  A BoringSSL context builder is the list of calls made on
  it with their outcomes; the parameter \<open>ssl\<close> answers a call from the calls before it, as BoringSSL may.  A
  configuration is that list with the transport parameters set on top; the parameter \<open>qc\<close> answers the two setters
  that can fail.  The certificate callback is kept as the list of hosts its closure captures.
\<close>

section \<open>Calls\<close>

type_synonym path = string

datatype tls_version = TLS1_3

datatype verify_mode = Verify_None | Verify_Peer

datatype ssl_op =
    Builder_New
  | Min_Proto_Version tls_version
  | Max_Proto_Version tls_version
  | Certificate_Chain_File path
  | Private_Key_File path
  | Check_Private_Key
  | Ech_Keys_New
  | Hpke_Key bytes
  | Ech_Add_Key bool bytes bytes
  | Set_Ech_Keys
  | Select_Certificate_Callback "string list"
  | Set_Verify verify_mode
  | Default_Verify_Paths
  | Ca_File path
  | Ech_Info_Callback bytes
  | Into_Quiche_Config

type_synonym builder = "(ssl_op \<times> bool) list"

type_synonym boring = "builder \<Rightarrow> ssl_op \<Rightarrow> bool"

datatype quic_param =
    Application_Protos "bytes list"
  | Max_Idle_Timeout u64
  | Cc_Algorithm_Name string
  | Max_Recv_Udp_Payload_Size nat
  | Max_Send_Udp_Payload_Size nat
  | Initial_Max_Data u64
  | Initial_Max_Stream_Data_Bidi_Local u64
  | Initial_Max_Stream_Data_Bidi_Remote u64
  | Initial_Max_Stream_Data_Uni u64
  | Initial_Max_Streams_Bidi u64
  | Initial_Max_Streams_Uni u64
  | Disable_Active_Migration bool
  | Enable_Dgram bool nat nat

record quic_config =
  cfg_tls :: builder
  cfg_params :: "quic_param list"

datatype config_error =
    Ssl_Failed ssl_op
  | Ech_Key_Invalid u8
  | Ech_Add_Failed u8
  | Param_Failed quic_param

text \<open>A call whose failure is an error, one whose outcome is ignored, and one that cannot fail.\<close>

definition ssl_try :: "boring \<Rightarrow> ssl_op \<Rightarrow> builder \<Rightarrow> config_error + builder" where
  "ssl_try ssl op b = (if ssl b op then Inr (b @ [(op, True)]) else Inl (Ssl_Failed op))"

definition ssl_do :: "ssl_op \<Rightarrow> builder \<Rightarrow> builder" where
  "ssl_do op b = b @ [(op, True)]"

definition param_try :: "(quic_param list \<Rightarrow> quic_param \<Rightarrow> bool) \<Rightarrow> quic_param \<Rightarrow> quic_config \<Rightarrow> config_error + quic_config" where
  "param_try qc prm cfg =
     (if qc (cfg_params cfg) prm then Inr (cfg\<lparr>cfg_params := cfg_params cfg @ [prm]\<rparr>) else Inl (Param_Failed prm))"

definition param_do :: "quic_param \<Rightarrow> quic_config \<Rightarrow> quic_config" where
  "param_do prm cfg = cfg\<lparr>cfg_params := cfg_params cfg @ [prm]\<rparr>"

section \<open>Transport parameters\<close>

definition ALPN_H3 :: "bytes list" where
  "ALPN_H3 = [as_bytes ''h3'']"

definition IDLE_TIMEOUT_MS :: u64 where
  "IDLE_TIMEOUT_MS = 10000"

definition DGRAM_QUEUE_LEN :: nat where
  "DGRAM_QUEUE_LEN = 65536"

definition apply_transport_params :: "(quic_param list \<Rightarrow> quic_param \<Rightarrow> bool) \<Rightarrow> quic_config \<Rightarrow> config_error + quic_config" where
  "apply_transport_params qc cfg =
     and_then (param_try qc (Application_Protos ALPN_H3) cfg) (\<lambda>cfg.
     and_then (param_try qc (Cc_Algorithm_Name ''bbr2_gcongestion'') (param_do (Max_Idle_Timeout IDLE_TIMEOUT_MS) cfg)) (\<lambda>cfg.
     Inr (fold param_do
       [Max_Recv_Udp_Payload_Size MAX_UDP_PAYLOAD, Max_Send_Udp_Payload_Size MAX_UDP_PAYLOAD,
        Initial_Max_Data 10000000, Initial_Max_Stream_Data_Bidi_Local 2000000,
        Initial_Max_Stream_Data_Bidi_Remote 2000000, Initial_Max_Stream_Data_Uni 2000000,
        Initial_Max_Streams_Bidi 128, Initial_Max_Streams_Uni 128, Disable_Active_Migration True,
        Enable_Dgram True DGRAM_QUEUE_LEN DGRAM_QUEUE_LEN] cfg)))"

section \<open>Server\<close>

text \<open>Adding one key; serialising its configuration is \<^const>\<open>None\<close> when it panics.\<close>

fun add_ech_keys :: "boring \<Rightarrow> ech_key_pair list \<Rightarrow> builder \<Rightarrow> (config_error + builder) option" where
  "add_ech_keys ssl [] b = Some (Inr b)"
| "add_ech_keys ssl (pair # pairs) b =
     (if \<not> ssl b (Hpke_Key (private_key pair)) then Some (Inl (Ech_Key_Invalid (config_id (kp_config pair))))
      else
        let b = ssl_do (Hpke_Key (private_key pair)) b in do {
        enc \<leftarrow> ech_config_encode (kp_config pair);
        (if \<not> ssl b (Ech_Add_Key True enc (private_key pair)) then Some (Inl (Ech_Add_Failed (config_id (kp_config pair))))
         else add_ech_keys ssl pairs (ssl_do (Ech_Add_Key True enc (private_key pair)) b))
      })"

definition install_ech_keys :: "boring \<Rightarrow> ech_key_set \<Rightarrow> builder \<Rightarrow> (config_error + builder) option" where
  "install_ech_keys ssl ech b =
     (case ssl_try ssl Ech_Keys_New b of
        Inl e \<Rightarrow> Some (Inl e)
      | Inr b \<Rightarrow> map_option (\<lambda>r. and_then r (ssl_try ssl Set_Ech_Keys)) (add_ech_keys ssl (key_pairs ech) b))"

text \<open>The body of the certificate callback: whether a handshake with this server name goes on.\<close>

definition sni_guard :: "string list \<Rightarrow> string option \<Rightarrow> bool" where
  "sni_guard allowed_hosts servername =
     (case servername of
        None \<Rightarrow> False
      | Some sni \<Rightarrow> list_ex (\<lambda>h. eq_ignore_ascii_case h sni) allowed_hosts)"

definition install_sni_guard :: "string list \<Rightarrow> builder \<Rightarrow> builder" where
  "install_sni_guard allowed_hosts b = ssl_do (Select_Certificate_Callback allowed_hosts) b"

definition into_config :: "boring \<Rightarrow> (quic_param list \<Rightarrow> quic_param \<Rightarrow> bool) \<Rightarrow> builder \<Rightarrow> config_error + quic_config" where
  "into_config ssl qc b =
     and_then (ssl_try ssl Into_Quiche_Config b) (\<lambda>b. apply_transport_params qc \<lparr>cfg_tls = b, cfg_params = []\<rparr>)"

definition build_server_config :: "boring \<Rightarrow> (quic_param list \<Rightarrow> quic_param \<Rightarrow> bool) \<Rightarrow> path \<Rightarrow> path \<Rightarrow>
    ech_key_set option \<Rightarrow> string list \<Rightarrow> (config_error + quic_config) option" where
  "build_server_config ssl qc cert_path key_path ech allowed_hosts =
     (case and_then (ssl_try ssl Builder_New []) (\<lambda>b.
           and_then (ssl_try ssl (Min_Proto_Version TLS1_3) b) (\<lambda>b.
           and_then (ssl_try ssl (Max_Proto_Version TLS1_3) b) (\<lambda>b.
           and_then (ssl_try ssl (Certificate_Chain_File cert_path) b) (\<lambda>b.
           and_then (ssl_try ssl (Private_Key_File key_path) b) (\<lambda>b.
           ssl_try ssl Check_Private_Key b))))) of
        Inl e \<Rightarrow> Some (Inl e)
      | Inr b \<Rightarrow> do {
          r \<leftarrow> (case ech of None \<Rightarrow> Some (Inr b) | Some ks \<Rightarrow> install_ech_keys ssl ks b);
          Some (and_then r (\<lambda>b. into_config ssl qc (install_sni_guard allowed_hosts b)))
        })"

section \<open>Client\<close>

definition CA_BUNDLE_PATHS :: "path list" where
  "CA_BUNDLE_PATHS = [''/etc/ssl/certs/ca-certificates.crt'', ''/etc/pki/tls/certs/ca-bundle.crt'',
     ''/etc/ssl/cert.pem'', ''/etc/ssl/ca-bundle.pem'']"

fun probe_bundles :: "boring \<Rightarrow> (path \<Rightarrow> bool) \<Rightarrow> path list \<Rightarrow> builder \<Rightarrow> builder" where
  "probe_bundles ssl file_exists [] b = b"
| "probe_bundles ssl file_exists (p # ps) b =
     (if file_exists p then
        if ssl b (Ca_File p) then b @ [(Ca_File p, True)]
        else probe_bundles ssl file_exists ps (b @ [(Ca_File p, False)])
      else probe_bundles ssl file_exists ps b)"

definition load_system_roots :: "boring \<Rightarrow> (path \<Rightarrow> bool) \<Rightarrow> builder \<Rightarrow> builder" where
  "load_system_roots ssl file_exists b =
     probe_bundles ssl file_exists CA_BUNDLE_PATHS (b @ [(Default_Verify_Paths, ssl b Default_Verify_Paths)])"

datatype verify = Roots "path option" | Insecure

definition install_client_ech :: "bytes \<Rightarrow> builder \<Rightarrow> builder" where
  "install_client_ech config_list b = ssl_do (Ech_Info_Callback config_list) b"

definition build_client_config :: "boring \<Rightarrow> (quic_param list \<Rightarrow> quic_param \<Rightarrow> bool) \<Rightarrow> (path \<Rightarrow> bool) \<Rightarrow> verify \<Rightarrow>
    bytes option \<Rightarrow> config_error + quic_config" where
  "build_client_config ssl qc file_exists v ech_config_list =
     and_then (ssl_try ssl Builder_New []) (\<lambda>b.
     and_then (ssl_try ssl (Min_Proto_Version TLS1_3) b) (\<lambda>b.
     and_then (ssl_try ssl (Max_Proto_Version TLS1_3) b) (\<lambda>b.
     and_then (case v of
         Insecure \<Rightarrow> Inr (ssl_do (Set_Verify Verify_None) b)
       | Roots ca_file \<Rightarrow>
           let b = load_system_roots ssl file_exists (ssl_do (Set_Verify Verify_Peer) b) in
           case ca_file of None \<Rightarrow> Inr b | Some ca \<Rightarrow> ssl_try ssl (Ca_File ca) b) (\<lambda>b.
     into_config ssl qc (case ech_config_list of None \<Rightarrow> b | Some l \<Rightarrow> install_client_ech l b)))))"

section \<open>HTTP/3\<close>

record h3_config =
  extended_connect :: bool

definition build_h3_config :: "(string + h3_config) \<Rightarrow> string + h3_config" where
  "build_h3_config h3_config_new = and_then h3_config_new (\<lambda>h3. Inr (h3\<lparr>extended_connect := True\<rparr>))"

section \<open>What a configuration says\<close>

text \<open>The value a setting has in the end: that of the last call that made it.\<close>

fun setting :: "(ssl_op \<Rightarrow> 'a option) \<Rightarrow> builder \<Rightarrow> 'a option" where
  "setting f [] = None"
| "setting f ((op, ok) # b) = (case setting f b of Some v \<Rightarrow> Some v | None \<Rightarrow> if ok then f op else None)"

fun min_proto_of :: "ssl_op \<Rightarrow> tls_version option" where
  "min_proto_of (Min_Proto_Version v) = Some v"
| "min_proto_of _ = None"

fun max_proto_of :: "ssl_op \<Rightarrow> tls_version option" where
  "max_proto_of (Max_Proto_Version v) = Some v"
| "max_proto_of _ = None"

fun verify_of :: "ssl_op \<Rightarrow> verify_mode option" where
  "verify_of (Set_Verify m) = Some m"
| "verify_of _ = None"

fun sni_hosts_of :: "ssl_op \<Rightarrow> string list option" where
  "sni_hosts_of (Select_Certificate_Callback hosts) = Some hosts"
| "sni_hosts_of _ = None"

fun ech_offer_of :: "ssl_op \<Rightarrow> bytes option" where
  "ech_offer_of (Ech_Info_Callback l) = Some l"
| "ech_offer_of _ = None"

fun ech_key_of :: "ssl_op \<Rightarrow> (bytes \<times> bytes) option" where
  "ech_key_of (Ech_Add_Key True enc key) = Some (enc, key)"
| "ech_key_of _ = None"

fun ech_keys_in :: "builder \<Rightarrow> (bytes \<times> bytes) list" where
  "ech_keys_in [] = []"
| "ech_keys_in ((op, ok) # b) = (case (if ok then ech_key_of op else None) of None \<Rightarrow> [] | Some k \<Rightarrow> [k]) @ ech_keys_in b"

definition ech_installed :: "quic_config \<Rightarrow> (bytes \<times> bytes) list" where
  "ech_installed cfg = ech_keys_in (cfg_tls cfg)"

text \<open>Whether the server goes on with a handshake for this name.\<close>

definition sni_admitted :: "quic_config \<Rightarrow> string option \<Rightarrow> bool" where
  "sni_admitted cfg sni =
     (case setting sni_hosts_of (cfg_tls cfg) of None \<Rightarrow> True | Some hosts \<Rightarrow> sni_guard hosts sni)"

lemma setting_append [simp]: "setting f (b @ b') = (case setting f b' of Some v \<Rightarrow> Some v | None \<Rightarrow> setting f b)"
  by (induction f b rule: setting.induct) (auto split: option.split)

lemma ech_keys_in_append [simp]: "ech_keys_in (b @ b') = ech_keys_in b @ ech_keys_in b'"
  by (induction b rule: ech_keys_in.induct) auto

lemma ssl_try_Inr [simp]: "ssl_try ssl op b = Inr b' \<longleftrightarrow> ssl b op \<and> b' = b @ [(op, True)]"
  by (auto simp: ssl_try_def)

lemma apply_transport_params_tls: "apply_transport_params qc cfg = Inr cfg' \<Longrightarrow> cfg_tls cfg' = cfg_tls cfg"
  by (auto simp: apply_transport_params_def param_try_def param_do_def result_iffs split: if_splits)

lemma into_config_tls: "into_config ssl qc b = Inr cfg \<Longrightarrow> cfg_tls cfg = b @ [(Into_Quiche_Config, True)]"
  by (auto simp: into_config_def result_iffs dest: apply_transport_params_tls)

text \<open>Probing for system roots only ever adds CA files.\<close>

lemma probe_bundles_keeps:
  assumes "\<And>p. f (Ca_File p) = None"
  shows "setting f (probe_bundles ssl ex ps b) = setting f b"
  using assms by (induction ssl ex ps b rule: probe_bundles.induct) auto

lemma load_system_roots_keeps:
  "setting min_proto_of (load_system_roots ssl ex b) = setting min_proto_of b"
  "setting max_proto_of (load_system_roots ssl ex b) = setting max_proto_of b"
  "setting verify_of (load_system_roots ssl ex b) = setting verify_of b"
  "setting ech_offer_of (load_system_roots ssl ex b) = setting ech_offer_of b"
  by (simp_all add: load_system_roots_def probe_bundles_keeps)

lemma client_config_spec:
  assumes "build_client_config ssl qc file_exists v ech_config_list = Inr cfg"
  shows "setting verify_of (cfg_tls cfg) = Some (case v of Insecure \<Rightarrow> Verify_None | Roots _ \<Rightarrow> Verify_Peer)
     \<and> (\<forall>ca. v = Roots (Some ca) \<longrightarrow> (Ca_File ca, True) \<in> set (cfg_tls cfg))
     \<and> setting min_proto_of (cfg_tls cfg) = Some TLS1_3 \<and> setting max_proto_of (cfg_tls cfg) = Some TLS1_3
     \<and> setting ech_offer_of (cfg_tls cfg) = ech_config_list"
  using assms
  by (auto simp: build_client_config_def result_iffs ssl_do_def install_client_ech_def Let_def load_system_roots_keeps
      dest!: into_config_tls split: verify.splits option.splits)

text \<open>C27. The client's certificate check is off only when it was asked to be: a configuration built from trust
  roots verifies the peer, whatever system bundles are missing or refused, with the given extra CA loaded;
  both ways it speaks TLS 1.3 only and offers exactly the given ECH list.\<close>

theorem client_config_verifies:
  assumes "build_client_config ssl qc file_exists v ech_config_list = Inr cfg"
  shows "setting verify_of (cfg_tls cfg) = Some (case v of Insecure \<Rightarrow> Verify_None | Roots _ \<Rightarrow> Verify_Peer)
     \<and> (\<forall>ca. v = Roots (Some ca) \<longrightarrow> (Ca_File ca, True) \<in> set (cfg_tls cfg))
     \<and> setting min_proto_of (cfg_tls cfg) = Some TLS1_3 \<and> setting max_proto_of (cfg_tls cfg) = Some TLS1_3
     \<and> setting ech_offer_of (cfg_tls cfg) = ech_config_list"
  using assms by (rule client_config_spec)

theorem client_config_verifies_witness:
  "\<exists>cfg. build_client_config (\<lambda>_ _. True) (\<lambda>_ _. True) (\<lambda>_. False) (Roots (Some ''/ca.pem'')) (Some [1]) = Inr cfg
     \<and> setting verify_of (cfg_tls cfg) = Some Verify_Peer \<and> setting ech_offer_of (cfg_tls cfg) = Some [1]"
proof -
  obtain cfg where c: "build_client_config (\<lambda>_ _. True) (\<lambda>_ _. True) (\<lambda>_. False) (Roots (Some ''/ca.pem'')) (Some [1]) = Inr cfg"
    by (simp add: build_client_config_def ssl_try_def into_config_def apply_transport_params_def param_try_def Let_def)
  from client_config_verifies [OF c] c show ?thesis by simp
qed

section \<open>Server configurations\<close>

lemma add_ech_keys_Inr:
  "add_ech_keys ssl pairs b = Some (Inr b') \<Longrightarrow>
     setting sni_hosts_of b' = setting sni_hosts_of b
     \<and> (\<exists>encs. ech_keys_in b' = ech_keys_in b @ zip encs (map private_key pairs)
        \<and> map Some encs = map (ech_config_encode \<circ> kp_config) pairs)"
proof (induction pairs arbitrary: b)
  case (Cons pair pairs)
  let ?b1 = "ssl_do (Hpke_Key (private_key pair)) b"
  from Cons.prems obtain enc where e: "ech_config_encode (kp_config pair) = Some enc"
    and r: "add_ech_keys ssl pairs (ssl_do (Ech_Add_Key True enc (private_key pair)) ?b1) = Some (Inr b')"
    by (auto simp: Let_def bind_eq_Some_conv split: if_splits)
  from Cons.IH [OF r] obtain encs where "setting sni_hosts_of b' = setting sni_hosts_of b"
    "ech_keys_in b' = ech_keys_in b @ (enc, private_key pair) # zip encs (map private_key pairs)"
    "map Some encs = map (ech_config_encode \<circ> kp_config) pairs"
    by (auto simp: ssl_do_def)
  with e show ?case by (intro conjI exI [of _ "enc # encs"]) simp_all
qed auto

lemma server_config_spec:
  assumes "build_server_config ssl qc cert key ech hosts = Some (Inr cfg)"
  shows "setting sni_hosts_of (cfg_tls cfg) = Some hosts"
    and "\<exists>encs. ech_installed cfg = zip encs (case ech of None \<Rightarrow> [] | Some ks \<Rightarrow> map private_key (key_pairs ks))
      \<and> map Some encs = (case ech of None \<Rightarrow> [] | Some ks \<Rightarrow> map (ech_config_encode \<circ> kp_config) (key_pairs ks))"
proof -
  let ?b = "[(Builder_New, True), (Min_Proto_Version TLS1_3, True), (Max_Proto_Version TLS1_3, True),
    (Certificate_Chain_File cert, True), (Private_Key_File key, True), (Check_Private_Key, True)]"
  from assms obtain b' where b': "(case ech of None \<Rightarrow> Some (Inr ?b) | Some ks \<Rightarrow> install_ech_keys ssl ks ?b) = Some (Inr b')"
    and cfg: "into_config ssl qc (install_sni_guard hosts b') = Inr cfg"
    by (auto simp: build_server_config_def bind_eq_Some_conv result_iffs split: sum.splits)
  from into_config_tls [OF cfg] have tls: "cfg_tls cfg = b' @ [(Select_Certificate_Callback hosts, True), (Into_Quiche_Config, True)]"
    by (simp add: install_sni_guard_def ssl_do_def)
  then show "setting sni_hosts_of (cfg_tls cfg) = Some hosts" by simp
  show "\<exists>encs. ech_installed cfg = zip encs (case ech of None \<Rightarrow> [] | Some ks \<Rightarrow> map private_key (key_pairs ks))
      \<and> map Some encs = (case ech of None \<Rightarrow> [] | Some ks \<Rightarrow> map (ech_config_encode \<circ> kp_config) (key_pairs ks))"
  proof (cases ech)
    case None
    with b' tls show ?thesis by (auto simp: ech_installed_def)
  next
    case (Some ks)
    with b' obtain b2 where b2: "add_ech_keys ssl (key_pairs ks) (?b @ [(Ech_Keys_New, True)]) = Some (Inr b2)"
      "b' = b2 @ [(Set_Ech_Keys, True)]"
      by (auto simp: install_ech_keys_def result_iffs split: sum.splits)
    from add_ech_keys_Inr [OF b2(1)] tls b2(2) Some show ?thesis by (simp add: ech_installed_def)
  qed
qed

end
