(* ===== verification/Client.thy ===== *)
theory Client
  imports Dgram Connect_Udp Udp_Io Util Quic_Config
begin

text \<open>
  The proxy client of \<^verbatim>\<open>src/src/client.rs\<close>: dialing, one session over a QUIC connection with a flow per local
  source address, and the reconnect loop.  QUIC and HTTP/3 are the parameter \<open>q\<close>, the machine is \<open>k\<close>; random
  connection identifiers, the order in which a hash map is iterated and what each wake-up delivers are
  arguments.  \<^const>\<open>None\<close> stands for not returning.
\<close>

section \<open>Constants and data\<close>

definition KEEPALIVE :: duration where
  "KEEPALIVE = from_secs 1"

definition MAX_PENDING :: nat where
  "MAX_PENDING = 32"

definition RECONNECT_MIN :: duration where
  "RECONNECT_MIN = from_millis 100"

definition RECONNECT_MAX :: duration where
  "RECONNECT_MAX = from_secs 5"

record connect_params =
  cp_endpoint :: endpoint
  cp_proxy_addr :: "socket_addr option"
  cp_verify :: verify
  cp_ech_config_list :: "bytes option"

record proxy_options =
  po_conn :: connect_params
  po_listen :: socket_addr

record 'c dialed =
  d_socket :: fd
  d_conn :: 'c
  d_local_addr :: socket_addr
  d_path :: string
  d_authority :: string

record flow_state =
  fs_flow_id :: "u64 option"
  fs_established :: bool
  fs_pending :: "bytes list"

text \<open>What the client asks of its surroundings besides the machine and \<^verbatim>\<open>quiche\<close>: BoringSSL and \<^verbatim>\<open>quiche\<close> configuration
  calls, which files exist, name resolution, the address a \<^verbatim>\<open>getsockname\<close> answer stands for, and whether an HTTP/3
  configuration can be made.\<close>

record client_env =
  ce_ssl :: boring
  ce_qc :: "quic_param list \<Rightarrow> quic_param \<Rightarrow> bool"
  ce_file_exists :: "path \<Rightarrow> bool"
  ce_to_socket_addrs :: "string \<Rightarrow> socket_addr list option"
  ce_addr_of :: "int \<Rightarrow> socket_addr"
  ce_h3_config_new :: "string + h3_config"

section \<open>Dialing\<close>

datatype dial_error =
    Dial_Config config_error
  | Dial_Resolve string
  | Dial_No_Addresses string
  | Dial_Bind bind_error
  | Dial_Local_Addr io_error
  | Dial_Connect quic_error

definition resolve_authority :: "(string \<Rightarrow> socket_addr list option) \<Rightarrow> string \<Rightarrow> dial_error + socket_addr" where
  "resolve_authority to_socket_addrs authority =
     (case to_socket_addrs authority of
        None \<Rightarrow> Inl (Dial_Resolve authority)
      | Some [] \<Rightarrow> Inl (Dial_No_Addresses authority)
      | Some (a # _) \<Rightarrow> Inr a)"

definition dial :: "kernel \<Rightarrow> ('c, 'h, quic_config) quiche \<Rightarrow> client_env \<Rightarrow> bytes \<Rightarrow> connect_params \<Rightarrow> trace \<Rightarrow>
    (dial_error + 'c dialed) \<times> trace" where
  "dial k q env conn_id p t =
     (let authority = ep_authority (cp_endpoint p) in
      case and_then (map_err Dial_Config
             (build_client_config (ce_ssl env) (ce_qc env) (ce_file_exists env) (cp_verify p) (cp_ech_config_list p)))
           (\<lambda>config. and_then (case cp_proxy_addr p of
                Some addr \<Rightarrow> Inr addr
              | None \<Rightarrow> resolve_authority (ce_to_socket_addrs env) authority)
           (\<lambda>proxy_addr. Inr (config, proxy_addr))) of
        Inl e \<Rightarrow> (Inl e, t)
      | Inr (config, proxy_addr) \<Rightarrow>
          (case bind_udp k (if addr_is_ipv4 proxy_addr then any_v4 else any_v6) t of
             (Inl e, t) \<Rightarrow> (Inl (Dial_Bind e), t)
           | (Inr fd, t) \<Rightarrow>
               (case sys k (Local_Addr fd) (enlarge_udp_buffers k fd t) of
                  (Inl e, t) \<Rightarrow> (Inl (Dial_Local_Addr (last_os_error e)), snd (sys k (Close fd) t))
                | (Inr n, t) \<Rightarrow>
                    (case q_connect q (host_of authority) conn_id (ce_addr_of env n) proxy_addr config of
                       Inl e \<Rightarrow> (Inl (Dial_Connect e), snd (sys k (Close fd) t))
                     | Inr conn \<Rightarrow>
                         (Inr \<lparr>d_socket = fd, d_conn = conn, d_local_addr = ce_addr_of env n,
                           d_path = ep_path (cp_endpoint p), d_authority = authority\<rparr>, t)))))"

section \<open>Flows\<close>

definition send_datagram :: "('c, 'h, 'g) quiche \<Rightarrow> u64 \<Rightarrow> bytes \<Rightarrow> 'c \<Rightarrow> 'c" where
  "send_datagram q flow_id data c = snd (q_dgram_send q c (dgram_encode flow_id data))"

definition flow_state_new :: flow_state where
  "flow_state_new = \<lparr>fs_flow_id = None, fs_established = False, fs_pending = []\<rparr>"

type_synonym by_addr = "socket_addr \<rightharpoonup> flow_state"

text \<open>One datagram from a local source: sent at once on an established flow, else kept up to the bound.\<close>

definition queue_local :: "('c, 'h, 'g) quiche \<Rightarrow> bytes \<times> socket_addr \<Rightarrow> 'c \<times> by_addr \<Rightarrow> 'c \<times> by_addr" where
  "queue_local q pkt cb =
     (case (pkt, cb) of ((data, src), (c, by_addr)) \<Rightarrow>
      let st = (case by_addr src of None \<Rightarrow> flow_state_new | Some st \<Rightarrow> st) in
      case (fs_established st, fs_flow_id st) of
        (True, Some fid) \<Rightarrow> (send_datagram q fid data c, by_addr(src \<mapsto> st))
      | _ \<Rightarrow> (c, by_addr(src \<mapsto> (if length (fs_pending st) < MAX_PENDING
                 then st\<lparr>fs_pending := fs_pending st @ [data]\<rparr> else st))))"

type_synonym ('c, 'h) flows_state = "'c \<times> 'h \<times> by_addr \<times> (u64 \<rightharpoonup> socket_addr)"

text \<open>The loop of \<^verbatim>\<open>open_pending_flows\<close> over the sources, with those to be dropped.\<close>

fun open_flows :: "('c, 'h, 'g) quiche \<Rightarrow> header list \<Rightarrow> socket_addr list \<Rightarrow> ('c, 'h) flows_state \<Rightarrow>
    socket_addr list \<Rightarrow> ('c, 'h) flows_state \<times> socket_addr list" where
  "open_flows q headers [] st dropped = (st, dropped)"
| "open_flows q headers (src # rest) (c, h, by_addr, flows) dropped =
     (case by_addr src of
        None \<Rightarrow> open_flows q headers rest (c, h, by_addr, flows) dropped
      | Some st \<Rightarrow>
          if fs_flow_id st \<noteq> None then open_flows q headers rest (c, h, by_addr, flows) dropped
          else (case h3_send_request q h c headers False of
                  (Inr stream_id, h, c) \<Rightarrow>
                    open_flows q headers rest
                      (c, h, by_addr(src \<mapsto> st\<lparr>fs_flow_id := Some (stream_id div 4)\<rparr>), flows(stream_id div 4 \<mapsto> src)) dropped
                | (Inl e, h, c) \<Rightarrow>
                    open_flows q headers rest (c, h, by_addr, flows) (if e = StreamBlocked then dropped else dropped @ [src])))"

definition open_pending_flows :: "('c, 'h, 'g) quiche \<Rightarrow> string \<Rightarrow> string \<Rightarrow> socket_addr list \<Rightarrow> ('c, 'h) flows_state \<Rightarrow>
    ('c, 'h) flows_state" where
  "open_pending_flows q authority path order st =
     (case open_flows q (connect_headers authority path) order st [] of
        ((c, h, by_addr, flows), dropped) \<Rightarrow> (c, h, by_addr |` (- set dropped), flows))"

definition remove_flow :: "u64 \<Rightarrow> by_addr \<times> (u64 \<rightharpoonup> socket_addr) \<Rightarrow> by_addr \<times> (u64 \<rightharpoonup> socket_addr)" where
  "remove_flow fid bf =
     (case bf of (by_addr, flows) \<Rightarrow>
      case flows fid of None \<Rightarrow> (by_addr, flows) | Some src \<Rightarrow> (by_addr(src := None), flows(fid := None)))"

text \<open>One event of the HTTP/3 connection.\<close>

fun client_event :: "('c, 'h, 'g) quiche \<Rightarrow> u64 \<Rightarrow> h3_event \<Rightarrow> ('c, 'h) flows_state \<Rightarrow> ('c, 'h) flows_state" where
  "client_event q stream_id (Headers list) (c, h, by_addr, flows) =
     (let fid = stream_id div 4 in
      case status_of list of
        None \<Rightarrow> (c, h, by_addr, flows)
      | Some s \<Rightarrow>
          if 200 \<le> s \<and> s < 300 then
            (case flows fid of
               None \<Rightarrow> (c, h, by_addr, flows)
             | Some src \<Rightarrow>
                 (case by_addr src of
                    None \<Rightarrow> (c, h, by_addr, flows)
                  | Some st \<Rightarrow>
                      (fold (send_datagram q fid) (fs_pending st) c, h,
                       by_addr(src \<mapsto> st\<lparr>fs_established := True, fs_pending := []\<rparr>), flows)))
          else (c, h, remove_flow fid (by_addr, flows)))"
| "client_event q stream_id Finished (c, h, bf) = (c, h, remove_flow (stream_id div 4) bf)"
| "client_event q stream_id (Reset _) (c, h, bf) = (c, h, remove_flow (stream_id div 4) bf)"
| "client_event q stream_id Data st = st"
| "client_event q stream_id H3_Other st = st"

partial_function (option) poll_responses :: "('c, 'h, 'g) quiche \<Rightarrow> ('c, 'h) flows_state \<Rightarrow> ('c, 'h) flows_state option" where
  "poll_responses q st =
     (case st of (c, h, bf) \<Rightarrow>
      case h3_poll q h c of
        (Inl e, h, c) \<Rightarrow> Some (c, h, bf)
      | (Inr (stream_id, ev), h, c) \<Rightarrow> poll_responses q (client_event q stream_id ev (c, h, bf)))"

partial_function (option) route_tunnel_datagrams :: "kernel \<Rightarrow> ('c, 'h, 'g) quiche \<Rightarrow> fd \<Rightarrow> (u64 \<rightharpoonup> socket_addr) \<Rightarrow>
    'c \<Rightarrow> trace \<Rightarrow> ('c \<times> trace) option" where
  "route_tunnel_datagrams k q lsock flows c t =
     (case q_dgram_recv q c MAX_DATAGRAM_SIZE of
        (Inl e, c) \<Rightarrow> Some (c, t)
      | (Inr d, c) \<Rightarrow>
          (case dgram_decode d of
             None \<Rightarrow> route_tunnel_datagrams k q lsock flows c t
           | Some p \<Rightarrow>
               if p_context_id p \<noteq> CONTEXT_ID_UDP then route_tunnel_datagrams k q lsock flows c t
               else (case flows (p_flow_id p) of
                       None \<Rightarrow> route_tunnel_datagrams k q lsock flows c t
                     | Some src \<Rightarrow> do {
                         (_, t) \<leftarrow> send_udp k lsock (p_payload p) src t;
                         route_tunnel_datagrams k q lsock flows c t
                       })))"

section \<open>One session\<close>

record ('c, 'h) tunnel =
  t_conn :: 'c
  t_http3 :: "'h option"
  t_established :: bool
  t_by_addr :: by_addr
  t_flows :: "u64 \<rightharpoonup> socket_addr"
  t_trace :: trace

text \<open>The arm of \<^verbatim>\<open>select!\<close> that fired; \<^const>\<open>None\<close> is the end of a channel.\<close>

datatype session_wake =
    Proxy_Packet "(bytes \<times> socket_addr) option"
  | Local_Packet "(bytes \<times> socket_addr) option"
  | Tunnel_Timeout
  | Keepalive

text \<open>What an iteration is given: the wake-up, what is drained from the two channels after it, and the order in
  which the table of sources is iterated.\<close>

record session_input =
  in_wake :: session_wake
  in_proxy :: "(bytes \<times> socket_addr) list"
  in_local :: "(bytes \<times> socket_addr) list"
  in_order :: "socket_addr list"

datatype session_flow = Session_Continue | Session_Return

definition proxy_pkts :: "session_input \<Rightarrow> (bytes \<times> socket_addr) list" where
  "proxy_pkts i = (case in_wake i of Proxy_Packet (Some p) \<Rightarrow> [p] | _ \<Rightarrow> []) @ in_proxy i"

definition local_pkts :: "session_input \<Rightarrow> (bytes \<times> socket_addr) list" where
  "local_pkts i = (case in_wake i of Local_Packet (Some p) \<Rightarrow> [p] | _ \<Rightarrow> []) @ in_local i"

text \<open>The connection after the packets and timers of the wake-up.\<close>

definition absorb :: "('c, 'h, 'g) quiche \<Rightarrow> socket_addr \<Rightarrow> session_input \<Rightarrow> 'c \<Rightarrow> 'c" where
  "absorb q local_addr i c =
     (let c = fold (\<lambda>(buf, src) c. snd (q_recv q c buf local_addr src)) (proxy_pkts i) c;
          c = (if in_wake i = Tunnel_Timeout then q_on_timeout q c else c)
      in if in_wake i = Keepalive then snd (q_send_ack_eliciting q c) else c)"

text \<open>Setting HTTP/3 up once the handshake allows it; \<^const>\<open>None\<close> ends the session.\<close>

definition ensure_http3 :: "('c, 'h, 'g) quiche \<Rightarrow> ('c, 'h) tunnel \<Rightarrow> ('c, 'h) tunnel option" where
  "ensure_http3 q tun =
     (if (q_is_established q (t_conn tun) \<or> q_is_in_early_data q (t_conn tun)) \<and> t_http3 tun = None
      then (case h3_with_transport q (t_conn tun) of
              (Inr h3, c) \<Rightarrow> Some (tun\<lparr>t_conn := c, t_http3 := Some h3, t_established := True\<rparr>)
            | (Inl e, c) \<Rightarrow> None)
      else Some tun)"

definition queue_locals :: "('c, 'h, 'g) quiche \<Rightarrow> (bytes \<times> socket_addr) list \<Rightarrow> ('c, 'h) tunnel \<Rightarrow> ('c, 'h) tunnel" where
  "queue_locals q pkts tun =
     (case fold (queue_local q) pkts (t_conn tun, t_by_addr tun) of (c, by_addr) \<Rightarrow> tun\<lparr>t_conn := c, t_by_addr := by_addr\<rparr>)"

definition serve_flows :: "kernel \<Rightarrow> ('c, 'h, 'g) quiche \<Rightarrow> fd \<Rightarrow> string \<Rightarrow> string \<Rightarrow> socket_addr list \<Rightarrow> ('c, 'h) tunnel \<Rightarrow>
    ('c, 'h) tunnel option" where
  "serve_flows k q lsock authority path order tun =
     (case t_http3 tun of
        None \<Rightarrow> Some tun
      | Some h \<Rightarrow> do {
          (c, h, by_addr, flows) \<leftarrow> poll_responses q
            (open_pending_flows q authority path order (t_conn tun, h, t_by_addr tun, t_flows tun));
          (c, t) \<leftarrow> route_tunnel_datagrams k q lsock flows c (t_trace tun);
          Some (tun\<lparr>t_conn := c, t_http3 := Some h, t_by_addr := by_addr, t_flows := flows, t_trace := t\<rparr>)
        })"

definition session_iteration :: "kernel \<Rightarrow> ('c, 'h, 'g) quiche \<Rightarrow> fd \<Rightarrow> 'c dialed \<Rightarrow> session_input \<Rightarrow> ('c, 'h) tunnel \<Rightarrow>
    (session_flow \<times> ('c, 'h) tunnel) option" where
  "session_iteration k q lsock d i tun =
     (if in_wake i = Proxy_Packet None then Some (Session_Return, tun)
      else
        let tun = tun\<lparr>t_conn := absorb q (d_local_addr d) i (t_conn tun)\<rparr> in
        if q_is_closed q (t_conn tun) then Some (Session_Return, tun)
        else (case ensure_http3 q tun of
                None \<Rightarrow> Some (Session_Return, tun)
              | Some tun \<Rightarrow> do {
                  tun \<leftarrow> serve_flows k q lsock (d_authority d) (d_path d) (in_order i) (queue_locals q (local_pkts i) tun);
                  (r, c, t) \<leftarrow> flush_connection k q (d_socket d) (t_conn tun) (t_trace tun);
                  Some (case r of Inl e \<Rightarrow> Session_Return | Inr _ \<Rightarrow> Session_Continue, tun\<lparr>t_conn := c, t_trace := t\<rparr>)
                }))"

text \<open>Which wake-ups can happen when the iteration has waited for \<open>waited\<close>; both timers start with the iteration.\<close>

fun wake_ready :: "('c, 'h, 'g) quiche \<Rightarrow> duration \<Rightarrow> ('c, 'h) tunnel \<Rightarrow> session_wake \<Rightarrow> bool" where
  "wake_ready q waited tun Tunnel_Timeout = sleep_opt (q_timeout q (t_conn tun)) waited"
| "wake_ready q waited tun Keepalive = (KEEPALIVE \<le> waited)"
| "wake_ready q waited tun _ = True"

text \<open>The loop over the wake-ups of the session; it is still running when the list ends.\<close>

fun session_loop :: "kernel \<Rightarrow> ('c, 'h, 'g) quiche \<Rightarrow> fd \<Rightarrow> 'c dialed \<Rightarrow> session_input list \<Rightarrow> ('c, 'h) tunnel \<Rightarrow>
    (session_flow \<times> ('c, 'h) tunnel) option" where
  "session_loop k q lsock d [] tun = Some (Session_Continue, tun)"
| "session_loop k q lsock d (i # is) tun = do {
     (fl, tun) \<leftarrow> session_iteration k q lsock d i tun;
     if fl = Session_Return then Some (Session_Return, tun) else session_loop k q lsock d is tun
   }"

definition tunnel_new :: "'c \<Rightarrow> trace \<Rightarrow> ('c, 'h) tunnel" where
  "tunnel_new c t = \<lparr>t_conn = c, t_http3 = None, t_established = False, t_by_addr = Map.empty, t_flows = Map.empty, t_trace = t\<rparr>"

text \<open>\<^verbatim>\<open>run_session\<close>: whether it has returned, whether the tunnel came up, and the trace; the QUIC socket is closed
  on return.\<close>

definition run_session :: "kernel \<Rightarrow> ('c, 'h, quic_config) quiche \<Rightarrow> client_env \<Rightarrow> fd \<Rightarrow> connect_params \<Rightarrow> bytes \<Rightarrow>
    session_input list \<Rightarrow> trace \<Rightarrow> (session_flow \<times> bool \<times> trace) option" where
  "run_session k q env lsock p conn_id inputs t =
     (case dial k q env conn_id p t of
        (Inl e, t) \<Rightarrow> Some (Session_Return, False, t)
      | (Inr d, t) \<Rightarrow>
          let close = (\<lambda>t. snd (sys k (Close (d_socket d)) t)) in
          (case build_h3_config (ce_h3_config_new env) of
             Inl e \<Rightarrow> Some (Session_Return, False, close t)
           | Inr _ \<Rightarrow> do {
               (r, c, t) \<leftarrow> flush_connection k q (d_socket d) (d_conn d) t;
               (case r of
                  Inl e \<Rightarrow> Some (Session_Return, False, close t)
                | Inr _ \<Rightarrow> do {
                    (fl, tun) \<leftarrow> session_loop k q lsock d inputs (tunnel_new c t :: ('c, 'h) tunnel);
                    Some (fl, t_established tun, if fl = Session_Return then close (t_trace tun) else t_trace tun)
                  })
             }))"

section \<open>Reconnecting\<close>

text \<open>How long to sleep after a session, and the next backoff.\<close>

definition next_backoff :: "bool \<Rightarrow> duration \<Rightarrow> duration \<times> duration" where
  "next_backoff established backoff =
     (let backoff = (if established then RECONNECT_MIN else backoff) in (backoff, min (backoff * 2) RECONNECT_MAX))"

text \<open>The loop of \<^verbatim>\<open>run_proxy\<close> over its sessions, with the pauses between them; a session that is still running is the
  last.\<close>

fun proxy_sessions :: "kernel \<Rightarrow> ('c, 'h, quic_config) quiche \<Rightarrow> client_env \<Rightarrow> fd \<Rightarrow> connect_params \<Rightarrow> duration \<Rightarrow>
    (bytes \<times> session_input list) list \<Rightarrow> trace \<Rightarrow> (duration list \<times> trace) option" where
  "proxy_sessions k q env lsock p backoff [] t = Some ([], t)"
| "proxy_sessions k q env lsock p backoff ((conn_id, inputs) # rest) t = do {
     (fl, established, t) \<leftarrow> run_session k q env lsock p conn_id inputs t;
     if fl = Session_Continue then Some ([], t)
     else (case next_backoff established backoff of (pause, backoff) \<Rightarrow>
       map_option (\<lambda>(ps, t). (pause # ps, t)) (proxy_sessions k q env lsock p backoff rest t))
   }"

definition run_proxy :: "kernel \<Rightarrow> ('c, 'h, quic_config) quiche \<Rightarrow> client_env \<Rightarrow> proxy_options \<Rightarrow>
    (bytes \<times> session_input list) list \<Rightarrow> trace \<Rightarrow> (bind_error + duration list \<times> trace) option" where
  "run_proxy k q env opts sessions t =
     (case bind_udp k (po_listen opts) t of
        (Inl e, t) \<Rightarrow> Some (Inl e)
      | (Inr lsock, t) \<Rightarrow>
          map_option Inr (proxy_sessions k q env lsock (po_conn opts) RECONNECT_MIN sessions (enlarge_udp_buffers k lsock t)))"

end
