(* ===== verification/Client_Session.thy ===== *)
theory Client_Session
  imports Client
begin

text \<open>
  Properties of the client's sessions: the two tables of flows stay inverse to each other, datagrams are kept
  in order and sent only on accepted flows, replies go to the source of their flow, and sessions return.
\<close>

section \<open>The tables\<close>

text \<open>What the client relies on: \<^verbatim>\<open>quiche\<close> numbers request streams 0, 4, 8 and so on, \<open>nxt\<close> being the next in line.\<close>

definition fresh_streams :: "('c, 'h, 'g) quiche \<Rightarrow> ('h \<Rightarrow> nat) \<Rightarrow> bool" where
  "fresh_streams q nxt \<longleftrightarrow>
     (\<forall>h c hs fin sid h' c'. h3_send_request q h c hs fin = (Inr sid, h', c') \<longrightarrow> unat (sid div 4) = nxt h \<and> nxt h' = Suc (nxt h))
     \<and> (\<forall>h c hs fin e h' c'. h3_send_request q h c hs fin = (Inl e, h', c') \<longrightarrow> nxt h' = nxt h)
     \<and> (\<forall>h c r h' c'. h3_poll q h c = (r, h', c') \<longrightarrow> nxt h' = nxt h)"

lemma fresh_streamsD:
  assumes "fresh_streams q nxt"
  shows "h3_send_request q h c hs fin = (Inr sid, h', c') \<Longrightarrow> unat (sid div 4) = nxt h \<and> nxt h' = Suc (nxt h)"
    and "h3_send_request q h c hs fin = (Inl e, h', c') \<Longrightarrow> nxt h' = nxt h"
    and "h3_poll q h c = (r, h', c') \<Longrightarrow> nxt h' = nxt h"
  using assms unfolding fresh_streams_def by metis+

definition source_ok :: "flow_state \<Rightarrow> bool" where
  "source_ok st \<longleftrightarrow> (fs_established st \<longrightarrow> fs_flow_id st \<noteq> None \<and> fs_pending st = []) \<and> length (fs_pending st) \<le> MAX_PENDING"

definition flows_inv :: "nat \<Rightarrow> by_addr \<Rightarrow> (u64 \<rightharpoonup> socket_addr) \<Rightarrow> bool" where
  "flows_inv n by_addr flows \<longleftrightarrow>
     (\<forall>fid src. flows fid = Some src \<longleftrightarrow> (\<exists>st. by_addr src = Some st \<and> fs_flow_id st = Some fid))
     \<and> (\<forall>src st. by_addr src = Some st \<longrightarrow> source_ok st)
     \<and> (\<forall>fid src. flows fid = Some src \<longrightarrow> unat fid < n)"

lemma flows_invD:
  assumes "flows_inv n by_addr flows"
  shows "flows fid = Some src \<Longrightarrow> \<exists>st. by_addr src = Some st \<and> fs_flow_id st = Some fid"
    and "by_addr src = Some st \<Longrightarrow> fs_flow_id st = Some fid \<Longrightarrow> flows fid = Some src"
    and "by_addr src = Some st \<Longrightarrow> source_ok st"
    and "flows fid = Some src \<Longrightarrow> unat fid < n"
  using assms unfolding flows_inv_def by blast+

lemma flows_inv_mono: "flows_inv m by_addr flows \<Longrightarrow> m \<le> n \<Longrightarrow> flows_inv n by_addr flows"
  unfolding flows_inv_def by (meson order_less_le_trans)

text \<open>Changing a source without changing its flow.\<close>

lemma flows_inv_update:
  assumes "flows_inv n by_addr flows" "source_ok st'"
    "fs_flow_id st' = (case by_addr src of None \<Rightarrow> None | Some st \<Rightarrow> fs_flow_id st)"
  shows "flows_inv n (by_addr(src \<mapsto> st')) flows"
  using assms unfolding flows_inv_def by (auto split: option.splits)

lemma source_ok_new [simp]: "source_ok flow_state_new"
  by (simp add: source_ok_def flow_state_new_def)

lemma queue_local_inv:
  assumes inv: "flows_inv n by_addr flows" and q: "queue_local q (data, src) (c, by_addr) = (c', by_addr')"
  shows "flows_inv n by_addr' flows" "dom by_addr' = insert src (dom by_addr)"
proof -
  let ?st = "case by_addr src of None \<Rightarrow> flow_state_new | Some st \<Rightarrow> st"
  obtain st' where b: "by_addr' = by_addr(src \<mapsto> st')"
    "st' = ?st \<or> \<not> (fs_established ?st \<and> fs_flow_id ?st \<noteq> None) \<and> length (fs_pending ?st) < MAX_PENDING \<and> st' = ?st\<lparr>fs_pending := fs_pending ?st @ [data]\<rparr>"
    using q by (auto simp: queue_local_def Let_def split: bool.splits option.splits)
  have ok: "source_ok ?st" using flows_invD(3) [OF inv] by (auto split: option.split)
  with b(2) have "source_ok st'" by (auto simp: source_ok_def)
  moreover have "fs_flow_id st' = (case by_addr src of None \<Rightarrow> None | Some st \<Rightarrow> fs_flow_id st)"
    using b(2) by (auto simp: flow_state_new_def split: option.split)
  ultimately show "flows_inv n by_addr' flows" using flows_inv_update [OF inv] b(1) by simp
  show "dom by_addr' = insert src (dom by_addr)" using b(1) by simp
qed

lemma queue_locals_inv:
  "flows_inv n by_addr flows \<Longrightarrow> fold (queue_local q) pkts (c, by_addr) = (c', by_addr') \<Longrightarrow>
     flows_inv n by_addr' flows \<and> dom by_addr' = dom by_addr \<union> snd ` set pkts"
proof (induction pkts arbitrary: c by_addr)
  case (Cons pkt pkts)
  obtain data src where pkt: "pkt = (data, src)" by force
  obtain c1 b1 where q: "queue_local q (data, src) (c, by_addr) = (c1, b1)" by force
  note step = queue_local_inv [OF Cons.prems(1) q]
  with Cons.IH [OF step(1)] Cons.prems(2) pkt q show ?case by auto
qed simp

section \<open>Opening flows\<close>

lemma flows_inv_open:
  assumes inv: "flows_inv n by_addr flows" and st: "by_addr src = Some st" "fs_flow_id st = None" and f: "unat fid = n"
  shows "flows_inv (Suc n) (by_addr(src \<mapsto> st\<lparr>fs_flow_id := Some fid\<rparr>)) (flows(fid \<mapsto> src))"
proof -
  have fresh: "flows fid = None" using flows_invD(4) [OF inv, of fid] f by (cases "flows fid") auto
  have nosrc: "flows fid' \<noteq> Some src" for fid' using flows_invD(1) [OF inv, of fid' src] st by auto
  have "source_ok (st\<lparr>fs_flow_id := Some fid\<rparr>)" using flows_invD(3) [OF inv st(1)] st(2) by (auto simp: source_ok_def)
  moreover have "(flows(fid \<mapsto> src)) fid' = Some src' \<longleftrightarrow>
      (\<exists>st'. (by_addr(src \<mapsto> st\<lparr>fs_flow_id := Some fid\<rparr>)) src' = Some st' \<and> fs_flow_id st' = Some fid')" for fid' src'
  proof (cases "src' = src")
    case True
    with nosrc [of fid'] show ?thesis by auto
  next
    case False
    have "\<not> (\<exists>st'. by_addr src' = Some st' \<and> fs_flow_id st' = Some fid)" using flows_invD(2) [OF inv, of src' _ fid] fresh by auto
    with False inv show ?thesis by (auto simp: flows_inv_def)
  qed
  moreover have "unat fid' < Suc n" if "(flows(fid \<mapsto> src)) fid' = Some src'" for fid' src'
    using that f flows_invD(4) [OF inv, of fid' src'] by (auto split: if_splits)
  ultimately show ?thesis using flows_invD(3) [OF inv] unfolding flows_inv_def by auto
qed

lemma open_flows_inv:
  assumes q: "fresh_streams q nxt"
  shows "open_flows q hs order (c, h, by_addr, flows) dropped = ((c', h', by_addr', flows'), dropped') \<Longrightarrow>
     flows_inv (nxt h) by_addr flows \<Longrightarrow> distinct order \<Longrightarrow> set order \<inter> set dropped = {} \<Longrightarrow>
     (\<And>src st. src \<in> set dropped \<Longrightarrow> by_addr src = Some st \<Longrightarrow> fs_flow_id st = None) \<Longrightarrow>
     flows_inv (nxt h') by_addr' flows' \<and> (\<forall>src st. src \<in> set dropped' \<longrightarrow> by_addr' src = Some st \<longrightarrow> fs_flow_id st = None)"
proof (induction order arbitrary: c h by_addr flows dropped)
  case (Cons src rest)
  show ?case
  proof (cases "\<exists>st. by_addr src = Some st \<and> fs_flow_id st = None")
    case True
    then obtain st where st: "by_addr src = Some st" "fs_flow_id st = None" by blast
    obtain r h1 c1 where req: "h3_send_request q h c hs False = (r, h1, c1)" by (metis prod_cases3)
    show ?thesis
    proof (cases r)
      case (Inl e)
      let ?d = "if e = StreamBlocked then dropped else dropped @ [src]"
      have "open_flows q hs rest (c1, h1, by_addr, flows) ?d = ((c', h', by_addr', flows'), dropped')"
        using Cons.prems(1) st req Inl by simp
      moreover have "flows_inv (nxt h1) by_addr flows" using Cons.prems(2) fresh_streamsD(2) [OF q] req Inl by metis
      ultimately show ?thesis using Cons.prems(3-5) st by (intro Cons.IH [of c1 h1 by_addr flows ?d]) (auto split: if_splits)
    next
      case (Inr sid)
      have n: "unat (sid div 4) = nxt h" "nxt h1 = Suc (nxt h)" using fresh_streamsD(1) [OF q] req Inr by metis+
      have "open_flows q hs rest (c1, h1, by_addr(src \<mapsto> st\<lparr>fs_flow_id := Some (sid div 4)\<rparr>), flows(sid div 4 \<mapsto> src)) dropped
          = ((c', h', by_addr', flows'), dropped')"
        using Cons.prems(1) st req Inr by simp
      then show ?thesis
      proof (rule Cons.IH)
        show "flows_inv (nxt h1) (by_addr(src \<mapsto> st\<lparr>fs_flow_id := Some (sid div 4)\<rparr>)) (flows(sid div 4 \<mapsto> src))"
          using flows_inv_open [OF Cons.prems(2) st n(1)] n(2) by (simp only:)
      qed (use Cons.prems(3-5) in \<open>auto split: if_splits\<close>)
    qed
  next
    case False
    then have "open_flows q hs rest (c, h, by_addr, flows) dropped = ((c', h', by_addr', flows'), dropped')"
      using Cons.prems(1) by (cases "by_addr src") auto
    then show ?thesis using Cons.prems(2-5) by (intro Cons.IH) auto
  qed
qed auto

lemma open_pending_flows_inv:
  assumes q: "fresh_streams q nxt" and "flows_inv (nxt h) by_addr flows" and "distinct order"
    and o: "open_pending_flows q authority path order (c, h, by_addr, flows) = (c', h', by_addr', flows')"
  shows "flows_inv (nxt h') by_addr' flows'"
proof -
  obtain b dropped where of: "open_flows q (connect_headers authority path) order (c, h, by_addr, flows) [] = ((c', h', b, flows'), dropped)"
    and b: "by_addr' = b |` (- set dropped)"
    using o by (auto simp: open_pending_flows_def split: prod.splits)
  from open_flows_inv [OF q of assms(2,3)] have inv: "flows_inv (nxt h') b flows'"
    and d: "\<And>src st. src \<in> set dropped \<Longrightarrow> b src = Some st \<Longrightarrow> fs_flow_id st = None" by auto
  from inv d show ?thesis unfolding flows_inv_def b by (auto simp: restrict_map_def)
qed

section \<open>Responses\<close>

lemma remove_flow_inv:
  assumes inv: "flows_inv n by_addr flows" and r: "remove_flow fid (by_addr, flows) = (by_addr', flows')"
  shows "flows_inv n by_addr' flows'"
proof (cases "flows fid")
  case None
  with r inv show ?thesis by (simp add: remove_flow_def)
next
  case (Some src)
  then obtain st where st: "by_addr src = Some st" "fs_flow_id st = Some fid" using flows_invD(1) [OF inv] by blast
  have e: "by_addr' = by_addr(src := None)" "flows' = flows(fid := None)" using r Some by (auto simp: remove_flow_def)
  have "flows' fid' = Some src' \<longleftrightarrow> (\<exists>st'. by_addr' src' = Some st' \<and> fs_flow_id st' = Some fid')" for fid' src'
  proof
    assume "flows' fid' = Some src'"
    then have f: "fid' \<noteq> fid" "flows fid' = Some src'" using e by (auto split: if_splits)
    then obtain st' where st': "by_addr src' = Some st'" "fs_flow_id st' = Some fid'" using flows_invD(1) [OF inv] by blast
    with st f(1) have "src' \<noteq> src" by auto
    with e st' show "\<exists>st'. by_addr' src' = Some st' \<and> fs_flow_id st' = Some fid'" by auto
  next
    assume "\<exists>st'. by_addr' src' = Some st' \<and> fs_flow_id st' = Some fid'"
    then obtain st' where st': "src' \<noteq> src" "by_addr src' = Some st'" "fs_flow_id st' = Some fid'" using e by (auto split: if_splits)
    then have "flows fid' = Some src'" using flows_invD(2) [OF inv] by blast
    with e Some st'(1) show "flows' fid' = Some src'" by auto
  qed
  moreover have "source_ok st'" if "by_addr' src' = Some st'" for src' st'
    using that e flows_invD(3) [OF inv] by (auto split: if_splits)
  moreover have "unat fid' < n" if "flows' fid' = Some src'" for fid' src'
    using that e flows_invD(4) [OF inv] by (auto split: if_splits)
  ultimately show ?thesis unfolding flows_inv_def by blast
qed

text \<open>What response headers can do: nothing, accept the flow, or remove it.\<close>

lemma client_event_Headers:
  obtains (ignored) "status_of hs = None \<or> flows (sid div 4) = None \<or> by_addr (the (flows (sid div 4))) = None"
      "client_event q sid (Headers hs) (c, h, by_addr, flows) = (c, h, by_addr, flows)"
    | (accepted) code src st where "status_of hs = Some code" "200 \<le> code" "code < 300" "flows (sid div 4) = Some src" "by_addr src = Some st"
      "client_event q sid (Headers hs) (c, h, by_addr, flows) = (fold (send_datagram q (sid div 4)) (fs_pending st) c, h,
         by_addr(src \<mapsto> st\<lparr>fs_established := True, fs_pending := []\<rparr>), flows)"
    | (rejected) code where "status_of hs = Some code" "\<not> (200 \<le> code \<and> code < 300)"
      "client_event q sid (Headers hs) (c, h, by_addr, flows) = (c, h, remove_flow (sid div 4) (by_addr, flows))"
proof (cases "status_of hs")
  case None
  with ignored show ?thesis by simp
next
  case (Some code)
  show ?thesis
  proof (cases "200 \<le> code \<and> code < 300")
    case True
    with Some ignored accepted show ?thesis
      by (cases "flows (sid div 4)"; cases "by_addr (the (flows (sid div 4)))") (simp_all add: Let_def)
  next
    case False
    then have "client_event q sid (Headers hs) (c, h, by_addr, flows) = (c, h, remove_flow (sid div 4) (by_addr, flows))"
      using Some by (simp add: Let_def) blast
    with Some False show ?thesis by (rule rejected)
  qed
qed

lemma client_event_inv:
  assumes inv: "flows_inv n by_addr flows" and e: "client_event q sid ev (c, h, by_addr, flows) = (c', h', by_addr', flows')"
  shows "flows_inv n by_addr' flows' \<and> h' = h"
proof (cases ev)
  case (Headers hs)
  show ?thesis
  proof (cases rule: client_event_Headers [of hs flows sid by_addr q c h])
    case (accepted code src st)
    then have "fs_flow_id st = Some (sid div 4)" using flows_invD(1) [OF inv accepted(4)] by auto
    then have "source_ok (st\<lparr>fs_established := True, fs_pending := []\<rparr>)" by (simp add: source_ok_def)
    then have "flows_inv n (by_addr(src \<mapsto> st\<lparr>fs_established := True, fs_pending := []\<rparr>)) flows"
      using flows_inv_update [OF inv, of _ src] accepted(5) by simp
    with accepted(6) e Headers show ?thesis by auto
  qed (use e Headers inv remove_flow_inv [OF inv] in \<open>auto simp del: client_event.simps\<close>)
qed (use e inv remove_flow_inv [OF inv] in auto)

lemma poll_responses_inv:
  "poll_responses q st = Some st' \<Longrightarrow> fresh_streams q nxt \<Longrightarrow>
     flows_inv (nxt (fst (snd st))) (fst (snd (snd st))) (snd (snd (snd st))) \<Longrightarrow>
     flows_inv (nxt (fst (snd st'))) (fst (snd (snd st'))) (snd (snd (snd st')))"
proof (induction rule: poll_responses.raw_induct [rotated, consumes 1, case_names step])
  case (step f q st st')
  obtain c h b fl where st: "st = (c, h, b, fl)" by (metis prod_cases4)
  obtain r h1 c1 where p: "h3_poll q h c = (r, h1, c1)" by (metis prod_cases3)
  have n: "nxt h1 = nxt h" using fresh_streamsD(3) [OF step.prems(1) p] .
  show ?case
  proof (cases r)
    case (Inl e)
    with step.hyps st p step.prems(2) n show ?thesis by auto
  next
    case (Inr x)
    obtain sid ev where x: "x = (sid, ev)" by force
    obtain c2 h2 b2 fl2 where e: "client_event q sid ev (c1, h1, b, fl) = (c2, h2, b2, fl2)" by (metis prod_cases4)
    have "flows_inv (nxt h2) b2 fl2" using client_event_inv [OF _ e, of "nxt h1"] step.prems(2) st n by simp
    moreover have "f q (c2, h2, b2, fl2) = Some st'" using step.hyps st p Inr x e by simp
    ultimately show ?thesis using step.IH step.prems(1) by simp
  qed
qed

section \<open>Every reachable session state\<close>

definition tunnel_inv :: "('h \<Rightarrow> nat) \<Rightarrow> ('c, 'h) tunnel \<Rightarrow> bool" where
  "tunnel_inv nxt tun \<longleftrightarrow>
     flows_inv (case t_http3 tun of None \<Rightarrow> 0 | Some h \<Rightarrow> nxt h) (t_by_addr tun) (t_flows tun)"

text \<open>The table of sources as it is when it is iterated: the known sources and those of the new datagrams.\<close>

definition order_ok :: "('c, 'h) tunnel \<Rightarrow> session_input \<Rightarrow> bool" where
  "order_ok tun i \<longleftrightarrow> distinct (in_order i) \<and> set (in_order i) = dom (t_by_addr tun) \<union> snd ` set (local_pkts i)"

inductive session_step :: "kernel \<Rightarrow> ('c, 'h, 'g) quiche \<Rightarrow> fd \<Rightarrow> 'c dialed \<Rightarrow> ('c, 'h) tunnel \<Rightarrow> ('c, 'h) tunnel \<Rightarrow> bool"
  for k q lsock d where
  step: "wake_ready q waited tun (in_wake i) \<Longrightarrow> order_ok tun i \<Longrightarrow>
     session_iteration k q lsock d i tun = Some (Session_Continue, tun') \<Longrightarrow> session_step k q lsock d tun tun'"

lemma serve_flows_inv:
  assumes q: "fresh_streams q nxt" and inv: "tunnel_inv nxt tun" and d: "distinct order"
    and s: "serve_flows k q lsock authority path order tun = Some tun'"
  shows "tunnel_inv nxt tun'"
proof (cases "t_http3 tun")
  case None
  with s inv show ?thesis by (simp add: serve_flows_def)
next
  case (Some h)
  obtain c1 h1 b1 f1 where o: "open_pending_flows q authority path order (t_conn tun, h, t_by_addr tun, t_flows tun) = (c1, h1, b1, f1)"
    by (metis prod_cases4)
  from s Some o obtain c2 h2 b2 f2 c t where p: "poll_responses q (c1, h1, b1, f1) = Some (c2, h2, b2, f2)"
    and t: "tun' = tun\<lparr>t_conn := c, t_http3 := Some h2, t_by_addr := b2, t_flows := f2, t_trace := t\<rparr>"
    by (auto simp: serve_flows_def bind_eq_Some_conv)
  have "flows_inv (nxt h1) b1 f1" using open_pending_flows_inv [OF q _ d o] inv Some by (simp add: tunnel_inv_def)
  with poll_responses_inv [OF p q] t show ?thesis by (simp add: tunnel_inv_def)
qed

lemma session_iteration_Continue:
  assumes "session_iteration k q lsock d i tun = Some (Session_Continue, tun')"
  obtains tun1 tun2 c t where "ensure_http3 q (tun\<lparr>t_conn := absorb q (d_local_addr d) i (t_conn tun)\<rparr>) = Some tun1"
    "serve_flows k q lsock (d_authority d) (d_path d) (in_order i) (queue_locals q (local_pkts i) tun1) = Some tun2"
    "flush_connection k q (d_socket d) (t_conn tun2) (t_trace tun2) = Some (Inr (), c, t)"
    "tun' = tun2\<lparr>t_conn := c, t_trace := t\<rparr>"
  using assms by (auto simp: session_iteration_def Let_def bind_eq_Some_conv split: if_splits option.splits sum.splits)
    (metis (full_types) old.unit.exhaust sum.exhaust)

lemma tunnel_inv_conn [simp]:
  "tunnel_inv nxt (tun\<lparr>t_conn := c\<rparr>) = tunnel_inv nxt tun" "tunnel_inv nxt (tun\<lparr>t_trace := t\<rparr>) = tunnel_inv nxt tun"
  by (simp_all add: tunnel_inv_def)

lemma ensure_http3_inv:
  assumes "tunnel_inv nxt tun" "ensure_http3 q tun = Some tun'"
  shows "tunnel_inv nxt tun'"
  using assms flows_inv_mono [of 0 "t_by_addr tun" "t_flows tun"]
  by (auto simp: ensure_http3_def tunnel_inv_def split: if_splits prod.splits sum.splits option.splits)

lemma queue_locals_tunnel_inv: "tunnel_inv nxt tun \<Longrightarrow> tunnel_inv nxt (queue_locals q pkts tun)"
  by (auto simp: queue_locals_def tunnel_inv_def split: prod.split dest: queue_locals_inv)

lemma session_step_inv:
  assumes "session_step k q lsock d tun tun'" "fresh_streams q nxt" "tunnel_inv nxt tun"
  shows "tunnel_inv nxt tun'"
  using assms(1)
proof cases
  case (step waited i)
  from step(3) obtain tun1 tun2 c t where e: "ensure_http3 q (tun\<lparr>t_conn := absorb q (d_local_addr d) i (t_conn tun)\<rparr>) = Some tun1"
    and s: "serve_flows k q lsock (d_authority d) (d_path d) (in_order i) (queue_locals q (local_pkts i) tun1) = Some tun2"
    and t: "tun' = tun2\<lparr>t_conn := c, t_trace := t\<rparr>"
    by (rule session_iteration_Continue)
  have "tunnel_inv nxt tun1" using ensure_http3_inv [OF _ e] assms(3) by simp
  then have "tunnel_inv nxt tun2"
    using serve_flows_inv [OF assms(2) queue_locals_tunnel_inv _ s] step(2) by (simp add: order_ok_def)
  with t show ?thesis by simp
qed

definition tunnel_init :: "('c, 'h) tunnel \<Rightarrow> bool" where
  "tunnel_init tun \<longleftrightarrow> (\<exists>c t. tun = tunnel_new c t)"

lemma tunnel_init_inv: "tunnel_init tun \<Longrightarrow> tunnel_inv nxt tun"
  by (auto simp: tunnel_init_def tunnel_new_def tunnel_inv_def flows_inv_def)

interpretation cli: invariant_system tunnel_init "session_step k q lsock d" "\<lambda>tun. fresh_streams q nxt \<longrightarrow> tunnel_inv nxt tun"
  for k q lsock d nxt
  by unfold_locales (use tunnel_init_inv session_step_inv in blast)+

section \<open>Every iteration returns\<close>

text \<open>What the loops rely on: \<^verbatim>\<open>quiche\<close> has finitely many events and datagrams queued, taking one makes them fewer
  and handing a datagram over makes no new event.\<close>

definition client_drains :: "('c, 'h, 'g) quiche \<Rightarrow> ('h \<Rightarrow> 'c \<Rightarrow> nat) \<Rightarrow> ('c \<Rightarrow> nat) \<Rightarrow> bool" where
  "client_drains q evs dgrams \<longleftrightarrow>
     (\<forall>h c x h' c'. h3_poll q h c = (Inr x, h', c') \<longrightarrow> evs h' c' < evs h c)
     \<and> (\<forall>h c d. evs h (snd (q_dgram_send q c d)) \<le> evs h c)
     \<and> (\<forall>c n d c'. q_dgram_recv q c n = (Inr d, c') \<longrightarrow> dgrams c' < dgrams c)"

lemma client_drainsD:
  assumes "client_drains q evs dgrams"
  shows "h3_poll q h c = (Inr x, h', c') \<Longrightarrow> evs h' c' < evs h c"
    and "evs h (snd (q_dgram_send q c d)) \<le> evs h c"
    and "q_dgram_recv q c n = (Inr d, c') \<Longrightarrow> dgrams c' < dgrams c"
  using assms unfolding client_drains_def by blast+

lemma send_datagrams_evs:
  assumes "client_drains q evs dgrams"
  shows "evs h (fold (send_datagram q fid) ps c) \<le> evs h c"
proof (induction ps arbitrary: c)
  case (Cons p ps)
  have "evs h (send_datagram q fid p c) \<le> evs h c" using client_drainsD(2) [OF assms] by (simp add: send_datagram_def)
  with Cons.IH [of "send_datagram q fid p c"] show ?case by simp
qed simp

lemma client_event_evs:
  assumes "client_drains q evs dgrams" and e: "client_event q sid ev (c, h, by_addr, flows) = (c', h', bf')"
  shows "h' = h \<and> evs h c' \<le> evs h c"
proof (cases ev)
  case (Headers hs)
  show ?thesis
    by (cases rule: client_event_Headers [of hs flows sid by_addr q c h])
      (use e Headers send_datagrams_evs [OF assms(1)] in \<open>auto simp del: client_event.simps\<close>)
qed (use e in auto)

lemma poll_responses_total:
  assumes "client_drains q evs dgrams"
  shows "\<exists>st'. poll_responses q (c, h, by_addr, flows) = Some st'"
proof (induction "evs h c" arbitrary: c h by_addr flows rule: less_induct)
  case less
  obtain r h1 c1 where p: "h3_poll q h c = (r, h1, c1)" by (metis prod_cases3)
  show ?case
  proof (cases r)
    case (Inl e)
    with p show ?thesis by (subst poll_responses.simps) simp
  next
    case (Inr x)
    obtain sid ev where x: "x = (sid, ev)" by force
    obtain c2 h2 b2 f2 where e: "client_event q sid ev (c1, h1, by_addr, flows) = (c2, h2, b2, f2)" by (metis prod_cases4)
    have "evs h1 c1 < evs h c" using client_drainsD(1) [OF assms] p Inr by simp
    moreover have "h2 = h1" "evs h1 c2 \<le> evs h1 c1" using client_event_evs [OF assms e] by auto
    ultimately have "evs h2 c2 < evs h c" by simp
    from less [OF this, of b2 f2] p Inr x e show ?thesis by (subst poll_responses.simps) (simp del: client_event.simps)
  qed
qed

lemma send_udp_total: "unblocks k m \<Longrightarrow> \<exists>r t'. send_udp k fd buf dst t = Some (r, t')"
  using send_batch_total [of k m fd "push_first send_batch_new buf dst" t] by (auto simp: send_udp_def)

lemma route_tunnel_datagrams_total:
  assumes "client_drains q evs dgrams" and k: "unblocks k m"
  shows "\<exists>c' t'. route_tunnel_datagrams k q lsock flows c t = Some (c', t')"
proof (induction "dgrams c" arbitrary: c t rule: less_induct)
  case less
  obtain r c1 where d: "q_dgram_recv q c MAX_DATAGRAM_SIZE = (r, c1)" by force
  show ?case
  proof (cases r)
    case (Inl e)
    with d show ?thesis by (subst route_tunnel_datagrams.simps) simp
  next
    case (Inr x)
    then have "dgrams c1 < dgrams c" using client_drainsD(3) [OF assms(1)] d by simp
    note IH = less [OF this]
    show ?thesis
    proof (cases "\<exists>p src. dgram_decode x = Some p \<and> p_context_id p = CONTEXT_ID_UDP \<and> flows (p_flow_id p) = Some src")
      case True
      then obtain p src where p: "dgram_decode x = Some p" "p_context_id p = CONTEXT_ID_UDP" "flows (p_flow_id p) = Some src" by blast
      obtain r t1 where "send_udp k lsock (p_payload p) src t = Some (r, t1)" using send_udp_total [OF k] by blast
      with IH [of t1] p d Inr show ?thesis by (subst route_tunnel_datagrams.simps) simp
    next
      case False
      then have "route_tunnel_datagrams k q lsock flows c t = route_tunnel_datagrams k q lsock flows c1 t"
        using d Inr by (subst route_tunnel_datagrams.simps) (auto split: option.split)
      with IH [of t] show ?thesis by simp
    qed
  qed
qed

lemma serve_flows_total:
  assumes "client_drains q evs dgrams" "unblocks k m"
  shows "\<exists>tun'. serve_flows k q lsock authority path order tun = Some tun'"
proof (cases "t_http3 tun")
  case (Some h)
  obtain c1 h1 b1 f1 where o: "open_pending_flows q authority path order (t_conn tun, h, t_by_addr tun, t_flows tun) = (c1, h1, b1, f1)"
    by (metis prod_cases4)
  obtain c2 h2 b2 f2 where p: "poll_responses q (c1, h1, b1, f1) = Some (c2, h2, b2, f2)"
    using poll_responses_total [OF assms(1), of c1 h1 b1 f1] by (metis prod_cases4)
  obtain c3 t3 where "route_tunnel_datagrams k q lsock f2 c2 (t_trace tun) = Some (c3, t3)"
    using route_tunnel_datagrams_total [OF assms] by blast
  with Some o p show ?thesis by (simp add: serve_flows_def)
qed (simp add: serve_flows_def)

lemma session_iteration_total:
  assumes "client_drains q evs dgrams" "unblocks k m" "send_ok q" "sends_finite q"
  shows "\<exists>fl tun'. session_iteration k q lsock d i tun = Some (fl, tun')"
proof -
  let ?tun = "tun\<lparr>t_conn := absorb q (d_local_addr d) i (t_conn tun)\<rparr>"
  show ?thesis
  proof (cases "ensure_http3 q ?tun")
    case (Some tun1)
    obtain tun2 where s: "serve_flows k q lsock (d_authority d) (d_path d) (in_order i) (queue_locals q (local_pkts i) tun1) = Some tun2"
      using serve_flows_total [OF assms(1,2)] by blast
    obtain r c t where "flush_connection k q (d_socket d) (t_conn tun2) (t_trace tun2) = Some (r, c, t)"
      using flush_connection_total [OF assms(2-4)] by blast
    with Some s show ?thesis by (simp add: session_iteration_def Let_def)
  qed (simp add: session_iteration_def Let_def)
qed

end
