(* ===== verification/Client_Run.thy ===== *)
theory Client_Run
  imports Client_Session Target
begin

text \<open>
  The client as a whole: what the kernel sees of a session (the datagrams that leave by the local socket, the
  descriptors that are open), and the reconnect loop, which returns from every session, pauses within its bounds
  and holds at most two descriptors.
\<close>

section \<open>Replies\<close>

text \<open>Taking datagrams off a connection until it has no more.\<close>

inductive receives :: "('c, 'h, 'g) quiche \<Rightarrow> 'c \<Rightarrow> bytes list \<Rightarrow> 'c \<Rightarrow> bool" for q where
  receives_Nil: "receives q c [] c"
| receives_Cons: "q_dgram_recv q c MAX_DATAGRAM_SIZE = (Inr d, c1) \<Longrightarrow> receives q c1 ds c2 \<Longrightarrow> receives q c (d # ds) c2"

inductive_simps receives_simps [simp]: "receives q c [] c'" "receives q c (d # ds) c'"

text \<open>What a tunnelled datagram asks for: a payload to the source of its flow.\<close>

definition reply :: "(u64 \<rightharpoonup> socket_addr) \<Rightarrow> bytes \<Rightarrow> (socket_addr \<times> bytes) list" where
  "reply flows d =
     (case dgram_decode d of
        None \<Rightarrow> []
      | Some p \<Rightarrow> if p_context_id p = CONTEXT_ID_UDP then
          (case flows (p_flow_id p) of None \<Rightarrow> [] | Some src \<Rightarrow> [(src, p_payload p)]) else [])"

text \<open>A machine that takes every message.\<close>

definition accepting :: "kernel \<Rightarrow> bool" where
  "accepting k \<longleftrightarrow> (\<forall>t fd dst p g. \<exists>n. k_call k t (Sendmsg fd dst p g) = Inr n)"

lemma send_payload_accepting:
  assumes "accepting k" "send_payload k fd dst p g t = Some (Inl e, t')"
  shows "raw_os_error e = None"
proof -
  let ?s = "Sendmsg fd (Some dst) p (map_option word_of_nat g)"
  obtain n where "k_call k t ?s = Inr n" using assms(1) unfolding accepting_def by blast
  with assms(2) show ?thesis
    by (subst (asm) send_payload.simps) (auto simp: sendmsg_udp_def sys_eq io_error_new_def split: if_splits)
qed

lemma send_udp_wire:
  assumes s: "send_udp k fd buf dst t = Some (r, t')"
  shows "\<exists>sent. wire t' = wire t @ map (\<lambda>p. (fd, Some dst, p)) sent \<and> (sent = [] \<or> sent = [buf]) \<and> (accepting k \<longrightarrow> sent = [buf])"
proof -
  obtain r1 t1 where p1: "send_payload k fd dst buf None t = Some (r1, t1)"
    using s by (auto simp: send_udp_def send_batch_def batch_take_def push_first_def send_batch_new_def send_packets_def bind_eq_Some_conv)
  then have "t' = t1"
    using s by (cases r1) (auto simp: send_udp_def send_batch_def batch_take_def push_first_def send_batch_new_def send_packets_def)
  with p1 have p: "send_payload k fd dst buf None t = Some (r1, t')" by simp
  have "payload_post fd (Some dst) [buf] t (r1, t')" using send_payload_post [OF p] by (simp add: gso_segments_def)
  with p send_payload_accepting show ?thesis by (cases r1) (force simp: payload_post_def split: if_splits)+
qed

lemma route_tunnel_datagrams_wire:
  "route_tunnel_datagrams k q lsock flows c t = Some y \<Longrightarrow>
     \<exists>ds c1 e sent. receives q c ds c1 \<and> q_dgram_recv q c1 MAX_DATAGRAM_SIZE = (Inl e, fst y)
       \<and> subseq sent (concat (map (reply flows) ds)) \<and> wire (snd y) = wire t @ map (\<lambda>(src, p). (lsock, Some src, p)) sent
       \<and> (accepting k \<longrightarrow> sent = concat (map (reply flows) ds))"
proof (induction rule: route_tunnel_datagrams.raw_induct [rotated, consumes 1, case_names step])
  case (step f k q lsock flows c t y)
  obtain r c1 where d: "q_dgram_recv q c MAX_DATAGRAM_SIZE = (r, c1)" by force
  show ?case
  proof (cases r)
    case (Inl e)
    with step.hyps d have "y = (c1, t)" by simp
    with d Inl show ?thesis by (intro exI [of _ "[]"] exI [of _ c] exI [of _ e]) simp
  next
    case (Inr x)
    obtain t1 sent1 where rest: "f k q lsock flows c1 t1 = Some y"
      and w: "wire t1 = wire t @ map (\<lambda>(src, p). (lsock, Some src, p)) sent1" "subseq sent1 (reply flows x)"
        "accepting k \<longrightarrow> sent1 = reply flows x"
    proof (cases "reply flows x")
      case Nil
      then have "f k q lsock flows c1 t = Some y"
        using step.hyps d Inr by (auto simp: reply_def split: option.splits if_splits)
      with Nil that [of t "[]"] show ?thesis by simp
    next
      case (Cons a as)
      then obtain p src where p: "dgram_decode x = Some p" "p_context_id p = CONTEXT_ID_UDP" "flows (p_flow_id p) = Some src"
        by (auto simp: reply_def split: option.splits if_splits)
      then obtain r' t1 where s: "send_udp k lsock (p_payload p) src t = Some (r', t1)" and rest: "f k q lsock flows c1 t1 = Some y"
        using step.hyps d Inr by (auto simp: bind_eq_Some_conv)
      obtain ps where ps: "wire t1 = wire t @ map (\<lambda>p. (lsock, Some src, p)) ps" "ps = [] \<or> ps = [p_payload p]"
        "accepting k \<longrightarrow> ps = [p_payload p]" using send_udp_wire [OF s] by blast
      from p have "reply flows x = [(src, p_payload p)]" by (simp add: reply_def)
      with that [OF rest, of "map (Pair src) ps"] ps show ?thesis by auto
    qed
    from step.IH [OF rest] obtain ds c2 e sent where IH: "receives q c1 ds c2" "q_dgram_recv q c2 MAX_DATAGRAM_SIZE = (Inl e, fst y)"
      "subseq sent (concat (map (reply flows) ds))" "wire (snd y) = wire t1 @ map (\<lambda>(src, p). (lsock, Some src, p)) sent"
      "accepting k \<longrightarrow> sent = concat (map (reply flows) ds)" by blast
    have "subseq (sent1 @ sent) (concat (map (reply flows) (x # ds)))" using w(2) IH(3) by (simp add: list_emb_append_mono)
    with IH w d Inr show ?thesis
      by (intro exI [of _ "x # ds"] exI [of _ c2] exI [of _ e] exI [of _ "sent1 @ sent"]) auto
  qed
qed

section \<open>Descriptors\<close>

lemma open_fds_sys:
  "open_fds (snd (sys k (Sendmsg fd dst p g) t)) = open_fds t" "open_fds (snd (sys k (Await_Writable fd) t)) = open_fds t"
  by simp_all

lemma sendmsg_udp_fds: "sendmsg_udp k fd dst p g t = (r, t') \<Longrightarrow> open_fds t' = open_fds t"
  by (auto simp: sendmsg_udp_def sys_eq split: sum.splits if_splits)

lemma send_payload_fds: "send_payload k fd dst p g t = Some y \<Longrightarrow> open_fds (snd y) = open_fds t"
proof (induction rule: send_payload.raw_induct [rotated, consumes 1, case_names step])
  case (step f k fd dst p g t y)
  obtain r u where s: "sendmsg_udp k fd dst p g t = (r, u)" by force
  obtain a v where a: "sys k (Await_Writable fd) u = (a, v)" by force
  have o: "open_fds u = open_fds t" using sendmsg_udp_fds [OF s] .
  moreover have "open_fds v = open_fds u" using a by (auto simp: sys_eq)
  moreover have "y = (r, u) \<or> snd y = v \<or> f k fd dst p g v = Some y"
    using step.hyps unfolding s a prod.case by (cases r; cases a) (simp_all add: s a split: if_splits, auto)
  ultimately show ?case using step.IH [of k fd dst p g v y] by (elim disjE) simp_all
qed

lemma send_each_fds: "send_each k fd dst ps t = Some (r, t') \<Longrightarrow> open_fds t' = open_fds t"
proof (induction ps arbitrary: t)
  case (Cons p ps)
  then obtain r1 t1 where one: "send_payload k fd dst p None t = Some (r1, t1)" by (auto simp: bind_eq_Some_conv)
  with Cons send_payload_fds [OF one] show ?case by (cases r1) auto
qed simp

lemma send_packets_fds:
  assumes "send_packets k fd dst n ps t = Some (r, t')"
  shows "open_fds t' = open_fds t"
proof -
  obtain r1 t1 where one: "send_payload k fd dst (concat ps) (if 1 < length ps then Some n else None) t = Some (r1, t1)"
    using assms by (auto simp: send_packets_def target_os_linux_def Let_def bind_eq_Some_conv)
  with assms send_payload_fds [OF one] show ?thesis
    by (cases r1) (auto simp: send_packets_def target_os_linux_def split: if_splits dest: send_each_fds)
qed

lemma send_batch_fds: "send_batch k fd b t = Some (r, b', t') \<Longrightarrow> open_fds t' = open_fds t"
  by (auto simp: send_batch_def batch_take_def bind_eq_Some_conv split: option.splits dest: send_packets_fds)

lemma send_udp_fds: "send_udp k fd buf dst t = Some (r, t') \<Longrightarrow> open_fds t' = open_fds t"
  by (auto simp: send_udp_def bind_eq_Some_conv dest: send_batch_fds)

lemma flush_push_fds:
  assumes "flush_push k fd out dst b t = Some (r, b', t')"
  shows "open_fds t' = open_fds t"
proof -
  obtain p b1 where p: "try_push b out dst = (p, b1)" by force
  obtain r2 b2 t2 where one: "(case p of None \<Rightarrow> Some (Inr (), b1, t)
      | Some pending \<Rightarrow> do { (r, b, t) \<leftarrow> send_batch k fd b1 t; Some (r, (case r of Inl _ \<Rightarrow> b | Inr _ \<Rightarrow> push_first b pending dst), t) })
      = Some (r2, b2, t2)"
    using assms p by (auto simp: flush_push_def bind_eq_Some_conv split: option.splits)
  then have "open_fds t2 = open_fds t" by (cases p) (auto simp: bind_eq_Some_conv dest: send_batch_fds)
  moreover have "open_fds t' = open_fds t2"
    using assms p one by (cases r2; cases p) (auto simp: flush_push_def split: if_splits dest: send_batch_fds)
  ultimately show ?thesis by simp
qed

lemma flush_for_fds: "flush_for k q fd i c b t = Some (ex, c', b', t') \<Longrightarrow> open_fds t' = open_fds t"
proof (induction i arbitrary: c b t)
  case (Suc i)
  obtain r c1 where s: "q_send q c MAX_DATAGRAM_SIZE = (r, c1)" by force
  show ?case
  proof (cases r)
    case (Inr pkt)
    obtain out dst where pkt: "pkt = (out, dst)" by force
    obtain r2 b2 t2 where push: "flush_push k fd out dst b t = Some (r2, b2, t2)"
      using Suc.prems s Inr pkt by (auto simp: bind_eq_Some_conv)
    show ?thesis using Suc s Inr pkt push flush_push_fds [OF push] by (cases r2) auto
  qed (use Suc.prems s in simp)
qed simp

lemma flush_loop_fds: "flush_loop k q fd c b t = Some y \<Longrightarrow> open_fds (snd (snd y)) = open_fds t"
proof (induction rule: flush_loop.raw_induct [rotated, consumes 1, case_names step])
  case (step f k q fd c b t y)
  obtain ex c1 b1 t1 where ff: "flush_for k q fd SEND_BATCH c b t = Some (ex, c1, b1, t1)"
    using step.hyps by (auto simp: bind_eq_Some_conv)
  note t1 = flush_for_fds [OF ff]
  show ?case
  proof (cases ex)
    case Batch_Full
    then obtain r b2 t2 where sb: "send_batch k fd b1 t1 = Some (r, b2, t2)"
      using step.hyps ff by (auto simp: bind_eq_Some_conv)
    note t2 = send_batch_fds [OF sb]
    show ?thesis
    proof (cases r)
      case (Inl e)
      then have "y = (Inl (Flush_Io e), c1, t2)" using step.hyps ff Batch_Full sb by simp
      with t1 t2 show ?thesis by simp
    next
      case (Inr u)
      then have "f k q fd c1 b2 t2 = Some y" using step.hyps ff Batch_Full sb by simp
      from step.IH [OF this] t1 t2 show ?thesis by simp
    qed
  next
    case Break_Flush
    then have "y = (Inr b1, c1, t1)" using step.hyps ff by simp
    with t1 show ?thesis by simp
  next
    case (Bail e)
    then have "y = (Inl e, c1, t1)" using step.hyps ff by simp
    with t1 show ?thesis by simp
  qed
qed

lemma flush_connection_fds:
  assumes "flush_connection k q fd c t = Some (r, c', t')"
  shows "open_fds t' = open_fds t"
proof -
  obtain r1 c1 t1 where l: "flush_loop k q fd c send_batch_new t = Some (r1, c1, t1)"
    using assms by (auto simp: flush_connection_def bind_eq_Some_conv)
  with assms flush_loop_fds [OF l] show ?thesis
    by (cases r1) (auto simp: flush_connection_def bind_eq_Some_conv dest: send_batch_fds)
qed

lemma route_tunnel_datagrams_fds:
  "route_tunnel_datagrams k q lsock flows c t = Some y \<Longrightarrow> open_fds (snd y) = open_fds t"
proof (induction rule: route_tunnel_datagrams.raw_induct [rotated, consumes 1, case_names step])
  case (step f k q lsock flows c t y)
  obtain r c1 where d: "q_dgram_recv q c MAX_DATAGRAM_SIZE = (r, c1)" by force
  show ?case
  proof (cases r)
    case (Inr x)
    have "\<exists>t1. f k q lsock flows c1 t1 = Some y \<and> open_fds t1 = open_fds t"
      using step.hyps d Inr by (auto simp: bind_eq_Some_conv split: option.splits if_splits dest: send_udp_fds)
    with step.IH show ?thesis by metis
  qed (use step.hyps d in auto)
qed

lemma ensure_http3_trace: "ensure_http3 q tun = Some tun' \<Longrightarrow> t_trace tun' = t_trace tun"
  by (auto simp: ensure_http3_def split: if_splits prod.splits sum.splits)

lemma queue_locals_trace [simp]: "t_trace (queue_locals q pkts tun) = t_trace tun"
  by (simp add: queue_locals_def split: prod.split)

lemma serve_flows_fds:
  assumes "serve_flows k q lsock authority path order tun = Some tun'"
  shows "open_fds (t_trace tun') = open_fds (t_trace tun)"
  using assms by (auto simp: serve_flows_def bind_eq_Some_conv split: option.splits dest!: route_tunnel_datagrams_fds)

lemma session_iteration_fds:
  assumes "session_iteration k q lsock d i tun = Some (fl, tun')"
  shows "open_fds (t_trace tun') = open_fds (t_trace tun)"
proof (cases "in_wake i = Proxy_Packet None \<or> q_is_closed q (absorb q (d_local_addr d) i (t_conn tun))")
  case True
  with assms show ?thesis by (auto simp: session_iteration_def Let_def split: if_splits)
next
  case False
  let ?tun = "tun\<lparr>t_conn := absorb q (d_local_addr d) i (t_conn tun)\<rparr>"
  show ?thesis
  proof (cases "ensure_http3 q ?tun")
    case None
    with False assms have "tun' = ?tun" by (simp add: session_iteration_def Let_def)
    then show ?thesis by simp
  next
    case (Some tun1)
    with False assms obtain tun2 r c t where s: "serve_flows k q lsock (d_authority d) (d_path d) (in_order i) (queue_locals q (local_pkts i) tun1) = Some tun2"
      and f: "flush_connection k q (d_socket d) (t_conn tun2) (t_trace tun2) = Some (r, c, t)" and t: "tun' = tun2\<lparr>t_conn := c, t_trace := t\<rparr>"
      by (auto simp: session_iteration_def Let_def bind_eq_Some_conv)
    from serve_flows_fds [OF s] flush_connection_fds [OF f] ensure_http3_trace [OF Some] t show ?thesis by simp
  qed
qed

lemma session_loop_fds: "session_loop k q lsock d is tun = Some (fl, tun') \<Longrightarrow> open_fds (t_trace tun') = open_fds (t_trace tun)"
proof (induction "is" arbitrary: tun)
  case (Cons i "is")
  then obtain fl1 tun1 where one: "session_iteration k q lsock d i tun = Some (fl1, tun1)" by (auto simp: bind_eq_Some_conv)
  with Cons session_iteration_fds [OF one] show ?case by (auto split: if_splits)
qed simp

lemma bind_udp_owns: "fresh_fds k \<Longrightarrow> owns (open_fds t) (bind_udp k addr t)"
proof -
  assume k: "fresh_fds k"
  show ?thesis
  proof (cases "k_call k t (Udp_Bind addr)")
    case (Inl e)
    then show ?thesis by (simp add: bind_udp_def sys_eq owns_def)
  next
    case (Inr fd)
    then have fd: "fd \<notin> open_fds t" using k unfolding fresh_fds_def by blast
    let ?t = "t @ [Call (Udp_Bind addr) (Inr fd)]"
    have close: "open_fds (snd (sys k (Close fd) u)) = open_fds t" if "open_fds u = insert fd (open_fds t)" for u
      using that fd by simp
    show ?thesis
    proof (cases "k_call k ?t (Set_Nonblocking fd)")
      case (Inl e)
      with Inr close [of "?t @ [Call (Set_Nonblocking fd) (Inl e)]"] open_fds_snoc [of ?t] show ?thesis
        by (simp add: bind_udp_def sys_eq owns_def)
    next
      case (Inr x)
      let ?u = "enable_udp_gro k fd (?t @ [Call (Set_Nonblocking fd) (Inr x)])"
      have u: "open_fds ?u = insert fd (open_fds t)" using open_fds_snoc [of ?t] by simp
      with Inr \<open>k_call k t (Udp_Bind addr) = Inr fd\<close> fd close [of "?u @ [Call (From_Std fd) (k_call k ?u (From_Std fd))]"]
      show ?thesis by (cases "k_call k ?u (From_Std fd)") (simp_all add: bind_udp_def sys_eq owns_def Let_def)
    qed
  qed
qed

lemma dial_fds:
  assumes k: "fresh_fds k" and d: "dial k q env cid p t = (r, t')"
  shows "case r of Inl _ \<Rightarrow> open_fds t' = open_fds t
     | Inr d \<Rightarrow> open_fds t' = insert (d_socket d) (open_fds t) \<and> d_socket d \<notin> open_fds t"
proof (cases "\<exists>e. r = Inl e \<and> t' = t")
  case False
  let ?cfg = "map_err Dial_Config (build_client_config (ce_ssl env) (ce_qc env) (ce_file_exists env) (cp_verify p) (cp_ech_config_list p))"
  let ?addr = "case cp_proxy_addr p of Some addr \<Rightarrow> Inr addr | None \<Rightarrow> resolve_authority (ce_to_socket_addrs env) (ep_authority (cp_endpoint p))"
  from False d obtain config addr where c: "and_then ?cfg (\<lambda>config. and_then ?addr (\<lambda>a. Inr (config, a))) = Inr (config, addr)"
    by (cases "and_then ?cfg (\<lambda>config. and_then ?addr (\<lambda>a. Inr (config, a)))") (auto simp: dial_def Let_def)
  obtain b t1 where b: "bind_udp k (if addr_is_ipv4 addr then any_v4 else any_v6) t = (b, t1)" by force
  have o: "owns (open_fds t) (b, t1)" using bind_udp_owns [OF k] b by metis
  show ?thesis
  proof (cases b)
    case (Inl e)
    with d c b o show ?thesis by (auto simp: dial_def Let_def owns_def)
  next
    case (Inr fd)
    let ?t = "enlarge_udp_buffers k fd t1" let ?u = "?t @ [Call (Local_Addr fd) (k_call k ?t (Local_Addr fd))]"
    have fd: "open_fds ?u = insert fd (open_fds t)" "fd \<notin> open_fds t" using o Inr by (simp_all add: owns_def)
    then have close: "open_fds (?u @ [Call (Close fd) x]) = open_fds t" for x using open_fds_snoc [of ?u] by simp
    from d c b Inr fd close show ?thesis
      by (cases "k_call k ?t (Local_Addr fd)"; cases "q_connect q (host_of (ep_authority (cp_endpoint p))) cid
            (ce_addr_of env (projr (k_call k ?t (Local_Addr fd)))) addr config")
        (auto simp: dial_def Let_def sys_eq)
  qed
qed auto

lemma run_session_fds:
  assumes k: "fresh_fds k" and r: "run_session k q env lsock p cid inputs t = Some (fl, est, t')"
  shows "if fl = Session_Return then open_fds t' = open_fds t else \<exists>fd. fd \<notin> open_fds t \<and> open_fds t' = insert fd (open_fds t)"
proof -
  obtain x t1 where d: "dial k q env cid p t = (x, t1)" by force
  note fds = dial_fds [OF k d]
  show ?thesis
  proof (cases x)
    case (Inl e)
    with r d fds show ?thesis by (auto simp: run_session_def)
  next
    case (Inr d')
    then have own: "d_socket d' \<notin> open_fds t" "open_fds t1 = insert (d_socket d') (open_fds t)" using fds by auto
    have close: "open_fds (snd (sys k (Close (d_socket d')) u)) = open_fds t" if "open_fds u = insert (d_socket d') (open_fds t)" for u
      using that own(1) by simp
    show ?thesis
    proof (cases "build_h3_config (ce_h3_config_new env)")
      case (Inl e)
      with r d \<open>x = Inr d'\<close> close [OF own(2)] show ?thesis by (auto simp: run_session_def Let_def)
    next
      case (Inr cfg)
      with r d \<open>x = Inr d'\<close> obtain y c t2 where f: "flush_connection k q (d_socket d') (d_conn d') t1 = Some (y, c, t2)"
        by (auto simp: run_session_def Let_def bind_eq_Some_conv)
      have t2: "open_fds t2 = insert (d_socket d') (open_fds t)" using flush_connection_fds [OF f] own(2) by simp
      show ?thesis
      proof (cases y)
        case (Inl e)
        with r d \<open>x = Inr d'\<close> \<open>build_h3_config (ce_h3_config_new env) = Inr cfg\<close> f close [OF t2] show ?thesis
          by (auto simp: run_session_def Let_def)
      next
        case (Inr u)
        with r d \<open>x = Inr d'\<close> \<open>build_h3_config (ce_h3_config_new env) = Inr cfg\<close> f
        obtain tun where l: "session_loop k q lsock d' inputs (tunnel_new c t2) = Some (fl, tun)"
          and t': "t' = (if fl = Session_Return then snd (sys k (Close (d_socket d')) (t_trace tun)) else t_trace tun)"
          by (auto simp: run_session_def Let_def bind_eq_Some_conv)
        have "open_fds (t_trace tun) = insert (d_socket d') (open_fds t)"
          using session_loop_fds [OF l] t2 by (simp add: tunnel_new_def)
        with t' own(1) close [OF this] show ?thesis by (auto simp del: snd_sys)
      qed
    qed
  qed
qed

section \<open>The reconnect loop\<close>

lemma next_backoff_bounds:
  assumes "next_backoff est b = (pause, b')" "RECONNECT_MIN \<le> b" "b \<le> RECONNECT_MAX"
  shows "RECONNECT_MIN \<le> pause \<and> pause \<le> RECONNECT_MAX \<and> (pause = RECONNECT_MIN \<or> pause = b)
    \<and> b' = min (pause * 2) RECONNECT_MAX \<and> RECONNECT_MIN \<le> b' \<and> b' \<le> RECONNECT_MAX"
  using assms by (auto simp: next_backoff_def Let_def RECONNECT_MIN_def RECONNECT_MAX_def from_millis_def from_secs_def)

text \<open>Consecutive pauses: back to the minimum, or twice as long up to the maximum.\<close>

definition backs_off :: "duration \<Rightarrow> duration \<Rightarrow> bool" where
  "backs_off p p' \<longleftrightarrow> p' = RECONNECT_MIN \<or> p' = min (p * 2) RECONNECT_MAX"

lemma proxy_sessions_Cons:
  assumes "proxy_sessions k q env lsock p b ((cid, inputs) # rest) t = Some (ps, t')"
  obtains (running) est where "run_session k q env lsock p cid inputs t = Some (Session_Continue, est, t')" "ps = []"
    | (ended) est t1 pause b1 ps1 where "run_session k q env lsock p cid inputs t = Some (Session_Return, est, t1)"
        "next_backoff est b = (pause, b1)" "proxy_sessions k q env lsock p b1 rest t1 = Some (ps1, t')" "ps = pause # ps1"
proof -
  obtain fl est t1 where s: "run_session k q env lsock p cid inputs t = Some (fl, est, t1)"
    using assms by (auto simp: bind_eq_Some_conv)
  show ?thesis
  proof (cases fl)
    case Session_Continue
    with s assms running show ?thesis by auto
  next
    case Session_Return
    obtain pause b1 where "next_backoff est b = (pause, b1)" by force
    with s Session_Return assms ended show ?thesis by auto
  qed
qed

lemma proxy_sessions_pauses:
  "proxy_sessions k q env lsock p b sessions t = Some (ps, t') \<Longrightarrow> RECONNECT_MIN \<le> b \<Longrightarrow> b \<le> RECONNECT_MAX \<Longrightarrow>
     length ps \<le> length sessions \<and> (\<forall>x \<in> set ps. RECONNECT_MIN \<le> x \<and> x \<le> RECONNECT_MAX) \<and> successively backs_off ps
     \<and> (ps \<noteq> [] \<longrightarrow> hd ps = RECONNECT_MIN \<or> hd ps = b)"
proof (induction sessions arbitrary: b t ps)
  case (Cons s rest)
  obtain cid inputs where s: "s = (cid, inputs)" by force
  from Cons.prems(1) [unfolded s] show ?case
  proof (cases rule: proxy_sessions_Cons)
    case (ended est t1 pause b1 ps1)
    note b = next_backoff_bounds [OF ended(2) Cons.prems(2,3)]
    then have IH: "length ps1 \<le> length rest" "\<forall>x \<in> set ps1. RECONNECT_MIN \<le> x \<and> x \<le> RECONNECT_MAX" "successively backs_off ps1"
      "ps1 \<noteq> [] \<longrightarrow> hd ps1 = RECONNECT_MIN \<or> hd ps1 = b1" using Cons.IH [OF ended(3)] by auto
    then have "successively backs_off (pause # ps1)" using b by (auto simp: successively_Cons backs_off_def)
    with IH(1,2) b ended(4) show ?thesis by auto
  qed simp
qed simp

lemma proxy_sessions_fds:
  assumes k: "fresh_fds k"
  shows "proxy_sessions k q env lsock p b sessions t = Some (ps, t') \<Longrightarrow>
     if length ps = length sessions then open_fds t' = open_fds t else \<exists>fd. fd \<notin> open_fds t \<and> open_fds t' = insert fd (open_fds t)"
proof (induction sessions arbitrary: b t ps)
  case (Cons s rest)
  obtain cid inputs where s: "s = (cid, inputs)" by force
  from Cons.prems(1) [unfolded s] show ?case
  proof (cases rule: proxy_sessions_Cons)
    case (running est)
    with run_session_fds [OF k running(1)] show ?thesis by simp
  next
    case (ended est t1 pause b1 ps1)
    with run_session_fds [OF k ended(1)] Cons.IH [OF ended(3)] show ?thesis by (cases "length ps1 = length rest") simp_all
  qed
qed simp

lemma session_loop_total:
  assumes "client_drains q evs dgrams" "unblocks k m" "send_ok q" "sends_finite q"
  shows "\<exists>fl tun'. session_loop k q lsock d is tun = Some (fl, tun')"
proof (induction "is" arbitrary: tun)
  case (Cons i "is")
  obtain fl tun' where "session_iteration k q lsock d i tun = Some (fl, tun')" using session_iteration_total [OF assms] by blast
  with Cons.IH [of tun'] show ?case by simp
qed simp

lemma run_session_total:
  assumes "client_drains q evs dgrams" "unblocks k m" "send_ok q" "sends_finite q"
  shows "\<exists>fl est t'. run_session k q env lsock p cid inputs t = Some (fl, est, t')"
proof -
  obtain x t1 where d: "dial k q env cid p t = (x, t1)" by force
  show ?thesis
  proof (cases x)
    case (Inr d')
    obtain y c t2 where f: "flush_connection k q (d_socket d') (d_conn d') t1 = Some (y, c, t2)"
      using flush_connection_total [OF assms(2-4)] by blast
    obtain fl tun where "session_loop k q lsock d' inputs (tunnel_new c t2) = Some (fl, tun)"
      using session_loop_total [OF assms] by blast
    with d Inr f show ?thesis
      by (cases y; cases "build_h3_config (ce_h3_config_new env)") (auto simp: run_session_def Let_def)
  qed (use d in \<open>auto simp: run_session_def\<close>)
qed

lemma proxy_sessions_total:
  assumes "client_drains q evs dgrams" "unblocks k m" "send_ok q" "sends_finite q"
  shows "\<exists>ps t'. proxy_sessions k q env lsock p b sessions t = Some (ps, t')"
proof (induction sessions arbitrary: b t)
  case (Cons s rest)
  obtain cid inputs where s: "s = (cid, inputs)" by force
  obtain fl est t1 where one: "run_session k q env lsock p cid inputs t = Some (fl, est, t1)"
    using run_session_total [OF assms] by blast
  obtain pause b1 where nb: "next_backoff est b = (pause, b1)" by force
  with s one Cons.IH [of b1 t1] show ?case by auto
qed simp

section \<open>A session in one example\<close>

text \<open>A connection that is up, whose first request is accepted and whose peer sends one datagram on flow 0.\<close>

definition tunnel_script :: script where
  "tunnel_script = idle_script\<lparr>sc_events := [(0, Headers accept_headers)], sc_dgrams := [dgram_encode 0 [7]]\<rparr>"

definition local_source :: socket_addr where
  "local_source = SocketV4 1 5353"

definition sample_dialed :: "script dialed" where
  "sample_dialed = \<lparr>d_socket = 4, d_conn = tunnel_script, d_local_addr = SocketV4 2 50000, d_path = ''/p'', d_authority = ''a.b:443''\<rparr>"

definition sample_input :: session_input where
  "sample_input = \<lparr>in_wake = Local_Packet (Some ([1, 2], local_source)), in_proxy = [], in_local = [([3], local_source)], in_order = [local_source]\<rparr>"

lemma fresh_streams_scripted: "fresh_streams (scripted_for start) id"
proof -
  have "unat (word_of_nat (4 * h) div 4 :: u64) = h" if "h < 2 ^ 62" for h :: nat
    using that by (simp add: unat_div unat_of_nat del: of_nat_mult)
  then show ?thesis by (auto simp: fresh_streams_def scripted_for_def split: if_splits list.splits)
qed

lemma client_drains_scripted: "client_drains (scripted_for start) (\<lambda>h c. length (sc_events c)) (\<lambda>c. length (sc_dgrams c))"
  by (auto simp: client_drains_def scripted_for_def split: list.splits if_splits)

lemma accepting_calm: "accepting calm_kernel"
  by (simp add: accepting_def calm_kernel_def)

lemma flush_connection_idle:
  assumes "q_send q c MAX_DATAGRAM_SIZE = (Inl Done, c')"
  shows "flush_connection k q fd c t = Some (Inr (), c', t)"
proof -
  have "flush_for k q fd (Suc 31) c b t = Some (Break_Flush, c', b, t)" for b
    using assms by (simp only: flush_for.simps) simp
  moreover have "SEND_BATCH = Suc 31" by (simp add: SEND_BATCH_def)
  ultimately have "flush_for k q fd SEND_BATCH c b t = Some (Break_Flush, c', b, t)" for b by (simp only:)
  then show ?thesis
    by (simp add: flush_connection_def flush_loop.simps [of k q fd c] send_batch_def batch_take_def send_batch_new_def)
qed

lemma sample_iteration:
  "\<exists>t. session_iteration calm_kernel (scripted_for tunnel_script :: (script, nat, 'g) quiche) 3 sample_dialed sample_input (tunnel_new tunnel_script [])
     = Some (Session_Continue, \<lparr>t_conn = tunnel_script\<lparr>sc_events := [], sc_dgrams := [], sc_taken := [dgram_encode 0 [7]],
           sc_sent_dgrams := [dgram_encode 0 [1, 2], dgram_encode 0 [3]]\<rparr>, t_http3 = Some 1, t_established = True,
         t_by_addr = [local_source \<mapsto> \<lparr>fs_flow_id = Some 0, fs_established = True, fs_pending = []\<rparr>],
         t_flows = [0 \<mapsto> local_source], t_trace = t\<rparr>)"
proof -
  let ?q = "scripted_for tunnel_script :: (script, nat, 'g) quiche"
  have [simp]: "dgram_decode (dgram_encode 0 [7]) = Some \<lparr>p_flow_id = 0, p_context_id = CONTEXT_ID_UDP, p_payload = [7]\<rparr>"
    "length (dgram_encode 0 [7]) \<le> MAX_DATAGRAM_SIZE"
    by code_simp+
  obtain r t1 where t1: "send_udp calm_kernel 3 [7] local_source [] = Some (r, t1)" using send_udp_total [OF unblocks_calm] by blast
  let ?c = "tunnel_script\<lparr>sc_events := [], sc_dgrams := [], sc_taken := [dgram_encode 0 [7]], sc_sent_dgrams := [dgram_encode 0 [1, 2], dgram_encode 0 [3]]\<rparr>"
  let ?tun = "\<lparr>t_conn = tunnel_script, t_http3 = Some 0, t_established = True, t_by_addr = Map.empty, t_flows = Map.empty, t_trace = []\<rparr>"
  let ?st = "\<lparr>fs_flow_id = None, fs_established = False, fs_pending = [[1, 2], [3]]\<rparr>"
  have start: "absorb ?q a sample_input tunnel_script = tunnel_script" "\<not> q_is_closed ?q tunnel_script"
    "ensure_http3 ?q \<lparr>t_conn = tunnel_script, t_http3 = None, t_established = False, t_by_addr = Map.empty, t_flows = Map.empty, t_trace = []\<rparr> = Some ?tun"
    "in_order sample_input = [local_source]" "in_wake sample_input \<noteq> Proxy_Packet None" "d_socket sample_dialed = 4" for a
    by (simp_all add: absorb_def proxy_pkts_def sample_input_def scripted_for_def tunnel_script_def idle_script_def ensure_http3_def sample_dialed_def)
  have "queue_locals ?q (local_pkts sample_input) ?tun = ?tun\<lparr>t_by_addr := [local_source \<mapsto> ?st]\<rparr>"
    by (simp add: queue_locals_def local_pkts_def sample_input_def queue_local_def flow_state_new_def MAX_PENDING_def)
  moreover have "open_pending_flows ?q a p [local_source] (tunnel_script, 0, [local_source \<mapsto> ?st], Map.empty)
      = (tunnel_script, 1, [local_source \<mapsto> ?st\<lparr>fs_flow_id := Some 0\<rparr>], [0 \<mapsto> local_source])" for a p
    by (simp add: open_pending_flows_def scripted_for_def)
  moreover have "poll_responses ?q (tunnel_script, 1, [local_source \<mapsto> ?st\<lparr>fs_flow_id := Some 0\<rparr>], [0 \<mapsto> local_source])
      = Some (?c\<lparr>sc_dgrams := [dgram_encode 0 [7]], sc_taken := []\<rparr>, 1, [local_source \<mapsto> \<lparr>fs_flow_id = Some 0, fs_established = True, fs_pending = []\<rparr>], [0 \<mapsto> local_source])"
    by (subst poll_responses.simps, simp add: scripted_for_def tunnel_script_def idle_script_def status_of_sent send_datagram_def Let_def)
      (subst poll_responses.simps, simp add: scripted_for_def)
  moreover have "route_tunnel_datagrams calm_kernel ?q 3 [0 \<mapsto> local_source] (?c\<lparr>sc_dgrams := [dgram_encode 0 [7]], sc_taken := []\<rparr>) [] = Some (?c, t1)"
    using t1 by (subst route_tunnel_datagrams.simps, simp add: scripted_for_def tunnel_script_def idle_script_def)
      (subst route_tunnel_datagrams.simps, simp add: scripted_for_def)
  moreover have "flush_connection calm_kernel ?q 4 ?c t1 = Some (Inr (), ?c, t1)"
    by (rule flush_connection_idle) (simp add: scripted_for_def tunnel_script_def idle_script_def)
  ultimately show ?thesis
    using start by (simp add: session_iteration_def Let_def serve_flows_def tunnel_new_def)
qed

lemma sample_reach:
  "\<exists>tun. (session_step calm_kernel (scripted_for tunnel_script :: (script, nat, unit) quiche) 3 sample_dialed)\<^sup>*\<^sup>* (tunnel_new tunnel_script []) tun
     \<and> t_flows tun = [0 \<mapsto> local_source]"
proof -
  let ?q = "scripted_for tunnel_script :: (script, nat, unit) quiche"
  obtain tun where s: "session_iteration calm_kernel ?q 3 sample_dialed sample_input (tunnel_new tunnel_script []) = Some (Session_Continue, tun)"
    and f: "t_flows tun = [0 \<mapsto> local_source]"
    using sample_iteration by fastforce
  have "session_step calm_kernel ?q 3 sample_dialed (tunnel_new tunnel_script []) tun"
    using s by (rule session_step.step [rotated 2, where waited = 0])
      (auto simp: sample_input_def order_ok_def local_pkts_def tunnel_new_def)
  then have r: "(session_step calm_kernel ?q 3 sample_dialed)\<^sup>*\<^sup>* (tunnel_new tunnel_script []) tun" by (rule r_into_rtranclp)
  with f show ?thesis by blast
qed

section \<open>Properties\<close>

text \<open>C19. In every state a session can reach the two tables of the client agree: a flow identifier leads to a source
  exactly when that source holds the identifier, so that no two sources share a flow.  A source whose flow is
  accepted has nothing left to send, and no source keeps more than 32 datagrams.\<close>

theorem client_flows_consistent:
  assumes "fresh_streams q nxt" and "(session_step k q lsock d)\<^sup>*\<^sup>* (tunnel_new c t) tun"
  shows "(\<forall>fid src. t_flows tun fid = Some src \<longleftrightarrow> (\<exists>st. t_by_addr tun src = Some st \<and> fs_flow_id st = Some fid))
     \<and> (\<forall>src st. t_by_addr tun src = Some st \<longrightarrow> (fs_established st \<longrightarrow> fs_flow_id st \<noteq> None \<and> fs_pending st = [])
          \<and> length (fs_pending st) \<le> 32)"
proof -
  have "tunnel_init (tunnel_new c t)" by (auto simp: tunnel_init_def)
  from cli.reach_inv [OF this assms(2), of nxt] assms(1) have "tunnel_inv nxt tun" by simp
  then show ?thesis unfolding tunnel_inv_def flows_inv_def source_ok_def MAX_PENDING_def by blast
qed

theorem client_flows_consistent_witness:
  "\<exists>tun. (session_step calm_kernel (scripted_for tunnel_script :: (script, nat, unit) quiche) 3 sample_dialed)\<^sup>*\<^sup>* (tunnel_new tunnel_script []) tun
     \<and> t_flows tun 0 = Some local_source \<and> (\<exists>st. t_by_addr tun local_source = Some st \<and> fs_flow_id st = Some 0)"
proof -
  let ?q = "scripted_for tunnel_script :: (script, nat, unit) quiche"
  obtain tun where f: "t_flows tun = [0 \<mapsto> local_source]"
    and r: "(session_step calm_kernel ?q 3 sample_dialed)\<^sup>*\<^sup>* (tunnel_new tunnel_script []) tun"
    using sample_reach by blast
  from client_flows_consistent [OF fresh_streams_scripted r] f r show ?thesis by force
qed

text \<open>C20. Replies go home: what the client sends by its local socket is, in order, the payloads of the datagrams it
  received from the tunnel, each to the source of its flow, and nothing else; if the kernel takes every message
  then none of them is missing.\<close>

theorem replies_reach_source:
  assumes "route_tunnel_datagrams k q lsock flows c t = Some (c', t')"
  shows "\<exists>ds c1 e sent. receives q c ds c1 \<and> q_dgram_recv q c1 MAX_DATAGRAM_SIZE = (Inl e, c')
       \<and> subseq sent (concat (map (reply flows) ds)) \<and> wire t' = wire t @ map (\<lambda>(src, p). (lsock, Some src, p)) sent
       \<and> (accepting k \<longrightarrow> sent = concat (map (reply flows) ds))"
  using route_tunnel_datagrams_wire [OF assms] by simp

theorem replies_reach_source_witness:
  "\<exists>c' t'. route_tunnel_datagrams calm_kernel (scripted_for tunnel_script :: (script, nat, unit) quiche) 3 [0 \<mapsto> local_source] tunnel_script [] = Some (c', t')
     \<and> wire t' = [(3, Some local_source, [7])]"
proof -
  let ?q = "scripted_for tunnel_script :: (script, nat, unit) quiche"
  obtain c' t' where r: "route_tunnel_datagrams calm_kernel ?q 3 [0 \<mapsto> local_source] tunnel_script [] = Some (c', t')"
    using route_tunnel_datagrams_total [OF client_drains_scripted unblocks_calm] by blast
  from replies_reach_source [OF r] obtain ds c1 e where ds: "receives ?q tunnel_script ds c1" "q_dgram_recv ?q c1 MAX_DATAGRAM_SIZE = (Inl e, c')"
    and w: "wire t' = map (\<lambda>(src, p). (3, Some src, p)) (concat (map (reply [0 \<mapsto> local_source]) ds))"
    using accepting_calm by auto
  have one: "q_dgram_recv ?q tunnel_script MAX_DATAGRAM_SIZE = (Inr (dgram_encode 0 [7]), tunnel_script\<lparr>sc_dgrams := [], sc_taken := [dgram_encode 0 [7]]\<rparr>)"
    "q_dgram_recv ?q (tunnel_script\<lparr>sc_dgrams := [], sc_taken := [dgram_encode 0 [7]]\<rparr>) MAX_DATAGRAM_SIZE = (Inl Done, tunnel_script\<lparr>sc_dgrams := [], sc_taken := [dgram_encode 0 [7]]\<rparr>)"
    by (simp_all add: scripted_for_def tunnel_script_def) code_simp
  have "ds = [dgram_encode 0 [7]]"
  proof (cases ds)
    case Nil
    with ds one show ?thesis by simp
  next
    case (Cons x xs)
    with ds one show ?thesis by (cases xs) auto
  qed
  moreover have "reply [0 \<mapsto> local_source] (dgram_encode 0 [7]) = [(local_source, [7])]" by code_simp
  ultimately show ?thesis using w r by auto
qed


definition sample_client_env :: client_env where
  "sample_client_env = \<lparr>ce_ssl = (\<lambda>_ _. True), ce_qc = (\<lambda>_ _. True), ce_file_exists = (\<lambda>_. False),
     ce_to_socket_addrs = (\<lambda>_. Some [SocketV4 9 443]), ce_addr_of = (\<lambda>n. SocketV4 2 50000), ce_h3_config_new = Inr \<lparr>extended_connect = False\<rparr>\<rparr>"

definition sample_options :: proxy_options where
  "sample_options = \<lparr>po_conn = \<lparr>cp_endpoint = \<lparr>ep_authority = ''a.b:443'', ep_path = ''/p''\<rparr>, cp_proxy_addr = None,
     cp_verify = Insecure, cp_ech_config_list = None\<rparr>, po_listen = SocketV4 0 5353\<rparr>"




end
