(* ===== verification/Client_Refine.thy ===== *)
theory Client_Refine
  imports Client_Run
begin

text \<open>
  What the tables of the client stand for.  The specification gives every local source one of three phases and has
  four operations on a table of phases, each with the datagrams it puts into the tunnel.  A session iteration of the
  client is shown to be a sequence of such operations, and the specification to be a queue for each source.
\<close>

section \<open>The specification\<close>

datatype phase = Waiting "bytes list" | Requested u64 "bytes list" | Accepted u64

type_synonym phases = "socket_addr \<rightharpoonup> phase"

datatype flow_op = Offer socket_addr bytes | Request socket_addr u64 | Accept socket_addr | Forget socket_addr

text \<open>A datagram in the tunnel: the source it is from, its flow and its payload.\<close>

type_synonym tunnelled = "socket_addr \<times> u64 \<times> bytes"

fun flow_step :: "flow_op \<Rightarrow> phases \<Rightarrow> phases \<times> tunnelled list" where
  "flow_step (Offer src d) ph =
     (case ph src of
        None \<Rightarrow> (ph(src \<mapsto> Waiting [d]), [])
      | Some (Waiting ps) \<Rightarrow> (ph(src \<mapsto> Waiting (take MAX_PENDING (ps @ [d]))), [])
      | Some (Requested fid ps) \<Rightarrow> (ph(src \<mapsto> Requested fid (take MAX_PENDING (ps @ [d]))), [])
      | Some (Accepted fid) \<Rightarrow> (ph, [(src, fid, d)]))"
| "flow_step (Request src fid) ph = (case ph src of Some (Waiting ps) \<Rightarrow> (ph(src \<mapsto> Requested fid ps), []) | _ \<Rightarrow> (ph, []))"
| "flow_step (Accept src) ph =
     (case ph src of Some (Requested fid ps) \<Rightarrow> (ph(src \<mapsto> Accepted fid), map (\<lambda>p. (src, fid, p)) ps) | _ \<Rightarrow> (ph, []))"
| "flow_step (Forget src) ph = (ph(src := None), [])"

fun flow_run :: "flow_op list \<Rightarrow> phases \<Rightarrow> phases \<times> tunnelled list" where
  "flow_run [] ph = (ph, [])"
| "flow_run (op # ops) ph = (case flow_step op ph of (ph, out) \<Rightarrow> case flow_run ops ph of (ph, outs) \<Rightarrow> (ph, out @ outs))"

lemma flow_run_append:
  "flow_run ops ph = (ph1, out1) \<Longrightarrow> flow_run ops' ph1 = (ph2, out2) \<Longrightarrow> flow_run (ops @ ops') ph = (ph2, out1 @ out2)"
  by (induction ops arbitrary: ph out1) (auto split: prod.splits)

fun offer_of :: "flow_op \<Rightarrow> (bytes \<times> socket_addr) list" where
  "offer_of (Offer src d) = [(d, src)]"
| "offer_of _ = []"

definition offers :: "flow_op list \<Rightarrow> (bytes \<times> socket_addr) list" where
  "offers ops = concat (map offer_of ops)"

lemma offers_simps [simp]: "offers [] = []" "offers (op # ops) = offer_of op @ offers ops" "offers (ops @ ops') = offers ops @ offers ops'"
  by (simp_all add: offers_def)

fun request_of :: "flow_op \<Rightarrow> (socket_addr \<times> u64) list" where
  "request_of (Request src fid) = [(src, fid)]"
| "request_of _ = []"

definition requests :: "flow_op list \<Rightarrow> (socket_addr \<times> u64) list" where
  "requests ops = concat (map request_of ops)"

lemma requests_simps [simp]:
  "requests [] = []" "requests (op # ops) = request_of op @ requests ops" "requests (ops @ ops') = requests ops @ requests ops'"
  by (simp_all add: requests_def)

text \<open>Flow identifiers that ascend from one counter value to another and can be framed.\<close>

definition numbered :: "nat \<Rightarrow> nat \<Rightarrow> u64 list \<Rightarrow> bool" where
  "numbered n n' fids \<longleftrightarrow> n \<le> n' \<and> sorted_wrt (<) (map unat fids) \<and> (\<forall>f \<in> set fids. n \<le> unat f \<and> unat f < n' \<and> varint_range f)"

lemma numbered_Nil [simp]: "numbered n n' [] \<longleftrightarrow> n \<le> n'"
  by (simp add: numbered_def)

lemma numbered_append: "numbered n n1 fs \<Longrightarrow> numbered n1 n2 fs' \<Longrightarrow> numbered n n2 (fs @ fs')"
  by (fastforce simp: numbered_def sorted_wrt_append)

lemma numbered_distinct: "numbered n n' fs \<Longrightarrow> distinct fs"
  by (auto simp: numbered_def strict_sorted_iff distinct_map)

definition out_from :: "socket_addr \<Rightarrow> tunnelled list \<Rightarrow> bytes list" where
  "out_from src out = map (\<lambda>(_, _, p). p) (filter (\<lambda>(s, _, _). s = src) out)"

definition offered_by :: "socket_addr \<Rightarrow> (bytes \<times> socket_addr) list \<Rightarrow> bytes list" where
  "offered_by src pkts = map fst (filter (\<lambda>(_, s). s = src) pkts)"

lemma out_from_simps [simp]:
  "out_from src [] = []" "out_from src (out @ out') = out_from src out @ out_from src out'"
  "out_from src ((s, f, p) # out) = (if s = src then p # out_from src out else out_from src out)"
  "out_from src (map (\<lambda>p. (s, f, p)) ps) = (if s = src then ps else [])"
  by (simp_all add: out_from_def) (induction ps, simp_all)

lemma offered_by_simps [simp]:
  "offered_by src [] = []" "offered_by src (pkts @ pkts') = offered_by src pkts @ offered_by src pkts'"
  "offered_by src ((p, s) # pkts) = (if s = src then p # offered_by src pkts else offered_by src pkts)"
  by (simp_all add: offered_by_def)

definition kept :: "phase option \<Rightarrow> bytes list" where
  "kept ph = (case ph of Some (Waiting ps) \<Rightarrow> ps | Some (Requested _ ps) \<Rightarrow> ps | _ \<Rightarrow> [])"

lemma kept_simps [simp]: "kept None = []" "kept (Some (Waiting ps)) = ps" "kept (Some (Requested f ps)) = ps" "kept (Some (Accepted f)) = []"
  by (simp_all add: kept_def)

lemma subseq_take: "subseq (take n xs) xs"
  by (metis append_take_drop_id list_emb_append2 subseq_order.order_refl prefix_imp_subseq take_is_prefix)

text \<open>Each source has a queue: what leaves it and what is kept are, in order, among what was kept and what came.\<close>

lemma flow_step_fifo:
  assumes "flow_step op ph = (ph', out)"
  shows "subseq (out_from src out @ kept (ph' src)) (kept (ph src) @ offered_by src (offer_of op))"
proof (cases op)
  case (Offer s d)
  with assms show ?thesis
    by (cases "s = src") (auto split: option.splits phase.splits simp: subseq_take simp del: take_append)
next
  case (Request s f)
  with assms show ?thesis by (cases "s = src") (auto split: option.splits phase.splits)
next
  case (Accept s)
  with assms show ?thesis by (cases "s = src") (auto split: option.splits phase.splits)
qed (use assms in \<open>auto\<close>)

lemma flow_run_fifo:
  "flow_run ops ph = (ph', out) \<Longrightarrow> subseq (out_from src out @ kept (ph' src)) (kept (ph src) @ offered_by src (offers ops))"
proof (induction ops arbitrary: ph out)
  case (Cons op ops)
  obtain ph1 out1 out2 where s: "flow_step op ph = (ph1, out1)" "flow_run ops ph1 = (ph', out2)" "out = out1 @ out2"
    using Cons.prems by (auto split: prod.splits)
  have "subseq (out_from src out2 @ kept (ph' src)) (kept (ph1 src) @ offered_by src (offers ops))" using Cons.IH [OF s(2)] .
  then have "subseq (out_from src out @ kept (ph' src)) (out_from src out1 @ kept (ph1 src) @ offered_by src (offers ops))"
    using list_emb_append_mono [OF subseq_order.order_refl [of "out_from src out1"]] by (simp add: s(3))
  moreover have "subseq ((out_from src out1 @ kept (ph1 src)) @ offered_by src (offers ops))
      ((kept (ph src) @ offered_by src (offer_of op)) @ offered_by src (offers ops))"
    using list_emb_append_mono [OF flow_step_fifo [OF s(1)] subseq_order.order_refl] .
  ultimately show ?case using subseq_order.trans by (metis append.assoc offered_by_simps(2) offers_simps(2))
qed simp

section \<open>The client's tables as phases\<close>

definition phase_of :: "flow_state \<Rightarrow> phase" where
  "phase_of st = (case fs_flow_id st of
     None \<Rightarrow> Waiting (fs_pending st)
   | Some fid \<Rightarrow> if fs_established st then Accepted fid else Requested fid (fs_pending st))"

definition phases_of :: "by_addr \<Rightarrow> phases" where
  "phases_of by_addr = (\<lambda>src. map_option phase_of (by_addr src))"

lemma phases_of_upd [simp]:
  "phases_of (b(src \<mapsto> st)) = (phases_of b)(src \<mapsto> phase_of st)" "phases_of (b(src := None)) = (phases_of b)(src := None)"
  by (auto simp: phases_of_def)

lemma phases_of_app: "phases_of b src = map_option phase_of (b src)"
  by (simp add: phases_of_def)

lemma phases_of_same: "b src = Some st \<Longrightarrow> phase_of st' = phase_of st \<Longrightarrow> phases_of (b(src \<mapsto> st')) = phases_of b"
  by (auto simp: phases_of_def)

definition datagrams :: "tunnelled list \<Rightarrow> bytes list" where
  "datagrams out = map (\<lambda>(_, fid, p). dgram_encode fid p) out"

lemma datagrams_simps [simp]: "datagrams [] = []" "datagrams (out @ out') = datagrams out @ datagrams out'"
  "datagrams ((src, fid, p) # out) = dgram_encode fid p # datagrams out"
  by (simp_all add: datagrams_def)

text \<open>What was handed to a connection so far: \<^verbatim>\<open>dgram_send\<close> adds a datagram and no other call of the client does.\<close>

definition logs :: "('c, 'h, 'g) quiche \<Rightarrow> ('c \<Rightarrow> bytes list) \<Rightarrow> bool" where
  "logs q sent \<longleftrightarrow>
     (\<forall>c d. sent (snd (q_dgram_send q c d)) = sent c @ [d])
     \<and> (\<forall>c n. sent (snd (q_dgram_recv q c n)) = sent c)
     \<and> (\<forall>c pkt dst src. sent (snd (q_recv q c pkt dst src)) = sent c)
     \<and> (\<forall>c n. sent (snd (q_send q c n)) = sent c)
     \<and> (\<forall>c. sent (q_on_timeout q c) = sent c \<and> sent (snd (q_send_ack_eliciting q c)) = sent c \<and> sent (snd (h3_with_transport q c)) = sent c)
     \<and> (\<forall>h c. sent (snd (snd (h3_poll q h c))) = sent c)
     \<and> (\<forall>h c hs fin. sent (snd (snd (h3_send_request q h c hs fin))) = sent c)"

lemma logsD:
  assumes "logs q sent"
  shows "sent (snd (q_dgram_send q c d)) = sent c @ [d]" and "q_dgram_recv q c n = (x1, c') \<Longrightarrow> sent c' = sent c"
    and "sent (snd (q_recv q c pkt dst src)) = sent c" and "q_send q c n = (x2, c') \<Longrightarrow> sent c' = sent c"
    and "sent (q_on_timeout q c) = sent c" and "sent (snd (q_send_ack_eliciting q c)) = sent c"
    and "h3_with_transport q c = (x3, c') \<Longrightarrow> sent c' = sent c"
    and "h3_poll q h c = (x4, h', c') \<Longrightarrow> sent c' = sent c"
    and "h3_send_request q h c hs fin = (x5, h', c') \<Longrightarrow> sent c' = sent c"
  using assms unfolding logs_def by (metis snd_conv)+

lemma send_datagrams_sent:
  assumes "logs q sent"
  shows "sent (fold (send_datagram q fid) ps c) = sent c @ map (dgram_encode fid) ps"
  by (induction ps arbitrary: c) (simp_all add: send_datagram_def logsD(1) [OF assms])

section \<open>Simulation\<close>

text \<open>Some operations that offer the given datagrams lead from one table to the other, putting what was sent into the
  tunnel.\<close>

definition simulated :: "('c \<Rightarrow> bytes list) \<Rightarrow> (bytes \<times> socket_addr) list \<Rightarrow> nat \<times> 'c \<times> by_addr \<Rightarrow> nat \<times> 'c \<times> by_addr \<Rightarrow> bool" where
  "simulated sent pkts s s' \<longleftrightarrow>
     (\<exists>ops out. offers ops = pkts \<and> numbered (fst s) (fst s') (map snd (requests ops)) \<and> flow_run ops (phases_of (snd (snd s))) = (phases_of (snd (snd s')), out)
        \<and> sent (fst (snd s')) = sent (fst (snd s)) @ datagrams out)"

lemma simulated_trans:
  "simulated sent pkts s s1 \<Longrightarrow> simulated sent pkts' s1 s2 \<Longrightarrow> simulated sent (pkts @ pkts') s s2"
  unfolding simulated_def
proof (elim exE conjE)
  fix ops out ops' out'
  assume a: "offers ops = pkts" "numbered (fst s) (fst s1) (map snd (requests ops))" "flow_run ops (phases_of (snd (snd s))) = (phases_of (snd (snd s1)), out)" "sent (fst (snd s1)) = sent (fst (snd s)) @ datagrams out"
    "offers ops' = pkts'" "numbered (fst s1) (fst s2) (map snd (requests ops'))" "flow_run ops' (phases_of (snd (snd s1))) = (phases_of (snd (snd s2)), out')" "sent (fst (snd s2)) = sent (fst (snd s1)) @ datagrams out'"
  then show "\<exists>ops out. offers ops = pkts @ pkts' \<and> numbered (fst s) (fst s2) (map snd (requests ops)) \<and> flow_run ops (phases_of (snd (snd s))) = (phases_of (snd (snd s2)), out)
      \<and> sent (fst (snd s2)) = sent (fst (snd s)) @ datagrams out"
    by (intro exI [of _ "ops @ ops'"] exI [of _ "out @ out'"]) (simp add: flow_run_append [OF a(3,7)] numbered_append [OF a(2,6)])
qed

lemma simulated_same: "sent c' = sent c \<Longrightarrow> phases_of b' = phases_of b \<Longrightarrow> simulated sent [] (n, c, b) (n, c', b')"
  unfolding simulated_def by (rule exI [of _ "[]"]) simp

lemma simulated_step:
  "flow_step op (phases_of b) = (phases_of b', out) \<Longrightarrow> sent c' = sent c @ datagrams out \<Longrightarrow> numbered n n' (map snd (request_of op)) \<Longrightarrow>
     simulated sent (offer_of op) (n, c, b) (n', c', b')"
  unfolding simulated_def by (rule exI [of _ "[op]"]) simp

lemma simulated_later: "simulated sent pkts (n, cb) s' \<Longrightarrow> m \<le> n \<Longrightarrow> simulated sent pkts (m, cb) s'"
  unfolding simulated_def numbered_def by fastforce

lemma queue_local_simulated:
  assumes q: "logs q sent" and inv: "flows_inv n b flows" and e: "queue_local q (d, src) (c, b) = (c', b')"
  shows "simulated sent [(d, src)] (n, c, b) (n, c', b')"
proof -
  let ?st = "case b src of None \<Rightarrow> flow_state_new | Some st \<Rightarrow> st"
  have ok: "source_ok ?st" using flows_invD(3) [OF inv] by (auto split: option.split)
  have "\<exists>out. flow_step (Offer src d) (phases_of b) = (phases_of b', out) \<and> sent c' = sent c @ datagrams out"
  proof (cases "fs_established ?st \<and> fs_flow_id ?st \<noteq> None")
    case True
    then obtain st fid where st: "b src = Some st" "fs_established st" "fs_flow_id st = Some fid"
      by (auto simp: flow_state_new_def split: option.splits)
    with e have "c' = send_datagram q fid d c" "b' = b" by (auto simp: queue_local_def map_upd_triv)
    with st show ?thesis by (simp add: phases_of_app phase_of_def send_datagram_def logsD(1) [OF q])
  next
    case False
    with e have c: "c' = c" "b' = b(src \<mapsto> (if length (fs_pending ?st) < MAX_PENDING then ?st\<lparr>fs_pending := fs_pending ?st @ [d]\<rparr> else ?st))"
      by (auto simp: queue_local_def Let_def split: bool.splits option.splits)
    have "flow_step (Offer src d) (phases_of b) = (phases_of b', [])"
      using c(2) False ok
      by (cases "b src")
        (auto simp: phases_of_app phase_of_def flow_state_new_def MAX_PENDING_def source_ok_def split: option.splits if_splits)
    with c(1) show ?thesis by simp
  qed
  then obtain out where "flow_step (Offer src d) (phases_of b) = (phases_of b', out)" "sent c' = sent c @ datagrams out" by blast
  then show ?thesis using simulated_step [of "Offer src d" b b' out sent c' c n n] by simp
qed

lemma queue_locals_simulated:
  assumes q: "logs q sent"
  shows "flows_inv n b flows \<Longrightarrow> fold (queue_local q) pkts (c, b) = (c', b') \<Longrightarrow> simulated sent pkts (n, c, b) (n, c', b')"
proof (induction pkts arbitrary: c b)
  case Nil
  then show ?case by (auto intro: simulated_same)
next
  case (Cons pkt pkts)
  obtain d src where pkt: "pkt = (d, src)" by force
  obtain c1 b1 where e: "queue_local q (d, src) (c, b) = (c1, b1)" by force
  note one = queue_local_simulated [OF q Cons.prems(1) e] and inv = queue_local_inv(1) [OF Cons.prems(1) e]
  have "simulated sent pkts (n, c1, b1) (n, c', b')" using Cons.IH [OF inv] Cons.prems(2) pkt e by simp
  from simulated_trans [OF one this] pkt show ?case by simp
qed

text \<open>Requests for the sources that wait, and the sources that are dropped.\<close>

lemma open_flows_simulated:
  assumes q: "logs q sent" and fresh: "fresh_streams q nxt"
  shows "open_flows q hs order (c, h, b, flows) dropped = ((c', h', b', flows'), dropped') \<Longrightarrow>
     (\<And>src st. b src = Some st \<Longrightarrow> source_ok st) \<Longrightarrow> simulated sent [] (nxt h, c, b) (nxt h', c', b')"
proof (induction order arbitrary: c h b flows dropped)
  case Nil
  then show ?case by (auto intro: simulated_same)
next
  case (Cons src rest)
  show ?case
  proof (cases "\<exists>st. b src = Some st \<and> fs_flow_id st = None")
    case True
    then obtain st where st: "b src = Some st" "fs_flow_id st = None" by blast
    obtain r h1 c1 where req: "h3_send_request q h c hs False = (r, h1, c1)" by (metis prod_cases3)
    have c1: "sent c1 = sent c" using logsD(9) [OF q req] .
    show ?thesis
    proof (cases r)
      case (Inl e)
      have h1: "nxt h1 = nxt h" using fresh_streamsD(2) [OF fresh] req Inl by blast
      have "open_flows q hs rest (c1, h1, b, flows) (if e = StreamBlocked then dropped else dropped @ [src]) = ((c', h', b', flows'), dropped')"
        using Cons.prems(1) st req Inl by simp
      from Cons.IH [OF this Cons.prems(2)] have "simulated sent [] (nxt h, c1, b) (nxt h', c', b')" by (simp add: h1)
      from simulated_trans [OF simulated_same [of sent c1 c b b, OF c1 refl] this] show ?thesis by simp
    next
      case (Inr sid)
      let ?b = "b(src \<mapsto> st\<lparr>fs_flow_id := Some (sid div 4)\<rparr>)"
      have ok: "source_ok (st\<lparr>fs_flow_id := Some (sid div 4)\<rparr>)" "\<not> fs_established st"
        using Cons.prems(2) [OF st(1)] st(2) by (auto simp: source_ok_def)
      have "open_flows q hs rest (c1, h1, ?b, flows(sid div 4 \<mapsto> src)) dropped = ((c', h', b', flows'), dropped')"
        using Cons.prems(1) st req Inr by simp
      then have "simulated sent [] (nxt h1, c1, ?b) (nxt h', c', b')"
        by (rule Cons.IH) (use ok Cons.prems(2) in \<open>auto split: if_splits\<close>)
      moreover have "flow_step (Request src (sid div 4)) (phases_of b) = (phases_of ?b, [])"
        using st ok(2) by (simp add: phases_of_app phase_of_def)
      moreover have "varint_range (sid div 4)" by (rule varint_range_flow)
      with fresh_streamsD(1) [OF fresh req [unfolded Inr]] have "numbered (nxt h) (nxt h1) [sid div 4]" by (simp add: numbered_def)
      ultimately have "simulated sent [] (nxt h1, c1, ?b) (nxt h', c', b')" "simulated sent (offer_of (Request src (sid div 4))) (nxt h, c, b) (nxt h1, c1, ?b)"
        using simulated_step [of "Request src (sid div 4)" b ?b "[]" sent c1 c "nxt h" "nxt h1"] c1 by simp_all
      then show ?thesis using simulated_trans by fastforce
    qed
  next
    case False
    then have "open_flows q hs rest (c, h, b, flows) dropped = ((c', h', b', flows'), dropped')"
      using Cons.prems(1) by (cases "b src") auto
    then show ?thesis using Cons.prems(2) by (rule Cons.IH)
  qed
qed

lemma forget_simulated: "simulated sent [] (n, c, b) (n, c, b |` (- set dropped))"
proof (induction dropped arbitrary: b)
  case Nil
  have "b |` (- set []) = b" by (simp add: restrict_map_def)
  then show ?case by (simp only: simulated_same)
next
  case (Cons src dropped)
  have "simulated sent (offer_of (Forget src)) (n, c, b) (n, c, b(src := None))" by (rule simulated_step [where out = "[]"]) simp_all
  from simulated_trans [OF this Cons.IH [of "b(src := None)"]]
  have "simulated sent [] (n, c, b) (n, c, b(src := None) |` (- set dropped))" by (simp only: offer_of.simps append_Nil)
  moreover have "b(src := None) |` (- set dropped) = b |` (- set (src # dropped))" by (auto simp: restrict_map_def)
  ultimately show ?case by (simp only:)
qed

lemma open_pending_flows_simulated:
  assumes q: "logs q sent" "fresh_streams q nxt" and inv: "flows_inv n b flows"
    and o: "open_pending_flows q authority path order (c, h, b, flows) = (c', h', b', flows')"
  shows "simulated sent [] (nxt h, c, b) (nxt h', c', b')"
proof -
  obtain b1 dropped where f: "open_flows q (connect_headers authority path) order (c, h, b, flows) [] = ((c', h', b1, flows'), dropped)"
    and b: "b' = b1 |` (- set dropped)"
    using o by (auto simp: open_pending_flows_def split: prod.splits)
  have "simulated sent [] (nxt h, c, b) (nxt h', c', b1)" using open_flows_simulated [OF q f] flows_invD(3) [OF inv] by blast
  from simulated_trans [OF this forget_simulated] b show ?thesis by simp
qed

lemma remove_flow_simulated: "remove_flow fid (b, flows) = (b', flows') \<Longrightarrow> simulated sent [] (n, c, b) (n, c, b')"
  using simulated_step [of "Forget (the (flows fid))" b b' "[]" sent c c n n]
  by (auto simp: remove_flow_def simulated_same split: option.splits)

lemma client_event_simulated:
  assumes q: "logs q sent" and inv: "flows_inv m b flows" and e: "client_event q sid ev (c, h, b, flows) = (c', h', b', flows')"
  shows "simulated sent [] (n, c, b) (n, c', b')"
proof (cases ev)
  case (Headers hs)
  show ?thesis
  proof (cases rule: client_event_Headers [of hs flows sid b q c h])
    case (accepted code src st)
    have c': "c' = fold (send_datagram q (sid div 4)) (fs_pending st) c" "b' = b(src \<mapsto> st\<lparr>fs_established := True, fs_pending := []\<rparr>)"
      using accepted(6) e Headers by auto
    have fid: "fs_flow_id st = Some (sid div 4)" using flows_invD(1) [OF inv accepted(4)] accepted(5) by auto
    let ?out = "map (\<lambda>p. (src, sid div 4, p)) (fs_pending st)"
    have "flow_step (Accept src) (phases_of b) = (phases_of b', ?out)"
    proof (cases "fs_established st")
      case True
      then have "fs_pending st = []" using flows_invD(3) [OF inv accepted(5)] by (simp add: source_ok_def)
      moreover have "phases_of b' = phases_of b" unfolding c'(2)
        by (rule phases_of_same [of b src st, OF accepted(5)]) (use True fid in \<open>simp add: phase_of_def\<close>)
      ultimately show ?thesis using True accepted(5) fid by (simp add: phases_of_app phase_of_def)
    qed (use accepted(5) fid c'(2) in \<open>simp add: phases_of_app phase_of_def\<close>)
    moreover have "sent c' = sent c @ datagrams ?out" by (simp add: c'(1) send_datagrams_sent [OF q] datagrams_def)
    ultimately have "simulated sent (offer_of (Accept src)) (n, c, b) (n, c', b')" by (rule simulated_step) simp
    then show ?thesis by simp
  qed (use e Headers in \<open>auto simp: simulated_same intro: remove_flow_simulated simp del: client_event.simps\<close>)
qed (use e in \<open>auto simp: simulated_same intro: remove_flow_simulated\<close>)

lemma poll_responses_simulated:
  "poll_responses q st = Some st' \<Longrightarrow> logs q sent \<Longrightarrow> fresh_streams q nxt \<Longrightarrow> flows_inv n (fst (snd (snd st))) (snd (snd (snd st))) \<Longrightarrow>
     simulated sent [] (nxt (fst (snd st)), fst st, fst (snd (snd st))) (nxt (fst (snd st')), fst st', fst (snd (snd st')))"
proof (induction rule: poll_responses.raw_induct [rotated, consumes 1, case_names step])
  case (step f q st st')
  obtain c h b fl where st: "st = (c, h, b, fl)" by (metis prod_cases4)
  obtain r h1 c1 where p: "h3_poll q h c = (r, h1, c1)" by (metis prod_cases3)
  have c1: "sent c1 = sent c" and h1: "nxt h1 = nxt h"
    using logsD(8) [OF step.prems(1) p] fresh_streamsD(3) [OF step.prems(2) p] .
  show ?case
  proof (cases r)
    case (Inl e)
    with step.hyps st p have "st' = (c1, h1, b, fl)" by simp
    with st c1 h1 show ?thesis by (simp add: simulated_same)
  next
    case (Inr x)
    obtain sid ev where x: "x = (sid, ev)" by force
    obtain c2 h2 b2 fl2 where e: "client_event q sid ev (c1, h1, b, fl) = (c2, h2, b2, fl2)" by (metis prod_cases4)
    have inv: "flows_inv n b fl" using step.prems(3) st by simp
    note inv2 = client_event_inv [OF inv e]
    have "f q (c2, h2, b2, fl2) = Some st'" using step.hyps st p Inr x e by simp
    from step.IH [OF this step.prems(1,2)] inv2 h1
    have "simulated sent [] (nxt h, c2, b2) (nxt (fst (snd st')), fst st', fst (snd (snd st')))" by simp
    from simulated_trans [OF client_event_simulated [OF step.prems(1) inv e] this]
    have "simulated sent [] (nxt h, c1, b) (nxt (fst (snd st')), fst st', fst (snd (snd st')))" by simp
    then show ?thesis using st c1 by (simp add: simulated_def)
  qed
qed

lemma route_tunnel_datagrams_sent:
  "route_tunnel_datagrams k q lsock flows c t = Some y \<Longrightarrow> logs q sent \<Longrightarrow> sent (fst y) = sent c"
proof (induction rule: route_tunnel_datagrams.raw_induct [rotated, consumes 1, case_names step])
  case (step f k q lsock flows c t y)
  obtain r c1 where d: "q_dgram_recv q c MAX_DATAGRAM_SIZE = (r, c1)" by force
  have c1: "sent c1 = sent c" using logsD(2) [OF step.prems d] .
  show ?case
  proof (cases r)
    case (Inl e)
    with step.hyps d have "y = (c1, t)" by simp
    with c1 show ?thesis by simp
  next
    case (Inr x)
    have "\<exists>t1. f k q lsock flows c1 t1 = Some y"
      using step.hyps d Inr by (auto simp: bind_eq_Some_conv split: option.splits if_splits)
    with step.IH [OF _ step.prems] c1 show ?thesis by metis
  qed
qed

section \<open>Iterations and sessions\<close>

lemma absorb_sent: "logs q sent \<Longrightarrow> sent (absorb q local_addr i c) = sent c"
proof -
  assume q: "logs q sent"
  have "sent (fold (\<lambda>(buf, src) c. snd (q_recv q c buf local_addr src)) pkts c) = sent c" for pkts
    by (induction pkts arbitrary: c) (auto simp: logsD(3) [OF q])
  then show ?thesis by (simp add: absorb_def Let_def logsD(5,6) [OF q])
qed

lemma ensure_http3_sent:
  assumes "logs q sent" "ensure_http3 q tun = Some tun'"
  shows "sent (t_conn tun') = sent (t_conn tun) \<and> t_by_addr tun' = t_by_addr tun"
  using assms(2) logsD(7) [OF assms(1)] by (auto simp: ensure_http3_def split: if_splits prod.splits sum.splits)

text \<open>The number of the next flow: none is taken before there is an HTTP/3 connection.\<close>

definition next_flow :: "('h \<Rightarrow> nat) \<Rightarrow> ('c, 'h) tunnel \<Rightarrow> nat" where
  "next_flow nxt tun = (case t_http3 tun of None \<Rightarrow> 0 | Some h \<Rightarrow> nxt h)"

lemma next_flow_ensure_http3: "ensure_http3 q tun = Some tun' \<Longrightarrow> next_flow nxt tun \<le> next_flow nxt tun'"
  by (auto simp: ensure_http3_def next_flow_def split: if_splits prod.splits sum.splits option.splits)

lemma serve_flows_simulated:
  assumes q: "logs q sent" "fresh_streams q nxt" and inv: "tunnel_inv nxt tun" and d: "distinct order"
    and s: "serve_flows k q lsock authority path order tun = Some tun'"
  shows "simulated sent [] (next_flow nxt tun, t_conn tun, t_by_addr tun) (next_flow nxt tun', t_conn tun', t_by_addr tun')"
proof (cases "t_http3 tun")
  case None
  with s show ?thesis by (simp add: serve_flows_def simulated_same)
next
  case (Some h)
  obtain c1 h1 b1 f1 where o: "open_pending_flows q authority path order (t_conn tun, h, t_by_addr tun, t_flows tun) = (c1, h1, b1, f1)"
    by (metis prod_cases4)
  from s Some o obtain c2 h2 b2 f2 c t where p: "poll_responses q (c1, h1, b1, f1) = Some (c2, h2, b2, f2)"
    and r: "route_tunnel_datagrams k q lsock f2 c2 (t_trace tun) = Some (c, t)"
    and t: "tun' = tun\<lparr>t_conn := c, t_http3 := Some h2, t_by_addr := b2, t_flows := f2, t_trace := t\<rparr>"
    by (auto simp: serve_flows_def bind_eq_Some_conv)
  have inv0: "flows_inv (nxt h) (t_by_addr tun) (t_flows tun)" using inv Some by (simp add: tunnel_inv_def)
  have "simulated sent [] (nxt h1, c1, b1) (nxt h2, c2, b2)"
    using poll_responses_simulated [OF p q] open_pending_flows_inv [OF q(2) inv0 d o] by simp
  from simulated_trans [OF open_pending_flows_simulated [OF q inv0 o] this]
  show ?thesis using t Some route_tunnel_datagrams_sent [OF r q(1)] by (simp add: simulated_def next_flow_def)
qed

lemma session_iteration_simulated:
  assumes q: "logs q sent" "fresh_streams q nxt" and inv: "tunnel_inv nxt tun" and d: "distinct (in_order i)"
    and s: "session_iteration k q lsock d i tun = Some (Session_Continue, tun')"
  shows "simulated sent (local_pkts i) (next_flow nxt tun, t_conn tun, t_by_addr tun) (next_flow nxt tun', t_conn tun', t_by_addr tun') \<and> tunnel_inv nxt tun'"
proof -
  let ?c = "absorb q (d_local_addr d) i (t_conn tun)"
  from s obtain tun1 tun2 c t where e: "ensure_http3 q (tun\<lparr>t_conn := ?c\<rparr>) = Some tun1"
    and v: "serve_flows k q lsock (d_authority d) (d_path d) (in_order i) (queue_locals q (local_pkts i) tun1) = Some tun2"
    and f: "flush_connection k q (d_socket d) (t_conn tun2) (t_trace tun2) = Some (Inr (), c, t)"
    and t: "tun' = tun2\<lparr>t_conn := c, t_trace := t\<rparr>"
    by (rule session_iteration_Continue)
  have inv1: "tunnel_inv nxt tun1" using ensure_http3_inv [OF _ e] inv by simp
  obtain c1 b1 where ql: "fold (queue_local q) (local_pkts i) (t_conn tun1, t_by_addr tun1) = (c1, b1)" by force
  have "simulated sent (local_pkts i) (next_flow nxt tun1, t_conn tun1, t_by_addr tun1) (next_flow nxt tun1, c1, b1)"
    using queue_locals_simulated [OF q(1) _ ql] inv1 by (simp add: tunnel_inv_def next_flow_def)
  moreover have inv2: "tunnel_inv nxt (queue_locals q (local_pkts i) tun1)" using queue_locals_tunnel_inv [OF inv1] .
  have "simulated sent [] (next_flow nxt tun1, c1, b1) (next_flow nxt tun2, t_conn tun2, t_by_addr tun2)"
    using serve_flows_simulated [OF q inv2 d v] ql by (simp add: queue_locals_def next_flow_def)
  ultimately have "simulated sent (local_pkts i) (next_flow nxt tun1, t_conn tun1, t_by_addr tun1) (next_flow nxt tun2, t_conn tun2, t_by_addr tun2)"
    using simulated_trans by fastforce
  moreover have "next_flow nxt tun \<le> next_flow nxt tun1" using next_flow_ensure_http3 [OF e, of nxt] by (simp add: next_flow_def)
  ultimately have "simulated sent (local_pkts i) (next_flow nxt tun, t_conn tun1, t_by_addr tun1) (next_flow nxt tun2, t_conn tun2, t_by_addr tun2)"
    by (rule simulated_later)
  moreover have "tunnel_inv nxt tun'" using serve_flows_inv [OF q(2) inv2 d v] t by simp
  ultimately show ?thesis
    using ensure_http3_sent [OF q(1) e] absorb_sent [OF q(1)] flush_connection_keeps [where obs = sent, OF f logsD(4) [OF q(1)]] t by (simp add: simulated_def next_flow_def)
qed

lemma session_loop_simulated:
  assumes q: "logs q sent" "fresh_streams q nxt"
  shows "session_loop k q lsock d is tun = Some (Session_Continue, tun') \<Longrightarrow> tunnel_inv nxt tun \<Longrightarrow>
     (\<And>i. i \<in> set is \<Longrightarrow> distinct (in_order i)) \<Longrightarrow>
     simulated sent (concat (map local_pkts is)) (next_flow nxt tun, t_conn tun, t_by_addr tun) (next_flow nxt tun', t_conn tun', t_by_addr tun') \<and> tunnel_inv nxt tun'"
proof (induction "is" arbitrary: tun)
  case (Cons i "is")
  then obtain tun1 where one: "session_iteration k q lsock d i tun = Some (Session_Continue, tun1)"
    and rest: "session_loop k q lsock d is tun1 = Some (Session_Continue, tun')"
    by (auto simp: bind_eq_Some_conv split: if_splits) (metis session_flow.exhaust)
  have "distinct (in_order i)" using Cons.prems(3) by simp
  note s = session_iteration_simulated [OF q Cons.prems(2) this one]
  have rec: "simulated sent (concat (map local_pkts is)) (next_flow nxt tun1, t_conn tun1, t_by_addr tun1) (next_flow nxt tun', t_conn tun', t_by_addr tun')
      \<and> tunnel_inv nxt tun'"
    by (rule Cons.IH [OF rest]) (use s Cons.prems(3) in auto)
  from simulated_trans [OF s [THEN conjunct1] rec [THEN conjunct1]] rec show ?case by simp
qed (simp add: simulated_same)

section \<open>Properties\<close>

lemma logs_scripted: "logs (scripted_for start) sc_sent_dgrams"
  by (auto simp: logs_def scripted_for_def split: list.split)

text \<open>C7. The client refines the table of phases: from any reachable state, an iteration of a session amounts to
  operations of the specification that offer exactly the datagrams received from local sources, in order, and the
  datagrams handed to the tunnel are those the specification puts there.  In particular nothing of a source enters
  the tunnel before its flow is accepted.\<close>

theorem session_refines_flows:
  assumes "logs q sent" and "fresh_streams q nxt" and "(session_step k q lsock d)\<^sup>*\<^sup>* (tunnel_new c t) tun"
    and "distinct (in_order i)" and "session_iteration k q lsock d i tun = Some (Session_Continue, tun')"
  shows "\<exists>ops out. offers ops = local_pkts i
     \<and> flow_run ops (phases_of (t_by_addr tun)) = (phases_of (t_by_addr tun'), out)
     \<and> sent (t_conn tun') = sent (t_conn tun) @ datagrams out"
proof -
  have "tunnel_init (tunnel_new c t)" by (auto simp: tunnel_init_def)
  from cli.reach_inv [OF this assms(3), of nxt] assms(2) have "tunnel_inv nxt tun" by simp
  from session_iteration_simulated [OF assms(1,2) this assms(4,5)] show ?thesis by (auto simp: simulated_def)
qed

theorem session_refines_flows_witness:
  "\<exists>ops out. offers ops = [([1, 2], local_source), ([3], local_source)]
     \<and> flow_run ops Map.empty = ([local_source \<mapsto> Accepted 0], out) \<and> datagrams out = [dgram_encode 0 [1, 2], dgram_encode 0 [3]]"
proof -
  let ?q = "scripted_for tunnel_script :: (script, nat, unit) quiche"
  obtain t where s: "session_iteration calm_kernel ?q 3 sample_dialed sample_input (tunnel_new tunnel_script [])
      = Some (Session_Continue, \<lparr>t_conn = tunnel_script\<lparr>sc_events := [], sc_dgrams := [], sc_taken := [dgram_encode 0 [7]],
           sc_sent_dgrams := [dgram_encode 0 [1, 2], dgram_encode 0 [3]]\<rparr>, t_http3 = Some 1, t_established = True,
         t_by_addr = [local_source \<mapsto> \<lparr>fs_flow_id = Some 0, fs_established = True, fs_pending = []\<rparr>],
         t_flows = [0 \<mapsto> local_source], t_trace = t\<rparr>)"
    using sample_iteration by blast
  have "distinct (in_order sample_input)" by (simp add: sample_input_def)
  from session_refines_flows [OF logs_scripted fresh_streams_scripted rtranclp.rtrancl_refl this s] obtain ops out
    where "offers ops = local_pkts sample_input" "datagrams out = [dgram_encode 0 [1, 2], dgram_encode 0 [3]]"
      "flow_run ops (phases_of Map.empty) = (phases_of [local_source \<mapsto> \<lparr>fs_flow_id = Some 0, fs_established = True, fs_pending = []\<rparr>], out)"
    by (auto simp: tunnel_new_def tunnel_script_def idle_script_def)
  moreover have "phases_of Map.empty = Map.empty" by (simp add: phases_of_def)
  ultimately show ?thesis by (auto simp: phase_of_def local_pkts_def sample_input_def)
qed



end
