(* ===== verification/End_To_End.thy ===== *)
theory End_To_End
  imports Server_Feed Client_Refine "HOL-Library.Multiset"
begin

text \<open>
  The two ends together.  A client session and a server run are joined by a network that may lose and reorder
  datagrams of a connection but neither forges nor repeats them: what one end has taken from its connection is, as a
  multiset, part of what the other end has given to it.
\<close>

section \<open>Which source a flow belongs to\<close>

definition owned :: "phases \<Rightarrow> (socket_addr \<times> u64) set" where
  "owned ph = {(src, f). (\<exists>ps. ph src = Some (Requested f ps)) \<or> ph src = Some (Accepted f)}"

lemma owned_empty [simp]: "owned Map.empty = {}"
  by (simp add: owned_def)

lemma flow_step_owned:
  assumes "flow_step op ph = (ph', out)"
  shows "owned ph' \<subseteq> owned ph \<union> set (request_of op)" "(s, f, p) \<in> set out \<Longrightarrow> (s, f) \<in> owned ph"
  using assms by (cases op; auto simp: owned_def split: option.splits phase.splits if_splits)+

lemma flow_run_owned:
  "flow_run ops ph = (ph', out) \<Longrightarrow> owned ph' \<subseteq> owned ph \<union> set (requests ops)
     \<and> (\<forall>s f p. (s, f, p) \<in> set out \<longrightarrow> (s, f) \<in> owned ph \<union> set (requests ops))"
proof (induction ops arbitrary: ph out)
  case (Cons op ops)
  obtain ph1 out1 out2 where s: "flow_step op ph = (ph1, out1)" "flow_run ops ph1 = (ph', out2)" "out = out1 @ out2"
    using Cons.prems by (auto split: prod.splits)
  from Cons.IH [OF s(2)] flow_step_owned [OF s(1)] s(3) show ?case by fastforce
qed simp

definition source_of :: "(socket_addr \<times> u64) list \<Rightarrow> u64 \<Rightarrow> socket_addr" where
  "source_of reqs fid = (case map_of (map prod.swap reqs) fid of None \<Rightarrow> SocketV4 0 0 | Some src \<Rightarrow> src)"

lemma source_of_eq: "distinct (map snd reqs) \<Longrightarrow> (src, fid) \<in> set reqs \<Longrightarrow> source_of reqs fid = src"
proof -
  assume "distinct (map snd reqs)" "(src, fid) \<in> set reqs"
  then have "map_of (map prod.swap reqs) fid = Some src"
    by (intro map_of_is_SomeI) (auto simp: image_iff comp_def intro: rev_bexI)
  then show ?thesis by (simp add: source_of_def)
qed

section \<open>Payloads on their way\<close>

lemma subseq_mset: "subseq xs ys \<Longrightarrow> mset xs \<subseteq># mset ys"
  by (induction rule: list_emb.induct) (auto intro: subset_mset.order_trans)

lemma mset_payloads_on: "mset (payloads_on fid ds) = (\<Sum>d \<in># mset ds. mset (payload_on fid d))"
  by (induction ds) simp_all

lemma payloads_on_mset: "mset ds \<subseteq># mset ds' \<Longrightarrow> mset (payloads_on fid ds) \<subseteq># mset (payloads_on fid ds')"
  by (auto simp: mset_payloads_on mset_subset_eq_exists_conv)

lemma payload_on_encode: "varint_range f \<Longrightarrow> payload_on fid (dgram_encode f p) = (if f = fid then [p] else [])"
  by (simp add: payload_on_def dgram_decode_encode)

lemma payloads_on_datagrams:
  assumes "\<And>s f p. (s, f, p) \<in> set out \<Longrightarrow> varint_range f \<and> (f = fid \<longrightarrow> s = src)"
  shows "subseq (payloads_on fid (datagrams out)) (out_from src out)"
  using assms
proof (induction out)
  case (Cons x out)
  obtain s f p where x: "x = (s, f, p)" by (cases x)
  have "varint_range f" "f = fid \<Longrightarrow> s = src" using Cons.prems [of s f p] x by auto
  moreover have "subseq (payloads_on fid (datagrams out)) (out_from src out)" using Cons.prems by (intro Cons.IH) auto
  ultimately show ?case by (auto simp: x payload_on_encode)
qed simp

text \<open>What a session has put into the tunnel, flow by flow.\<close>

lemma session_flows:
  assumes "logs q sent" and "fresh_streams q nxt" and "session_loop k q lsock d is (tunnel_new c t) = Some (Session_Continue, tun)"
    and "\<And>i. i \<in> set is \<Longrightarrow> distinct (in_order i)" and "sent c = []"
  shows "\<exists>source. (\<forall>fid src. t_flows tun fid = Some src \<longrightarrow> source fid = src)
     \<and> (\<forall>fid. subseq (payloads_on fid (sent (t_conn tun))) (offered_by (source fid) (concat (map local_pkts is))))"
proof -
  have new: "tunnel_inv nxt (tunnel_new c t)" by (rule tunnel_init_inv) (auto simp: tunnel_init_def)
  note sim = session_loop_simulated [OF assms(1-3) new assms(4)]
  from sim assms(5) obtain ops out n
    where o: "offers ops = concat (map local_pkts is)" "numbered 0 n (map snd (requests ops))"
      "flow_run ops Map.empty = (phases_of (t_by_addr tun), out)" "sent (t_conn tun) = datagrams out"
    by (auto simp: simulated_def tunnel_new_def phases_of_def next_flow_def)
  let ?source = "source_of (requests ops)"
  note src = source_of_eq [OF numbered_distinct [OF o(2)]] and own = flow_run_owned [OF o(3)]
  have "?source fid = src" if f: "t_flows tun fid = Some src" for fid src
  proof -
    obtain st where "t_by_addr tun src = Some st" "fs_flow_id st = Some fid"
      using sim f by (auto simp: tunnel_inv_def dest: flows_invD(1))
    then have "(src, fid) \<in> owned (phases_of (t_by_addr tun))" by (auto simp: owned_def phases_of_app phase_of_def)
    with own src show ?thesis by auto
  qed
  moreover have "subseq (payloads_on fid (sent (t_conn tun))) (offered_by (?source fid) (concat (map local_pkts is)))" for fid
  proof -
    have "varint_range f \<and> (f = fid \<longrightarrow> s = ?source fid)" if "(s, f, p) \<in> set out" for s f p
      using own that src o(2) by (fastforce simp: numbered_def)
    then have "subseq (payloads_on fid (datagrams out)) (out_from (?source fid) out)" by (rule payloads_on_datagrams)
    moreover have "subseq (out_from (?source fid) out) (offered_by (?source fid) (offers ops))"
      using subseq_order.trans [OF prefix_imp_subseq [OF prefixI [OF refl]] flow_run_fifo [OF o(3), of "?source fid"]] by simp
    ultimately show ?thesis using o(1,4) subseq_order.trans by simp
  qed
  ultimately show ?thesis by blast
qed

section \<open>Answers on their way\<close>

text \<open>Replies to a source, and answers of a flow.\<close>

definition replies_to :: "socket_addr \<Rightarrow> (socket_addr \<times> bytes) list \<Rightarrow> bytes list" where
  "replies_to src out = map snd (filter (\<lambda>(s, _). s = src) out)"

definition answers_on :: "scid \<Rightarrow> u64 \<Rightarrow> to_client list \<Rightarrow> bytes list" where
  "answers_on cid fid tcs = map tc_payload (filter (\<lambda>tc. tc_conn_id tc = cid \<and> tc_flow_id tc = fid) tcs)"

lemma replies_to_append [simp]: "replies_to src (xs @ ys) = replies_to src xs @ replies_to src ys"
  by (simp add: replies_to_def)

lemma replies_to_subseq: "subseq xs ys \<Longrightarrow> subseq (replies_to src xs) (replies_to src ys)"
  by (induction rule: list_emb.induct) (auto simp: replies_to_def)

lemma replies_to_reply:
  assumes "flows fid = Some src" "\<And>f. flows f = Some src \<Longrightarrow> f = fid"
  shows "replies_to src (concat (map (reply flows) ds)) = payloads_on fid ds"
proof (induction ds)
  case (Cons d ds)
  have "replies_to src (reply flows d) = payload_on fid d"
  proof (cases "dgram_decode d")
    case (Some p)
    with assms(1) assms(2) [of "p_flow_id p"] show ?thesis
      by (cases "flows (p_flow_id p)"; cases "p_context_id p = CONTEXT_ID_UDP") (auto simp: replies_to_def reply_def payload_on_def)
  qed (simp add: replies_to_def reply_def payload_on_def)
  with Cons show ?case by simp
qed (simp add: replies_to_def)

lemma reply_known: "fst ` set (reply flows d) \<subseteq> ran flows"
proof (cases "dgram_decode d")
  case (Some p)
  then show ?thesis by (cases "flows (p_flow_id p)"; cases "p_context_id p = CONTEXT_ID_UDP") (auto simp: reply_def intro: ranI)
qed (simp add: reply_def)

lemma payloads_on_answers:
  "(\<And>tc. tc \<in> set tcs \<Longrightarrow> varint_range (tc_flow_id tc)) \<Longrightarrow> payloads_on fid (answers_for cid tcs) = answers_on cid fid tcs"
  by (induction tcs) (auto simp: answers_for_def answers_on_def payload_on_encode)

section \<open>A sample run of the server\<close>

text \<open>The connection of \<open>sample_server\<close> asks for flow 0 and then carries one datagram.\<close>

lemma sample_session:
  "\<exists>c t fl. serve_session sample_kernel (scripted sample_start) (\<lambda>_. True) \<lparr>rules = [dns_rule]\<rparr> (SocketV4 9 9) sample_scid
       (sample_start, 0, Map.empty, \<lparr>w_trace = [], w_tasks = []\<rparr>) = Some (c, 0, [0 \<mapsto> fl], t)
     \<and> sc_taken c = [dgram_encode 0 [3]] \<and> sc_packets c = [] \<and> to_target fl = 0 \<and> tk_inbox (w_tasks t ! 0) = [[3]] \<and> \<not> tk_done (w_tasks t ! 0)"
proof -
  let ?q = "scripted sample_start"
  let ?tbl = "\<lparr>rules = [dns_rule]\<rparr>"
  let ?w = "\<lparr>w_trace = [], w_tasks = []\<rparr>"
  let ?c = "sample_start\<lparr>sc_events := [], sc_responses := [(0, accept_headers, False)]\<rparr>"
  obtain c1 h1 flows1 w1 where r: "handle_connect_request sample_kernel ?q ?tbl (SocketV4 9 9) sample_scid 0 (connect_headers ''a.b:443'' ''/p'')
      (sample_start\<lparr>sc_events := []\<rparr>, 0, Map.empty, ?w) = (c1, h1, flows1, w1)" by (metis prod_cases4)
  have none: "refusal sample_kernel ?tbl (SocketV4 9 9) (connect_headers ''a.b:443'' ''/p'') (w_trace ?w) = None"
    using dns_request_accepted by simp
  have resp: "h3_send_response ?q 0 (sample_start\<lparr>sc_events := []\<rparr>) 0 accept_headers False = (Inr (), 0, ?c)"
    by (simp add: scripted_for_def sample_start_def idle_script_def)
  obtain task now idle where a: "w_tasks w1 = [task]" "tk_inbox task = []" "\<not> tk_done task" "h1 = 0" "c1 = ?c"
    and fl: "flows1 = [0 \<mapsto> \<lparr>to_target = 0, last_activity = now, idle_timeout = idle\<rparr>]"
    using handle_connect_accepted [OF none r] resp by auto
  have p: "poll_loop sample_kernel ?q ?tbl (SocketV4 9 9) sample_scid (sample_start, 0, Map.empty, ?w) = Some (?c, 0, flows1, w1)"
    using r a by (subst poll_loop.simps, simp add: scripted_for_def sample_start_def)
      (subst poll_loop.simps, simp add: scripted_for_def)
  have [simp]: "dgram_decode (dgram_encode 0 [3]) = Some \<lparr>p_flow_id = 0, p_context_id = CONTEXT_ID_UDP, p_payload = [3]\<rparr>"
    "length (dgram_encode 0 [3]) \<le> MAX_DATAGRAM_SIZE"
    by code_simp+
  show ?thesis
    using a(1-3) fl
    by (simp add: serve_session_def p drain_client_datagrams_def instant_now_def Let_def)
      (subst drain_loop.simps, simp add: scripted_for_def sample_start_def idle_script_def deliver_datagram_def try_send_def,
       subst drain_loop.simps, simp add: scripted_for_def, rule exI, rule conjI, rule refl, simp)
qed

lemma sample_fed:
  "\<exists>s client fl. sys_step sample_kernel (scripted sample_start) (\<lambda>_. True) sample_load sample_server s
     \<and> s_clients s sample_scid = Some client \<and> c_flows client 0 = Some fl \<and> sc_taken (c_conn client) = [dgram_encode 0 [3]]
     \<and> tk_inbox (w_tasks (s_world s) ! to_target fl) = [[3]] \<and> \<not> tk_done (w_tasks (s_world s) ! to_target fl) \<and> s_to_client s = []"
proof -
  let ?q = "scripted sample_start"
  obtain c w fl where ss: "serve_session sample_kernel ?q (\<lambda>_. True) \<lparr>rules = [dns_rule]\<rparr> (SocketV4 9 9) sample_scid
       (sample_start, 0, Map.empty, \<lparr>w_trace = [], w_tasks = []\<rparr>) = Some (c, 0, [0 \<mapsto> fl], w)"
    and c: "sc_taken c = [dgram_encode 0 [3]]" "sc_packets c = []" "to_target fl = 0" "tk_inbox (w_tasks w ! 0) = [[3]]"
      "\<not> tk_done (w_tasks w ! 0)"
    using sample_session by blast
  let ?client = "\<lparr>c_conn = c, c_http3 = Some 0, c_flows = [0 \<mapsto> fl], c_peer = SocketV4 9 9\<rparr>"
  let ?s1 = "sample_accepted\<lparr>s_clients := [sample_scid \<mapsto> ?client], s_world := w\<rparr>"
  have q: "q_header_from_slice ?q [1] n = Inr \<lparr>hdr_ty = Initial, hdr_version = 1, hdr_dcid = [1], hdr_scid = []\<rparr>"
    "q_version_is_supported ?q 1" "q_accept ?q scid la addr cfg = Inr sample_start" "q_recv ?q c0 pkt la addr = (Inr (length pkt), c0)"
    "q_is_established ?q = sc_up" "h3_with_transport ?q c0 = (Inr 0, c0)" "sc_up sample_start" for n scid la addr cfg pkt c0
    by (simp_all add: scripted_def sample_start_def idle_script_def)
  have "accept ?q sample_scid [1] (SocketV4 9 9) sample_server = (Inr sample_scid, sample_accepted)"
    by (simp add: accept_def q sample_accepted_def sample_server_def server_new_def)
  moreover have "route_packet sample_server [1] = None" by (simp add: route_packet_def sample_server_def server_new_def)
  moreover have "deliver_packet sample_kernel ?q (\<lambda>_. True) sample_scid [1] (SocketV4 9 9) sample_accepted = Some ?s1"
    using ss by (simp add: deliver_packet_def process_client_def q sample_accepted_def sample_server_def server_new_def)
  ultimately have s1: "select_arm sample_kernel ?q (\<lambda>_. True) sample_arm sample_server = Some ?s1"
    by (simp add: sample_arm_def on_packet_def q)
  have "flush_connection sample_kernel ?q fd c t = Some (Inr (), c, t)" for fd t
    by (rule flush_connection_idle) (simp add: scripted_for_def c(2))
  then have "flush_all sample_kernel ?q [sample_scid] ?s1 = Some ?s1" by (simp add: set_trace_def)
  moreover have up: "\<not> closed_client ?q s2 cid" for s2 cid
    by (simp add: closed_client_def scripted_def sample_start_def idle_script_def split: option.split)
  have "reap_closed ?q s2 = s2" for s2
  proof -
    have "(\<lambda>dcid. case s_routes s2 dcid of None \<Rightarrow> None | Some scid \<Rightarrow> if closed_client ?q s2 scid then None else Some scid) = s_routes s2"
      by (rule ext) (simp add: up split: option.split)
    then show ?thesis by (simp add: reap_closed_def up)
  qed
  ultimately have run: "run_iteration sample_kernel ?q (\<lambda>_. True) [sample_scid] sample_arm sample_server = Some ?s1"
    by (simp add: run_iteration_def s1 del: select_arm.simps flush_all.simps)
  have "enumerates [sample_scid] ?s1" by (simp add: enumerates_def)
  from sys_step.iteration [OF sample_enumerates sample_ready s1 this run]
  have "sys_step sample_kernel ?q (\<lambda>_. True) sample_load sample_server ?s1" .
  moreover have "s_to_client ?s1 = []" by (simp add: sample_accepted_def sample_server_def server_new_def)
  ultimately show ?thesis using c by (intro exI [of _ ?s1] exI [of _ ?client] exI [of _ fl]) simp
qed

section \<open>Properties\<close>

text \<open>C2. Uplink, end to end: over a whole client session and any run of the server, every flow identifier names one
  local source, the one that gets the flow's answers; and what waits at the relay of a flow, on its way to the
  target of a loaded rule, is made of datagrams this source sent, none twice, and in their order if the network
  kept it.\<close>

theorem uplink_end_to_end:
  assumes "logs q sent" and "fresh_streams q nxt" and "session_loop k q lsock d is (tunnel_new c t) = Some (Session_Continue, tun)"
    and "\<And>i. i \<in> set is \<Longrightarrow> distinct (in_order i)" and "sent c = []"
    and "server_init L s0" and "(sys_step k' q' room L)\<^sup>*\<^sup>* s0 s" and "takes q' got" and "s_clients s cid = Some client"
    and "mset (got (c_conn client)) \<subseteq># mset (sent (t_conn tun))"
  shows "\<exists>source. (\<forall>fid src. t_flows tun fid = Some src \<longrightarrow> source fid = src)
     \<and> (\<forall>fid fl. c_flows client fid = Some fl \<longrightarrow>
          (let relay = w_tasks (s_world s) ! to_target fl; offered = offered_by (source fid) (concat (map local_pkts is)) in
             (\<exists>r \<in> loaded_rules L. sa_peer (tk_attrs relay) = Some (r_target r))
             \<and> mset (tk_inbox relay) \<subseteq># mset offered
             \<and> (subseq (got (c_conn client)) (sent (t_conn tun)) \<longrightarrow> subseq (tk_inbox relay) offered)))"
proof -
  obtain source where src: "\<And>fid src. t_flows tun fid = Some src \<Longrightarrow> source fid = src"
    and out: "\<And>fid. subseq (payloads_on fid (sent (t_conn tun))) (offered_by (source fid) (concat (map local_pkts is)))"
    using session_flows [OF assms(1-5)] by blast
  have inv: "server_inv (loaded_rules L) s" using assms(6,7) by (rule reach_server_inv)
  have "let relay = w_tasks (s_world s) ! to_target fl; offered = offered_by (source fid) (concat (map local_pkts is)) in
      (\<exists>r \<in> loaded_rules L. sa_peer (tk_attrs relay) = Some (r_target r)) \<and> mset (tk_inbox relay) \<subseteq># mset offered
      \<and> (subseq (got (c_conn client)) (sent (t_conn tun)) \<longrightarrow> subseq (tk_inbox relay) offered)"
    if fl: "c_flows client fid = Some fl" for fid fl
  proof -
    let ?relay = "w_tasks (s_world s) ! to_target fl" and ?offered = "offered_by (source fid) (concat (map local_pkts is))"
    have "?relay \<in> set (w_tasks (s_world s))"
      using server_inv_client(1) [OF inv assms(9)] fl by (auto simp: client_ok_def flows_paired_def flow_paired_def)
    then have "\<exists>r \<in> loaded_rules L. sa_peer (tk_attrs ?relay) = Some (r_target r)"
      using inv by (auto simp: server_inv_def relays_pinned_def pinned_def rule_decision_def)
    moreover have fed: "subseq (tk_inbox ?relay) (payloads_on fid (got (c_conn client)))" using assms(6-9) fl by (rule reach_fed)
    have "mset (tk_inbox ?relay) \<subseteq># mset ?offered"
      using subset_mset.order_trans [OF subseq_mset [OF fed] payloads_on_mset [OF assms(10)]] subseq_mset [OF out]
      by (rule subset_mset.order_trans)
    moreover have "subseq (tk_inbox ?relay) ?offered" if "subseq (got (c_conn client)) (sent (t_conn tun))"
      using subseq_order.trans [OF fed payloads_on_subseq [OF that]] out by (rule subseq_order.trans)
    ultimately show ?thesis by (simp add: Let_def)
  qed
  with src show ?thesis by blast
qed

theorem uplink_end_to_end_witness:
  "\<exists>tun s client fl (source :: u64 \<Rightarrow> socket_addr). session_loop calm_kernel (scripted_for tunnel_script :: (script, nat, unit) quiche) 3 sample_dialed [sample_input]
         (tunnel_new tunnel_script []) = Some (Session_Continue, tun)
     \<and> (sys_step sample_kernel (scripted sample_start) (\<lambda>_. True) sample_load)\<^sup>*\<^sup>* sample_server s
     \<and> s_clients s sample_scid = Some client \<and> c_flows client 0 = Some fl \<and> tk_inbox (w_tasks (s_world s) ! to_target fl) = [[3]]
     \<and> source 0 = local_source
     \<and> mset (tk_inbox (w_tasks (s_world s) ! to_target fl)) \<subseteq># mset (offered_by (source 0) (local_pkts sample_input))"
proof -
  let ?q = "scripted_for tunnel_script :: (script, nat, unit) quiche"
  obtain t where it: "session_iteration calm_kernel ?q 3 sample_dialed sample_input (tunnel_new tunnel_script [])
      = Some (Session_Continue, \<lparr>t_conn = tunnel_script\<lparr>sc_events := [], sc_dgrams := [], sc_taken := [dgram_encode 0 [7]],
           sc_sent_dgrams := [dgram_encode 0 [1, 2], dgram_encode 0 [3]]\<rparr>, t_http3 = Some 1, t_established = True,
         t_by_addr = [local_source \<mapsto> \<lparr>fs_flow_id = Some 0, fs_established = True, fs_pending = []\<rparr>],
         t_flows = [0 \<mapsto> local_source], t_trace = t\<rparr>)" (is "_ = Some (_, ?tun)")
    using sample_iteration by blast
  then have sl: "session_loop calm_kernel ?q 3 sample_dialed [sample_input] (tunnel_new tunnel_script []) = Some (Session_Continue, ?tun)"
    by simp
  have d: "\<And>i. i \<in> set [sample_input] \<Longrightarrow> distinct (in_order i)" by (simp add: sample_input_def)
  have e: "sc_sent_dgrams tunnel_script = []" by (simp add: tunnel_script_def idle_script_def)
  obtain s client fl where s: "sys_step sample_kernel (scripted sample_start) (\<lambda>_. True) sample_load sample_server s"
    and cl: "s_clients s sample_scid = Some client" "c_flows client 0 = Some fl" "sc_taken (c_conn client) = [dgram_encode 0 [3]]"
      "tk_inbox (w_tasks (s_world s) ! to_target fl) = [[3]]"
    using sample_fed by blast
  have reach: "(sys_step sample_kernel (scripted sample_start) (\<lambda>_. True) sample_load)\<^sup>*\<^sup>* sample_server s" using s by (rule r_into_rtranclp)
  have "mset (sc_taken (c_conn client)) \<subseteq># mset (sc_sent_dgrams (t_conn ?tun))" by (simp add: cl(3))
  from uplink_end_to_end [OF logs_scripted fresh_streams_scripted sl d e sample_init reach takes_scripted cl(1) this]
  obtain source where src: "\<forall>fid src. t_flows ?tun fid = Some src \<longrightarrow> source fid = src"
    and up: "\<forall>fid fl. c_flows client fid = Some fl \<longrightarrow>
      mset (tk_inbox (w_tasks (s_world s) ! to_target fl)) \<subseteq># mset (offered_by (source fid) (concat (map local_pkts [sample_input])))"
    by (auto simp: Let_def)
  have zero: "source 0 = local_source" using src by simp
  have "mset (tk_inbox (w_tasks (s_world s) ! to_target fl)) \<subseteq># mset (offered_by (source 0) (local_pkts sample_input))"
    using up [rule_format, OF cl(2)] by simp
  with sl reach cl(1,2,4) zero show ?thesis by blast
qed

text \<open>C9. Downlink, end to end: when the datagrams a client takes from its connection are among those the server framed
  from the answers queued for that connection, the client sends nothing but those answers, by its local socket, to
  sources it knows; and what a source gets is what the targets answered on its own flow, none twice.\<close>

theorem downlink_end_to_end:
  assumes "server_init L s0" and "(sys_step k' q' room L)\<^sup>*\<^sup>* s0 s"
    and "fresh_streams q nxt" and "(session_step k q lsock d)\<^sup>*\<^sup>* (tunnel_new c0 t0) tun"
    and "route_tunnel_datagrams k q lsock (t_flows tun) c t = Some (c', t')"
    and "\<And>ds c1. receives q c ds c1 \<Longrightarrow> mset ds \<subseteq># mset (answers_for cid (s_to_client s))"
  shows "\<exists>out. wire t' = wire t @ map (\<lambda>(src, p). (lsock, Some src, p)) out \<and> fst ` set out \<subseteq> ran (t_flows tun)
     \<and> (\<forall>fid src. t_flows tun fid = Some src \<longrightarrow> mset (replies_to src out) \<subseteq># mset (answers_on cid fid (s_to_client s)))"
proof -
  obtain ds c1 out where r: "receives q c ds c1" and o: "subseq out (concat (map (reply (t_flows tun)) ds))"
    and w: "wire t' = wire t @ map (\<lambda>(src, p). (lsock, Some src, p)) out"
    using route_tunnel_datagrams_wire [OF assms(5)] by auto
  have "tunnel_init (tunnel_new c0 t0)" by (auto simp: tunnel_init_def)
  from cli.reach_inv [OF this assms(4), of nxt] assms(3) have inv: "tunnel_inv nxt tun" by simp
  have "varint_range (tc_flow_id tc)" if "tc \<in> set (s_to_client s)" for tc
    using that reach_server_inv [OF assms(1,2)] by (force simp: server_inv_def relays_pinned_def)
  then have ans: "payloads_on fid (answers_for cid (s_to_client s)) = answers_on cid fid (s_to_client s)" for fid
    by (rule payloads_on_answers)
  have "mset (replies_to src out) \<subseteq># mset (answers_on cid fid (s_to_client s))" if f: "t_flows tun fid = Some src" for fid src
  proof -
    have "f' = fid" if "t_flows tun f' = Some src" for f'
      using flows_invD(1) [OF inv [unfolded tunnel_inv_def] f] flows_invD(1) [OF inv [unfolded tunnel_inv_def] that] by auto
    from replies_to_reply [of "t_flows tun" fid src, OF f this] have "mset (replies_to src out) \<subseteq># mset (payloads_on fid ds)"
      using subseq_mset [OF replies_to_subseq [OF o, of src]] by simp
    with payloads_on_mset [OF assms(6) [OF r], of fid] ans show ?thesis by (metis subset_mset.order_trans)
  qed
  moreover have "fst ` set out \<subseteq> ran (t_flows tun)"
  proof -
    have "set out \<subseteq> set (concat (map (reply (t_flows tun)) ds))" using o by (auto dest: list_emb_set)
    moreover have "fst ` set (reply (t_flows tun) d) \<subseteq> ran (t_flows tun)" for d
      by (rule reply_known)
    ultimately show ?thesis by fastforce
  qed
  ultimately show ?thesis using w by blast
qed

lemma sample_answered:
  "\<exists>s. (sys_step sample_kernel (scripted sample_start) (\<lambda>_. True) sample_load)\<^sup>*\<^sup>* sample_server s
     \<and> s_to_client s = [\<lparr>tc_conn_id = sample_scid, tc_flow_id = 0, tc_payload = [9]\<rparr>]"
proof -
  let ?q = "scripted sample_start" and ?offer = "(\<lambda>_. (True, False)) :: offer"
  obtain s client fl where s: "sys_step sample_kernel ?q (\<lambda>_. True) sample_load sample_server s"
    and cl: "s_clients s sample_scid = Some client" "c_flows client 0 = Some fl" "\<not> tk_done (w_tasks (s_world s) ! to_target fl)" "s_to_client s = []"
    using sample_fed by blast
  have reach: "(sys_step sample_kernel ?q (\<lambda>_. True) sample_load)\<^sup>*\<^sup>* sample_server s" using s by (rule r_into_rtranclp)
  let ?task = "w_tasks (s_world s) ! to_target fl"
  have pr: "to_target fl < length (w_tasks (s_world s))" "tk_conn_id ?task = sample_scid" "tk_flow_id ?task = 0"
    using server_inv_client(1) [OF reach_server_inv [OF sample_init reach] cl(1)] cl(2) by (auto simp: client_ok_def flows_paired_def flow_paired_def)
  have "\<exists>t. target_task_step sample_kernel fd sample_scid 0 ?offer Target_Readable t0
      = Some (Task_Continue, [\<lparr>tc_conn_id = sample_scid, tc_flow_id = 0, tc_payload = [9]\<rparr>], t)" for fd t0
    by (simp add: target_task_step_def sys_eq sample_kernel_def calm_kernel_def RECV_BATCH_def eval_nat_numeral recv_udp_connected_eq)
  then obtain t where t: "target_task_step sample_kernel (tk_fd ?task) sample_scid 0 ?offer Target_Readable (w_trace (s_world s))
      = Some (Task_Continue, [\<lparr>tc_conn_id = sample_scid, tc_flow_id = 0, tc_payload = [9]\<rparr>], t)" by blast
  then obtain s' where s': "relay_step sample_kernel ?offer (to_target fl) Target_Readable s = Some s'"
    "s_to_client s' = [\<lparr>tc_conn_id = sample_scid, tc_flow_id = 0, tc_payload = [9]\<rparr>]"
    using pr cl(4) by (simp add: relay_step_def Let_def)
  from sys_step.relay_answers [OF pr(1) cl(3) s'(1)] reach s'(2) show ?thesis by (blast intro: rtranclp.rtrancl_into_rtrancl)
qed

theorem downlink_end_to_end_witness:
  "\<exists>s t' out. (sys_step sample_kernel (scripted sample_start) (\<lambda>_. True) sample_load)\<^sup>*\<^sup>* sample_server s
     \<and> answers_on sample_scid 0 (s_to_client s) = [[9]] \<and> wire t' = map (\<lambda>(src, p). (3, Some src, p)) out
     \<and> (\<exists>c'. route_tunnel_datagrams calm_kernel (scripted_for tunnel_script :: (script, nat, unit) quiche) 3 [0 \<mapsto> local_source]
         (idle_script\<lparr>sc_dgrams := [dgram_encode 0 [9]]\<rparr>) [] = Some (c', t'))
     \<and> mset (replies_to local_source out) \<subseteq># mset (answers_on sample_scid 0 (s_to_client s))"
proof -
  let ?q = "scripted_for tunnel_script :: (script, nat, unit) quiche"
  let ?c = "idle_script\<lparr>sc_dgrams := [dgram_encode 0 [9]]\<rparr>"
  obtain s where reach: "(sys_step sample_kernel (scripted sample_start) (\<lambda>_. True) sample_load)\<^sup>*\<^sup>* sample_server s"
    and tcs: "s_to_client s = [\<lparr>tc_conn_id = sample_scid, tc_flow_id = 0, tc_payload = [9]\<rparr>]"
    using sample_answered by blast
  obtain tun where f: "t_flows tun = [0 \<mapsto> local_source]"
    and r: "(session_step calm_kernel ?q 3 sample_dialed)\<^sup>*\<^sup>* (tunnel_new tunnel_script []) tun"
    using sample_reach by blast
  obtain c' t' where rt: "route_tunnel_datagrams calm_kernel ?q 3 (t_flows tun) ?c [] = Some (c', t')"
    using route_tunnel_datagrams_total [OF client_drains_scripted unblocks_calm] by blast
  have ans: "answers_for sample_scid (s_to_client s) = [dgram_encode 0 [9]]" "answers_on sample_scid 0 (s_to_client s) = [[9]]"
    by (simp_all add: tcs answers_for_def answers_on_def)
  have net: "mset ds \<subseteq># mset (answers_for sample_scid (s_to_client s))" if "receives ?q ?c ds c1" for ds c1
  proof (cases ds)
    case (Cons d rest)
    with that have "d = dgram_encode 0 [9]" "rest = []"
      by (cases rest; auto simp: scripted_for_def idle_script_def split: if_splits)+
    with Cons ans show ?thesis by simp
  qed simp
  have "\<exists>out. wire t' = wire [] @ map (\<lambda>(src, p). (3, Some src, p)) out \<and> fst ` set out \<subseteq> ran (t_flows tun)
      \<and> (\<forall>fid src. t_flows tun fid = Some src \<longrightarrow> mset (replies_to src out) \<subseteq># mset (answers_on sample_scid fid (s_to_client s)))"
    by (rule downlink_end_to_end [OF sample_init reach fresh_streams_scripted r rt]) (rule net)
  then obtain out where "wire t' = map (\<lambda>(src, p). (3, Some src, p)) out"
    "mset (replies_to local_source out) \<subseteq># mset (answers_on sample_scid 0 (s_to_client s))" using f by auto
  with reach rt f ans(2) show ?thesis by metis
qed

end
