(* ===== verification/Reload.thy ===== *)
theory Reload
  imports Server_System Quic_Config
begin

text \<open>
  Hot reload (\<^verbatim>\<open>src/src/reload.rs\<close>, the Linux build): what the server is configured from, rebuilding it, and the
  task that swaps it in when a SIGHUP arrives.  The files, the resolver, BoringSSL and the JSON parser are the
  record \<open>env\<close>, which may differ from one reload to the next.
\<close>

section \<open>Rebuilding\<close>

record env =
  e_fs :: file_system
  e_b64_dec :: "string \<Rightarrow> bytes option"
  e_read_to_string :: "string \<Rightarrow> string option"
  e_from_json :: "string \<Rightarrow> raw_rule list option"
  e_to_socket_addrs :: "string \<Rightarrow> socket_addr list option"
  e_ssl :: boring
  e_qc :: "quic_param list \<Rightarrow> quic_param \<Rightarrow> bool"

record reload_paths =
  rp_cert :: path
  rp_key :: path
  rp_ech_key :: "fs_path option"
  rp_rules :: string

datatype reload_error =
    Reload_Ech key_error
  | Reload_Rules load_error
  | Reload_Config config_error

definition load_ech :: "env \<Rightarrow> fs_path option \<Rightarrow> reload_error + ech_key_set option" where
  "load_ech env p =
     (case p of
        None \<Rightarrow> Inr None
      | Some path \<Rightarrow> map_err Reload_Ech (and_then (ech_key_set_load (e_fs env) (e_b64_dec env) path) (\<lambda>ks. Inr (Some ks))))"

definition load_rules_file :: "env \<Rightarrow> string \<Rightarrow> reload_error + rule_table" where
  "load_rules_file env p =
     map_err Reload_Rules (rule_table_load (e_read_to_string env) (e_from_json env) (e_to_socket_addrs env) p)"

definition server_config_for :: "env \<Rightarrow> reload_paths \<Rightarrow> ech_key_set option \<Rightarrow> rule_table \<Rightarrow> (reload_error + quic_config) option" where
  "server_config_for env paths ech tbl =
     map_option (map_err Reload_Config)
       (build_server_config (e_ssl env) (e_qc env) (rp_cert paths) (rp_key paths) ech (allowed_sni_hosts tbl))"

definition rebuild :: "env \<Rightarrow> reload_paths \<Rightarrow> (reload_error + quic_config \<times> rule_table) option" where
  "rebuild env paths =
     (case load_ech env (rp_ech_key paths) of
        Inl e \<Rightarrow> Some (Inl e)
      | Inr ech \<Rightarrow>
          (case load_rules_file env (rp_rules paths) of
             Inl e \<Rightarrow> Some (Inl e)
           | Inr tbl \<Rightarrow> map_option (\<lambda>r. and_then r (\<lambda>cfg. Inr (cfg, tbl))) (server_config_for env paths ech tbl)))"

section \<open>The reload task\<close>

text \<open>\<^verbatim>\<open>SighupBlocked::new\<close>: the signal is blocked; nobody looks at the result.\<close>

definition sighup_blocked_new :: "kernel \<Rightarrow> trace \<Rightarrow> trace" where
  "sighup_blocked_new k t = snd (sys k Block_Sighup t)"

text \<open>\<^verbatim>\<open>spawn_reload\<close>: a descriptor for the signal, adopted by the runtime; dropped when that fails.\<close>

definition spawn_reload :: "kernel \<Rightarrow> trace \<Rightarrow> (io_error + fd) \<times> trace" where
  "spawn_reload k t =
     (case sys k Signalfd t of
        (Inl e, t) \<Rightarrow> (Inl (last_os_error e), t)
      | (Inr sfd, t) \<Rightarrow>
          (case sys k (From_Std sfd) t of
             (Inl e, t) \<Rightarrow> (Inl (last_os_error e), snd (sys k (Close sfd) t))
           | (Inr _, t) \<Rightarrow> (Inr sfd, t)))"

text \<open>One round of \<^verbatim>\<open>reload_task\<close>: what reading the descriptor gave, then the rebuild.  A failed read, whatever the
  error, goes back to reading.\<close>

definition reload_task_step :: "env \<Rightarrow> reload_paths \<Rightarrow> io_error + unit \<Rightarrow> ('c, 'h, quic_config) server \<Rightarrow>
    ('c, 'h, quic_config) server option" where
  "reload_task_step env paths res s =
     (case res of
        Inl e \<Rightarrow> Some s
      | Inr _ \<Rightarrow> do {
          r \<leftarrow> rebuild env paths;
          (case r of
             Inr (config, tbl) \<Rightarrow> Some (install_reload config tbl s)
           | Inl e \<Rightarrow> Some s)
        })"

section \<open>Properties of a rebuilt configuration\<close>

text \<open>The guard of a configuration agrees with a rule table: it admits exactly the hosts of its rules.\<close>

definition guards :: "quic_config \<Rightarrow> rule_table \<Rightarrow> bool" where
  "guards cfg tbl \<longleftrightarrow> (\<forall>sni. sni_admitted cfg sni \<longleftrightarrow>
     (\<exists>name r. sni = Some name \<and> r \<in> set (rules tbl)
        \<and> eq_ignore_ascii_case (host_of_authority (ep_authority (r_endpoint r))) name))"

lemma sni_guard_allowed:
  "sni_guard (allowed_sni_hosts tbl) sni \<longleftrightarrow>
     (\<exists>name r. sni = Some name \<and> r \<in> set (rules tbl)
        \<and> eq_ignore_ascii_case (host_of_authority (ep_authority (r_endpoint r))) name)"
  by (auto simp: sni_guard_def list_ex_iff allowed_sni_hosts_def set_collect_hosts eq_ignore_ascii_case_def split: option.split)

lemma server_config_guards:
  "build_server_config ssl qc cert key ech (allowed_sni_hosts tbl) = Some (Inr cfg) \<Longrightarrow> guards cfg tbl"
  using server_config_spec(1) [of ssl qc cert key ech "allowed_sni_hosts tbl" cfg]
  by (simp add: guards_def sni_admitted_def sni_guard_allowed)

text \<open>Configurations of loaded keys never abort the serialiser, so building with them returns.\<close>

lemma add_ech_keys_total:
  "\<forall>pair \<in> set pairs. \<exists>b. ech_config_encode (kp_config pair) = Some b \<Longrightarrow> \<exists>r. add_ech_keys ssl pairs b = Some r"
  by (induction pairs arbitrary: b) (auto simp: Let_def)

lemma build_server_config_total:
  assumes "\<And>ks pair. ech = Some ks \<Longrightarrow> pair \<in> set (key_pairs ks) \<Longrightarrow> \<exists>b. ech_config_encode (kp_config pair) = Some b"
  shows "\<exists>r. build_server_config ssl qc cert key ech hosts = Some r"
proof -
  have "\<exists>r. install_ech_keys ssl ks b = Some r" if "ech = Some ks" for ks b
    using add_ech_keys_total [of "key_pairs ks"] assms [OF that]
    by (auto simp: install_ech_keys_def split: sum.split)
  then have inst: "\<exists>r. (case ech of None \<Rightarrow> Some (Inr b) | Some ks \<Rightarrow> install_ech_keys ssl ks b) = Some r" for b
    by (cases ech) auto
  have "\<exists>r. (case pre of Inl e \<Rightarrow> Some (Inl e) | Inr b \<Rightarrow> do {
      r \<leftarrow> (case ech of None \<Rightarrow> Some (Inr b) | Some ks \<Rightarrow> install_ech_keys ssl ks b); Some (f r)}) = Some r" for pre f
  proof (cases pre)
    case (Inr b)
    with inst [of b] show ?thesis by (elim exE) simp
  qed simp
  then show ?thesis unfolding build_server_config_def .
qed

lemma load_ech_encodes:
  "load_ech env p = Inr (Some ks) \<Longrightarrow> pair \<in> set (key_pairs ks) \<Longrightarrow> \<exists>b. ech_config_encode (kp_config pair) = Some b"
  using ech_key_set_wf by (fastforce simp: load_ech_def result_iffs split: option.splits)

lemma rebuild_Inr:
  assumes "rebuild env paths = Some (Inr (cfg, tbl))"
  shows "load_rules_file env (rp_rules paths) = Inr tbl" "guards cfg tbl"
  using assms server_config_guards
  by (auto simp: rebuild_def server_config_for_def result_iffs split: sum.splits)

lemma rebuild_returns: "\<exists>r. rebuild env paths = Some r"
proof -
  have "\<exists>r. server_config_for env paths ech tbl = Some r" if l: "load_ech env (rp_ech_key paths) = Inr ech" for ech tbl
  proof -
    have "\<exists>b. ech_config_encode (kp_config pair) = Some b" if "ech = Some ks" "pair \<in> set (key_pairs ks)" for ks pair
      using load_ech_encodes l that by blast
    from build_server_config_total [OF this] show ?thesis by (simp add: server_config_for_def)
  qed
  then show ?thesis by (auto simp: rebuild_def split: sum.split)
qed

text \<open>C26. A rebuild never panics, and what it returns is consistent: the rules are those of the file and the
  TLS guard admits exactly the hosts of those rules.\<close>

theorem rebuild_consistent:
  "(\<exists>r. rebuild env paths = Some r)
   \<and> (\<forall>cfg tbl. rebuild env paths = Some (Inr (cfg, tbl)) \<longrightarrow>
        load_rules_file env (rp_rules paths) = Inr tbl
        \<and> (\<forall>sni. sni_admitted cfg sni \<longleftrightarrow> (\<exists>name r. sni = Some name \<and> r \<in> set (rules tbl)
             \<and> eq_ignore_ascii_case (host_of_authority (ep_authority (r_endpoint r))) name)))"
  using rebuild_returns rebuild_Inr by (auto simp: guards_def)

text \<open>A rule file with one entry, readable certificates and a BoringSSL that accepts everything.\<close>

definition sample_env :: env where
  "sample_env = \<lparr>e_fs = single_file [] [], e_b64_dec = unhex, e_read_to_string = (\<lambda>_. Some ''[]''),
     e_from_json = (\<lambda>_. Some [\<lparr>raw_endpoint = ''https://a.b:443/p'', raw_target = ''dns'', raw_transparent = None,
       raw_fwmark = None, raw_idle_timeout = None\<rparr>]),
     e_to_socket_addrs = (\<lambda>_. Some [SocketV4 1 53]), e_ssl = (\<lambda>_ _. True), e_qc = (\<lambda>_ _. True)\<rparr>"

definition sample_paths :: reload_paths where
  "sample_paths = \<lparr>rp_cert = ''cert.pem'', rp_key = ''key.pem'', rp_ech_key = None, rp_rules = ''rules.json''\<rparr>"

lemma sample_rules_file: "load_rules_file sample_env (rp_rules sample_paths) = Inr \<lparr>rules = [dns_rule]\<rparr>"
proof -
  have "endpoint_parse ''https://a.b:443/p'' = Inr \<lparr>ep_authority = ''a.b:443'', ep_path = ''/p''\<rparr>" by code_simp
  then show ?thesis
    by (simp add: load_rules_file_def rule_table_load_def sample_env_def rule_spec_of_def load_rule_def resolve_def dns_rule_def
        default_idle_secs_def from_secs_def)
qed

lemma sample_rebuild: "\<exists>cfg. rebuild sample_env sample_paths = Some (Inr (cfg, \<lparr>rules = [dns_rule]\<rparr>))"
proof -
  have "load_ech sample_env (rp_ech_key sample_paths) = Inr None" by (simp add: load_ech_def sample_paths_def)
  with sample_rules_file show ?thesis
    by (simp add: rebuild_def server_config_for_def build_server_config_def ssl_try_def into_config_def apply_transport_params_def
        param_try_def sample_env_def)
qed

theorem rebuild_consistent_witness:
  "\<exists>cfg. rebuild sample_env sample_paths = Some (Inr (cfg, \<lparr>rules = [dns_rule]\<rparr>))
     \<and> sni_admitted cfg (Some ''A.b'') \<and> \<not> sni_admitted cfg (Some ''c.d'') \<and> \<not> sni_admitted cfg None"
proof -
  obtain cfg where cfg: "rebuild sample_env sample_paths = Some (Inr (cfg, \<lparr>rules = [dns_rule]\<rparr>))" using sample_rebuild by blast
  have "host_of_authority ''a.b:443'' = ''a.b''" by code_simp
  then have host: "host_of_authority (ep_authority (r_endpoint dns_rule)) = ''a.b''" by (simp add: dns_rule_def)
  note adm = rebuild_consistent [THEN conjunct2, THEN spec, THEN spec, THEN mp, OF cfg, THEN conjunct2, THEN spec]
  have "sni_admitted cfg sni \<longleftrightarrow> (\<exists>name. sni = Some name \<and> eq_ignore_ascii_case ''a.b'' name)" for sni
    unfolding adm by (auto simp: host)
  moreover have "eq_ignore_ascii_case ''a.b'' ''A.b''" "\<not> eq_ignore_ascii_case ''a.b'' ''c.d''" by code_simp+
  ultimately show ?thesis using cfg by auto
qed

text \<open>C25. A reload is all or nothing: afterwards the server has either the configuration and the rules it had,
  or both from the same rebuild; connections, flows, routes and queued answers are untouched; and it never panics.\<close>

theorem reload_atomic:
  "\<exists>s'. reload_task_step env paths res s = Some s'
     \<and> (s' = s \<or> (\<exists>cfg tbl. rebuild env paths = Some (Inr (cfg, tbl)) \<and> s_config s' = cfg \<and> s_rules s' = tbl))
     \<and> s_clients s' = s_clients s \<and> s_routes s' = s_routes s \<and> s_to_client s' = s_to_client s \<and> s_world s' = s_world s"
proof (cases res)
  case (Inr u)
  obtain r where r: "rebuild env paths = Some r" using rebuild_returns by blast
  show ?thesis
  proof (cases r)
    case (Inr x)
    obtain cfg tbl where "x = (cfg, tbl)" by force
    with Inr r \<open>res = Inr u\<close> show ?thesis by (simp add: reload_task_step_def install_reload_def)
  qed (use r Inr in \<open>simp add: reload_task_step_def\<close>)
qed (simp add: reload_task_step_def)

end
