(* ===== verification/Ech_Keygen.thy ===== *)
theory Ech_Keygen
  imports Ech_Key
begin

text \<open>
  Key generation, \<^verbatim>\<open>src/src/ech/keygen.rs\<close>.  The HPKE functions of BoringSSL, the random generator, Base64
  and the success of writes to the standard streams are parameters; an index out of range is \<^const>\<open>None\<close>.
\<close>

section \<open>Definitions\<close>

text \<open>The FFI: each call reports success; a key accessor gets the caller's buffer and its capacity, and
  yields the buffer it filled with the number of bytes it claims to have written.\<close>

record hpke_ffi =
  EVP_HPKE_KEY_new :: bool
  EVP_HPKE_KEY_generate :: bool
  EVP_HPKE_KEY_public_key :: "bytes \<Rightarrow> nat \<Rightarrow> (bytes \<times> nat) option"
  EVP_HPKE_KEY_private_key :: "bytes \<Rightarrow> nat \<Rightarrow> (bytes \<times> nat) option"

datatype keygen_error =
    Key_New_Failed | Key_Generate_Failed | Public_Key_Failed | Private_Key_Failed
  | Name_Length | Name_No_Dot | Name_Invalid_Character
  | Write_Failed

definition slice_to :: "'a list \<Rightarrow> nat \<Rightarrow> 'a list option" where
  "slice_to xs n = (if n \<le> length xs then Some (take n xs) else None)"

definition generate_hpke_x25519_keypair :: "hpke_ffi \<Rightarrow> (keygen_error + bytes \<times> bytes) option" where
  "generate_hpke_x25519_keypair ffi =
     (if \<not> EVP_HPKE_KEY_new ffi then Some (Inl Key_New_Failed)
      else if \<not> EVP_HPKE_KEY_generate ffi then Some (Inl Key_Generate_Failed)
      else (case EVP_HPKE_KEY_public_key ffi (replicate 32 0) 32 of
              None \<Rightarrow> Some (Inl Public_Key_Failed)
            | Some (pub_buf, pub_len) \<Rightarrow>
                (case EVP_HPKE_KEY_private_key ffi (replicate 32 0) 32 of
                   None \<Rightarrow> Some (Inl Private_Key_Failed)
                 | Some (priv_buf, priv_len) \<Rightarrow> do {
                     pk \<leftarrow> slice_to pub_buf pub_len;
                     sk \<leftarrow> slice_to priv_buf priv_len;
                     Some (Inr (pk, sk))
                   })))"

definition is_ascii_alphanumeric :: "char \<Rightarrow> bool" where
  "is_ascii_alphanumeric c \<longleftrightarrow>
     (let n = (of_char c :: nat) in 48 \<le> n \<and> n \<le> 57 \<or> 65 \<le> n \<and> n \<le> 90 \<or> 97 \<le> n \<and> n \<le> 122)"

definition validate_public_name :: "string \<Rightarrow> keygen_error + unit" where
  "validate_public_name name =
     (if name = [] \<or> 253 < length name then Inl Name_Length
      else if CHR ''.'' \<notin> set name then Inl Name_No_Dot
      else if list_ex (\<lambda>c. \<not> (is_ascii_alphanumeric c \<or> c = CHR ''.'' \<or> c = CHR ''-'')) name
      then Inl Name_Invalid_Character
      else Inr ())"

text \<open>What a run leaves on the standard streams.\<close>

record console =
  con_stdout :: string
  con_stderr :: "string list"

fun write_lines :: "(string \<Rightarrow> bool) \<Rightarrow> string list \<Rightarrow> console \<Rightarrow> (keygen_error + unit) \<times> console" where
  "write_lines err_ok [] con = (Inr (), con)"
| "write_lines err_ok (l # ls) con =
     (if err_ok l then write_lines err_ok ls (con\<lparr>con_stderr := con_stderr con @ [l]\<rparr>)
      else (Inl Write_Failed, con))"

definition ech_line :: "string \<Rightarrow> string" where
  "ech_line list_b64 = ''  ech=\"'' @ list_b64 @ ''\"''"

definition guidance :: "string \<Rightarrow> u8 \<Rightarrow> string \<Rightarrow> string list" where
  "guidance name cid list_b64 =
     [''Generated ECH key for public name `'' @ name @ ''`.'',
      ''config_id: 0x'' @ hex [cid],
      ''Publish the following base64-encoded ECHConfigList'',
      ''in an HTTPS DNS resource record's `ech=` parameter:'',
      '''',
      ech_line list_b64,
      '''',
      ''Run `zeromasque serve --ech-key <FILE>` pointing at the PEM saved from stdout.'']"

definition new_config :: "u8 \<Rightarrow> bytes \<Rightarrow> string \<Rightarrow> ech_config" where
  "new_config cid pk name =
     \<lparr>config_id = cid, kem_id = HPKE_KEM_DHKEM_X25519, public_key = pk,
      cipher_suites = [\<lparr>kdf_id = HPKE_KDF_HKDF_SHA256, aead_id = HPKE_AEAD_AES_128_GCM\<rparr>],
      maximum_name_length = 0, public_name = name\<rparr>"

definition keygen_run :: "hpke_ffi \<Rightarrow> u8 \<Rightarrow> (bytes \<Rightarrow> string) \<Rightarrow> (string \<Rightarrow> bool) \<Rightarrow> (string \<Rightarrow> bool) \<Rightarrow> string \<Rightarrow>
    console \<Rightarrow> ((keygen_error + unit) \<times> console) option" where
  "keygen_run ffi random_id b64_enc out_ok err_ok name con =
     (case validate_public_name name of
        Inl e \<Rightarrow> Some (Inl e, con)
      | Inr _ \<Rightarrow> do {
          keys \<leftarrow> generate_hpke_x25519_keypair ffi;
          (case keys of
             Inl e \<Rightarrow> Some (Inl e, con)
           | Inr (pk, sk) \<Rightarrow> do {
               let config = new_config random_id pk name;
               pem \<leftarrow> encode_pair_pem b64_enc sk config;
               if \<not> out_ok pem then Some (Inl Write_Failed, con) else do {
               let con = con\<lparr>con_stdout := con_stdout con @ pem\<rparr>;
               list_bytes \<leftarrow> encode_list [config];
               let list_b64 = b64_enc list_bytes;
               Some (write_lines err_ok (guidance name (config_id config) list_b64) con)
               }})
        })"

section \<open>Properties\<close>

lemma validate_public_name_Inr:
  "validate_public_name name = Inr u \<longleftrightarrow>
     name \<noteq> [] \<and> length name \<le> 253 \<and> CHR ''.'' \<in> set name
     \<and> (\<forall>c \<in> set name. is_ascii_alphanumeric c \<or> c = CHR ''.'' \<or> c = CHR ''-'')"
  by (auto simp: validate_public_name_def list_ex_iff)

lemma name_char_ascii: "is_ascii_alphanumeric c \<or> c = CHR ''.'' \<or> c = CHR ''-'' \<Longrightarrow> (of_char c :: nat) < 128"
  by (auto simp: is_ascii_alphanumeric_def Let_def)

lemma new_config_ok:
  assumes "validate_public_name name = Inr ()" and "length pk \<le> 32"
  shows "ech_fits (new_config i pk name)" "ech_wf (new_config i pk name)"
proof -
  have "\<forall>c \<in> set name. (of_char c :: nat) < 128"
    using assms(1) name_char_ascii by (fastforce simp: validate_public_name_Inr)
  then show "ech_wf (new_config i pk name)"
    by (simp add: ech_wf_def new_config_def utf8_valid_as_bytes)
  show "ech_fits (new_config i pk name)"
    using assms by (simp add: ech_fits_def new_config_def validate_public_name_Inr)
qed

lemma write_lines_ok:
  "\<forall>l \<in> set ls. err_ok l \<Longrightarrow> write_lines err_ok ls con = (Inr (), con\<lparr>con_stderr := con_stderr con @ ls\<rparr>)"
  by (induction ls arbitrary: con) simp_all

lemma encode_list_single:
  "ech_fits c \<Longrightarrow> ech_encoded_len c < 2 ^ 16 \<Longrightarrow> \<exists>l. encode_list [c] = Some l"
  using encode_configs_length [of "[c]"]
  by (simp add: encode_list_def ech_config_encode_eq try_from_len_def)

lemma guidance_ech: "ech_line b \<in> set (guidance name cid b)"
  by (simp add: guidance_def)

lemma keygen_run_ok:
  assumes "validate_public_name name = Inr ()" and "generate_hpke_x25519_keypair ffi = Some (Inr (pk, sk))"
    and "length pk \<le> 32" and "\<forall>l. out_ok l" "\<forall>l. err_ok l"
  shows "\<exists>pem l. encode_pair_pem enc sk (new_config i pk name) = Some pem
     \<and> encode_list [new_config i pk name] = Some l
     \<and> keygen_run ffi i enc out_ok err_ok name con =
         Some (Inr (), \<lparr>con_stdout = con_stdout con @ pem, con_stderr = con_stderr con @ guidance name i (enc l)\<rparr>)"
proof -
  note ok = new_config_ok [OF assms(1,3), of i]
  have "ech_encoded_len (new_config i pk name) < 2 ^ 16"
    using assms(1,3) by (simp add: ech_encoded_len_def new_config_def validate_public_name_Inr)
  then obtain l where l: "encode_list [new_config i pk name] = Some l"
    using encode_list_single ok by blast
  obtain b where b: "ech_config_encode (new_config i pk name) = Some b"
    using ok by (simp add: ech_config_encode_eq)
  then obtain pem where pem: "encode_pair_pem enc sk (new_config i pk name) = Some pem"
    by (simp add: encode_pair_pem_def)
  have "config_id (new_config i pk name) = i" by (simp add: new_config_def)
  with l pem assms show ?thesis
    by (simp add: keygen_run_def write_lines_ok)
qed

text \<open>C33. A successful key generation prints a file the server loads back as exactly the generated pair,
  and publishes, in its \<^verbatim>\<open>ech=\<close> line, the Base64 of a list that decodes to the same configuration.  The
  HPKE library fills at most the 32 bytes it is given.\<close>

theorem keygen_run_loads:
  assumes "validate_public_name name = Inr ()" and "generate_hpke_x25519_keypair ffi = Some (Inr (pk, sk))"
    and "length pk \<le> 32" and "\<forall>l. out_ok l" "\<forall>l. err_ok l" and "base64_codec enc dec"
  shows "\<exists>con l r r' len. keygen_run ffi i enc out_ok err_ok name \<lparr>con_stdout = [], con_stderr = []\<rparr> = Some (Inr (), con)
     \<and> ech_key_set_load (single_file p (as_bytes (con_stdout con))) dec p
         = Inr \<lparr>key_pairs = [\<lparr>private_key = sk, kp_config = new_config i pk name\<rparr>]\<rparr>
     \<and> ech_line (enc l) \<in> set (con_stderr con) \<and> dec (enc l) = Some l
     \<and> read_u16 (reader_new l) = Inr (len, r) \<and> decode_many 1 r = Inr ([new_config i pk name], r') \<and> is_empty r'"
proof -
  note wf = new_config_ok(2) [OF assms(1,3), of i]
  obtain pem l where run: "encode_pair_pem enc sk (new_config i pk name) = Some pem"
    "encode_list [new_config i pk name] = Some l"
    "keygen_run ffi i enc out_ok err_ok name \<lparr>con_stdout = [], con_stderr = []\<rparr> =
       Some (Inr (), \<lparr>con_stdout = pem, con_stderr = guidance name i (enc l)\<rparr>)"
    using keygen_run_ok [OF assms(1-5), of enc i "\<lparr>con_stdout = [], con_stderr = []\<rparr>"] by auto
  have "parse_pem_bundle dec (as_bytes (concat [pem])) = Inr [\<lparr>private_key = sk, kp_config = new_config i pk name\<rparr>]"
    using run(1) wf by (intro parse_pem_pairs [OF assms(6)]) simp_all
  then have load: "ech_key_set_load (single_file p (as_bytes pem)) dec p
      = Inr \<lparr>key_pairs = [\<lparr>private_key = sk, kp_config = new_config i pk name\<rparr>]\<rparr>"
    by (intro load_single_file) simp_all
  obtain len r r' where dec: "read_u16 (reader_new l) = Inr (len, r)"
    "decode_many (length [new_config i pk name]) r = Inr ([new_config i pk name], r')" "is_empty r'"
    using encode_list_decodes [OF run(2)] wf by auto
  have "dec (enc l) = Some l" using assms(6) by (simp add: base64_codec_def)
  with run(3) load dec show ?thesis
    by (intro exI [of _ "\<lparr>con_stdout = pem, con_stderr = guidance name i (enc l)\<rparr>"] exI [of _ l]
      exI [of _ r] exI [of _ r'] exI [of _ len]) (simp add: guidance_ech)
qed

definition sample_ffi :: hpke_ffi where
  "sample_ffi = \<lparr>EVP_HPKE_KEY_new = True, EVP_HPKE_KEY_generate = True,
     EVP_HPKE_KEY_public_key = (\<lambda>buf cap. Some (replicate 32 1, 32)),
     EVP_HPKE_KEY_private_key = (\<lambda>buf cap. Some (replicate 32 2, 32))\<rparr>"

theorem keygen_run_loads_witness:
  "\<exists>con. keygen_run sample_ffi 7 hex (\<lambda>_. True) (\<lambda>_. True) ''a.example'' \<lparr>con_stdout = [], con_stderr = []\<rparr>
       = Some (Inr (), con)
     \<and> ech_key_set_load (single_file [] (as_bytes (con_stdout con))) unhex []
       = Inr \<lparr>key_pairs = [\<lparr>private_key = replicate 32 2, kp_config = new_config 7 (replicate 32 1) ''a.example''\<rparr>]\<rparr>"
proof -
  have "validate_public_name ''a.example'' = Inr ()"
    by (simp add: validate_public_name_def is_ascii_alphanumeric_def)
  moreover have "generate_hpke_x25519_keypair sample_ffi = Some (Inr (replicate 32 1, replicate 32 2))"
    by (simp add: generate_hpke_x25519_keypair_def sample_ffi_def slice_to_def)
  ultimately show ?thesis
    using keygen_run_loads [of "''a.example''" sample_ffi "replicate 32 1" "replicate 32 2" "\<lambda>_. True" "\<lambda>_. True"
      hex unhex 7 "[]", OF _ _ _ _ _ base64_codec_hex] by (force simp only: length_replicate)
qed

text \<open>A name the generator refuses, or a failing key library, leaves both standard streams
  untouched: nothing is printed that an operator could mistake for a key.\<close>

theorem keygen_run_error:
  assumes "keygen_run ffi i enc out_ok err_ok name con = Some (Inl e, con')" and "e \<noteq> Write_Failed"
  shows "con' = con \<and> (validate_public_name name = Inl e \<or> generate_hpke_x25519_keypair ffi = Some (Inl e))"
proof -
  have "fst (write_lines err_ok ls c) \<noteq> Inl e" for ls c
    using assms(2) by (induction ls arbitrary: c) auto
  then have "write_lines err_ok ls c \<noteq> (Inl e, con')" for ls c
    by (metis fst_conv)
  with assms show ?thesis
    by (cases "generate_hpke_x25519_keypair ffi"; cases "the (generate_hpke_x25519_keypair ffi)")
      (auto simp: keygen_run_def bind_eq_Some_conv Let_def split: sum.split_asm if_split_asm)
qed

theorem keygen_run_error_witness:
  "keygen_run sample_ffi 7 hex (\<lambda>_. True) (\<lambda>_. True) ''localhost'' \<lparr>con_stdout = [], con_stderr = []\<rparr>
     = Some (Inl Name_No_Dot, \<lparr>con_stdout = [], con_stderr = []\<rparr>)"
proof -
  have "keygen_run sample_ffi 7 hex (\<lambda>_. True) (\<lambda>_. True) ''localhost'' \<lparr>con_stdout = [], con_stderr = []\<rparr>
     = Some (Inl Name_No_Dot, \<lparr>con_stdout = [], con_stderr = []\<rparr>)"
    by (simp add: keygen_run_def validate_public_name_def)
  with keygen_run_error [OF this] show ?thesis by simp
qed

end
