(* ===== verification/Recv_Task.thy ===== *)
theory Recv_Task
  imports Udp_Io Util
begin

text \<open>
  The receive task of \<^verbatim>\<open>src/src/io.rs\<close> (\<^verbatim>\<open>spawn_udp_recv\<close>) with the channel it fills, as server and client run it beside
  their main loops.  One wake-up of the task runs to its next \<^verbatim>\<open>await\<close> without the consumer in between; a datagram that
  finds the channel full is dropped.  How many items the channel takes is the parameter \<open>room\<close>.
\<close>

section \<open>The task and its channel\<close>

record recv_state =
  rs_queue :: "(bytes \<times> socket_addr) list"
  rs_done :: bool
  rs_trace :: trace

definition chan_try_send :: "('a list \<Rightarrow> bool) \<Rightarrow> 'a \<Rightarrow> 'a list \<Rightarrow> 'a list" where
  "chan_try_send room x ch = (if room ch then ch @ [x] else ch)"

text \<open>One round of the loop: wait for the socket or the cancellation, read a batch, offer it to the channel.\<close>

definition recv_task_round :: "kernel \<Rightarrow> fd \<Rightarrow> nat \<Rightarrow> ((bytes \<times> socket_addr) list \<Rightarrow> bool) \<Rightarrow> recv_wake \<Rightarrow> recv_state \<Rightarrow> recv_state" where
  "recv_task_round k fd buf_size room wake s =
     (case udp_recv_step k fd buf_size wake (rs_trace s) of
        (fl, segments, t) \<Rightarrow>
          \<lparr>rs_queue = fold (chan_try_send room) segments (rs_queue s), rs_done = (fl = Task_Return), rs_trace = t\<rparr>)"

text \<open>The task, the loop that takes from the channel, and whatever else the process does in between; \<open>cancel\<close> says
  whether the task was given a cancellation.  The second component of the state is what has been taken so far.\<close>

inductive recv_sys :: "kernel \<Rightarrow> fd \<Rightarrow> nat \<Rightarrow> ((bytes \<times> socket_addr) list \<Rightarrow> bool) \<Rightarrow> bool \<Rightarrow>
    recv_state \<times> (bytes \<times> socket_addr) list \<Rightarrow> recv_state \<times> (bytes \<times> socket_addr) list \<Rightarrow> bool"
  for k fd buf_size room cancel where
  wakes: "\<not> rs_done s \<Longrightarrow> (wake = Cancelled \<Longrightarrow> cancel) \<Longrightarrow>
      recv_sys k fd buf_size room cancel (s, got) (recv_task_round k fd buf_size room wake s, got)"
| takes: "rs_queue s = x # xs \<Longrightarrow> recv_sys k fd buf_size room cancel (s, got) (s\<lparr>rs_queue := xs\<rparr>, got @ [x])"
| elsewhere: "(\<And>n r. Recvmsg fd n r \<notin> set u) \<Longrightarrow> (\<And>r. Call (Await_Readable fd) r \<notin> set u) \<Longrightarrow>
      recv_sys k fd buf_size room cancel (s, got) (s\<lparr>rs_trace := rs_trace s @ u\<rparr>, got)"

section \<open>What the socket delivered\<close>

text \<open>The datagrams of one received message: split at the segment size the kernel reports.\<close>

definition message_segments :: "received \<Rightarrow> (bytes \<times> socket_addr) list" where
  "message_segments msg =
     (case socket_addr_from_storage (rc_name msg) of
        Inl _ \<Rightarrow> []
      | Inr from \<Rightarrow>
          (case recv_gro_segment_size (rc_control msg) of
             Some g \<Rightarrow> if 0 < g \<and> g < length (rc_data msg) then map (\<lambda>c. (c, from)) (chunks g (rc_data msg)) else [(rc_data msg, from)]
           | None \<Rightarrow> [(rc_data msg, from)]))"

fun segment_event :: "fd \<Rightarrow> event \<Rightarrow> (bytes \<times> socket_addr) list" where
  "segment_event fd (Recvmsg f _ (Inr msg)) = (if f = fd then message_segments msg else [])"
| "segment_event fd _ = []"

definition segments_on :: "fd \<Rightarrow> trace \<Rightarrow> (bytes \<times> socket_addr) list" where
  "segments_on fd t = concat (map (segment_event fd) t)"

lemma segments_on_simps [simp]:
  "segments_on fd [] = []" "segments_on fd (t @ u) = segments_on fd t @ segments_on fd u"
  "segments_on fd (e # u) = segment_event fd e @ segments_on fd u"
  by (simp_all add: segments_on_def)

text \<open>What makes the task give up: an error other than those it retries, or a peer of an unknown family.\<close>

fun fatal_event :: "fd \<Rightarrow> event \<Rightarrow> bool" where
  "fatal_event fd (Call (Await_Readable f) (Inl _)) \<longleftrightarrow> f = fd"
| "fatal_event fd (Recvmsg f _ (Inl e)) \<longleftrightarrow> f = fd \<and> e \<noteq> EAGAIN \<and> e \<noteq> EINTR"
| "fatal_event fd (Recvmsg f _ (Inr msg)) \<longleftrightarrow> f = fd \<and> (\<exists>fam. rc_name msg = Sockaddr_Other fam)"
| "fatal_event fd _ \<longleftrightarrow> False"

definition recv_failed :: "fd \<Rightarrow> trace \<Rightarrow> bool" where
  "recv_failed fd t \<longleftrightarrow> (\<exists>e \<in> set t. fatal_event fd e)"

lemma recv_failed_simps [simp]:
  "\<not> recv_failed fd []" "recv_failed fd (t @ u) \<longleftrightarrow> recv_failed fd t \<or> recv_failed fd u"
  "recv_failed fd (e # u) \<longleftrightarrow> fatal_event fd e \<or> recv_failed fd u"
  by (auto simp: recv_failed_def)

lemma recv_udp_segments_effect:
  assumes "recv_udp_segments k fd n t = (r, t')"
  shows "\<exists>e. t' = t @ [e] \<and> (\<forall>segs. r = Inr segs \<longrightarrow> segment_event fd e = segs \<and> \<not> fatal_event fd e)
     \<and> (\<forall>err. r = Inl err \<longrightarrow> segment_event fd e = [] \<and> (fatal_event fd e \<longleftrightarrow> err_kind err \<noteq> WouldBlock \<and> err_kind err \<noteq> Interrupted))"
proof -
  let ?n = "max (min (min (n * RECV_BATCH) (2 ^ 64 - 1)) 65535) n"
  let ?e = "Recvmsg fd ?n (k_recvmsg k t fd ?n)"
  have t': "t' = t @ [?e]"
    using assms by (auto simp: recv_udp_segments_def recvmsg_def Let_def split: sum.splits option.splits if_splits)
  show ?thesis
  proof (cases "k_recvmsg k t fd ?n")
    case (Inl err)
    then have "r = Inl (last_os_error err)" using assms by (simp add: recv_udp_segments_def recvmsg_def Let_def)
    moreover have "err_kind (last_os_error err) = Interrupted \<longleftrightarrow> err = EINTR"
      by (simp add: last_os_error_def EINTR_def EAGAIN_def)
    ultimately show ?thesis using Inl t' by (intro exI [of _ ?e]) auto
  next
    case (Inr msg)
    have "r = (case socket_addr_from_storage (rc_name msg) of Inl e \<Rightarrow> Inl e | Inr _ \<Rightarrow> Inr (message_segments msg))"
      using assms Inr
      by (auto simp: recv_udp_segments_def recvmsg_def Let_def message_segments_def split: sum.splits option.splits if_splits)
    with Inr t' show ?thesis
      by (intro exI [of _ ?e], cases "rc_name msg") (auto simp: message_segments_def io_error_new_def)
  qed
qed

lemma recv_for_effect:
  "recv_for k fd n i sent t = (fl, sent', t') \<Longrightarrow>
     \<exists>u. t' = t @ u \<and> sent' = sent @ segments_on fd u \<and> (fl = Task_Return \<longleftrightarrow> recv_failed fd u)"
proof (induction i arbitrary: sent t)
  case 0
  then show ?case by auto
next
  case (Suc i)
  obtain r t1 where r: "recv_udp_segments k fd n t = (r, t1)" by force
  obtain e where t1: "t1 = t @ [e]" and ok: "\<And>segs. r = Inr segs \<Longrightarrow> segment_event fd e = segs \<and> \<not> fatal_event fd e"
    and err: "\<And>x. r = Inl x \<Longrightarrow> segment_event fd e = [] \<and> (fatal_event fd e \<longleftrightarrow> err_kind x \<noteq> WouldBlock \<and> err_kind x \<noteq> Interrupted)"
    using recv_udp_segments_effect [OF r] by blast
  have stop: ?case if "(fl, sent', t') = (f, sent, t1)" "f = Task_Return \<longleftrightarrow> fatal_event fd e" "segment_event fd e = []" for f
    using that t1 by (intro exI [of _ "[e]"]) auto
  have go: ?case if "recv_for k fd n i (sent @ segment_event fd e) t1 = (fl, sent', t')" "\<not> fatal_event fd e"
    using Suc.IH [OF that(1)] that(2) t1 by fastforce
  show ?case
  proof (cases r)
    case (Inl x)
    with Suc.prems r err [OF Inl] stop go show ?thesis by (auto split: if_splits)
  next
    case (Inr segs)
    with Suc.prems r ok [OF Inr] go show ?thesis by auto
  qed
qed

lemma recv_task_round_effect:
  assumes "recv_task_round k fd n room wake s = s'"
  shows "\<exists>u. rs_trace s' = rs_trace s @ u \<and> rs_queue s' = fold (chan_try_send room) (segments_on fd u) (rs_queue s)
     \<and> (rs_done s' \<longleftrightarrow> wake = Cancelled \<or> recv_failed fd u)"
proof (cases wake)
  case Cancelled
  with assms show ?thesis by (auto simp: recv_task_round_def udp_recv_step_def)
next
  case Socket_Ready
  let ?e = "Call (Await_Readable fd) (k_call k (rs_trace s) (Await_Readable fd))"
  show ?thesis
  proof (cases "k_call k (rs_trace s) (Await_Readable fd)")
    case (Inl e)
    with Socket_Ready assms show ?thesis
      by (intro exI [of _ "[?e]"]) (auto simp: recv_task_round_def udp_recv_step_def sys_eq)
  next
    case (Inr x)
    obtain fl segs t where r: "recv_for k fd n RECV_BATCH [] (rs_trace s @ [?e]) = (fl, segs, t)" by (metis prod_cases3)
    from recv_for_effect [OF r] obtain u where "t = (rs_trace s @ [?e]) @ u" "segs = segments_on fd u"
      "fl = Task_Return \<longleftrightarrow> recv_failed fd u" by auto
    with Socket_Ready Inr assms r show ?thesis
      by (intro exI [of _ "?e # u"]) (auto simp: recv_task_round_def udp_recv_step_def sys_eq)
  qed
qed

section \<open>The channel keeps the order\<close>

lemma fold_try_send_subseq: "subseq (fold (chan_try_send room) xs ch) (ch @ xs)"
proof (induction xs arbitrary: ch)
  case (Cons x xs)
  have "subseq (fold (chan_try_send room) xs (chan_try_send room x ch)) (chan_try_send room x ch @ xs)" by (rule Cons.IH)
  also have "subseq \<dots> (ch @ x # xs)"
    by (auto simp: chan_try_send_def intro: list_emb_append_mono)
  finally show ?case by simp
qed simp

lemma fold_try_send_room: "(\<And>ch. room ch) \<Longrightarrow> fold (chan_try_send room) xs ch = ch @ xs"
  by (induction xs arbitrary: ch) (simp_all add: chan_try_send_def)

lemma fold_try_send_bound:
  "(\<And>ch. room ch \<Longrightarrow> length ch < cap) \<Longrightarrow> length ch \<le> cap \<Longrightarrow> length (fold (chan_try_send room) xs ch) \<le> cap"
  by (induction xs arbitrary: ch) (auto simp: chan_try_send_def Suc_leI)

definition recv_start :: "trace \<Rightarrow> recv_state \<times> (bytes \<times> socket_addr) list \<Rightarrow> bool" where
  "recv_start t0 s \<longleftrightarrow> s = (\<lparr>rs_queue = [], rs_done = False, rs_trace = t0\<rparr>, [])"

definition recv_inv :: "fd \<Rightarrow> ((bytes \<times> socket_addr) list \<Rightarrow> bool) \<Rightarrow> bool \<Rightarrow> trace \<Rightarrow> recv_state \<times> (bytes \<times> socket_addr) list \<Rightarrow> bool" where
  "recv_inv fd room cancel t0 = (\<lambda>(s, got). \<exists>u. rs_trace s = t0 @ u
     \<and> subseq (got @ rs_queue s) (segments_on fd u)
     \<and> ((\<forall>ch. room ch) \<longrightarrow> got @ rs_queue s = segments_on fd u)
     \<and> (\<forall>cap. (\<forall>ch. room ch \<longrightarrow> length ch < cap) \<longrightarrow> length (rs_queue s) \<le> cap)
     \<and> (rs_done s \<longrightarrow> cancel \<or> recv_failed fd u))"

lemma quiet_segments: "(\<And>n r. Recvmsg fd n r \<notin> set u) \<Longrightarrow> segments_on fd u = []"
proof (induction u)
  case (Cons e u)
  then have "segment_event fd e = []" by (cases "(fd, e)" rule: segment_event.cases) auto
  with Cons show ?case by simp
qed simp

lemma recv_sys_inv: "recv_sys k fd n room cancel s s' \<Longrightarrow> recv_inv fd room cancel t0 s \<Longrightarrow> recv_inv fd room cancel t0 s'"
proof (induction rule: recv_sys.induct)
  case (wakes s wake got)
  let ?s' = "recv_task_round k fd n room wake s"
  obtain u where u: "rs_trace s = t0 @ u" "subseq (got @ rs_queue s) (segments_on fd u)"
    "(\<forall>ch. room ch) \<longrightarrow> got @ rs_queue s = segments_on fd u"
    "\<forall>cap. (\<forall>ch. room ch \<longrightarrow> length ch < cap) \<longrightarrow> length (rs_queue s) \<le> cap"
    using wakes.prems by (auto simp: recv_inv_def)
  obtain v where v: "rs_trace ?s' = rs_trace s @ v" "rs_queue ?s' = fold (chan_try_send room) (segments_on fd v) (rs_queue s)"
    "rs_done ?s' \<longleftrightarrow> wake = Cancelled \<or> recv_failed fd v" using recv_task_round_effect by blast
  have "subseq (got @ rs_queue ?s') (got @ rs_queue s @ segments_on fd v)"
    unfolding v(2) by (intro list_emb_append_mono subseq_order.order_refl fold_try_send_subseq)
  also have "subseq \<dots> (segments_on fd u @ segments_on fd v)"
    using list_emb_append_mono [OF u(2) subseq_order.order_refl] by simp
  finally have "subseq (got @ rs_queue ?s') (segments_on fd (u @ v))" by simp
  moreover have "got @ rs_queue ?s' = segments_on fd (u @ v)" if "\<forall>ch. room ch"
    using that u(3) v(2) by (simp add: fold_try_send_room append_assoc [symmetric] del: append_assoc)
  moreover have "length (rs_queue ?s') \<le> cap" if "\<forall>ch. room ch \<longrightarrow> length ch < cap" for cap
    unfolding v(2) using that u(4) by (intro fold_try_send_bound) auto
  ultimately show ?case
    using u(1) v(1,3) wakes.hyps(2) unfolding recv_inv_def prod.case by (intro exI [of _ "u @ v"]) auto
next
  case (takes s x xs got)
  from takes.prems obtain u where u: "rs_trace s = t0 @ u" "subseq (got @ rs_queue s) (segments_on fd u)"
    "(\<forall>ch. room ch) \<longrightarrow> got @ rs_queue s = segments_on fd u"
    "\<forall>cap. (\<forall>ch. room ch \<longrightarrow> length ch < cap) \<longrightarrow> length (rs_queue s) \<le> cap" "rs_done s \<longrightarrow> cancel \<or> recv_failed fd u"
    by (auto simp: recv_inv_def)
  have "length xs \<le> cap" if "\<forall>ch. room ch \<longrightarrow> length ch < cap" for cap
    using u(4) [THEN spec, THEN mp, OF that] takes.hyps by simp
  with u takes.hyps show ?case unfolding recv_inv_def prod.case by (intro exI [of _ u]) simp
next
  case (elsewhere u s got)
  note q = quiet_segments [OF elsewhere.hyps(1)]
  from elsewhere.prems obtain v where v: "rs_trace s = t0 @ v" "subseq (got @ rs_queue s) (segments_on fd v)"
    "(\<forall>ch. room ch) \<longrightarrow> got @ rs_queue s = segments_on fd v"
    "\<forall>cap. (\<forall>ch. room ch \<longrightarrow> length ch < cap) \<longrightarrow> length (rs_queue s) \<le> cap" "rs_done s \<longrightarrow> cancel \<or> recv_failed fd v"
    by (auto simp: recv_inv_def)
  then show ?case unfolding recv_inv_def prod.case by (intro exI [of _ "v @ u"]) (auto simp: q)
qed

lemma recv_start_inv: "recv_start t0 s \<Longrightarrow> recv_inv fd room cancel t0 s"
  by (auto simp: recv_start_def recv_inv_def)

interpretation rx: invariant_system "recv_start t0" "recv_sys k fd n room cancel" "recv_inv fd room cancel t0" for t0 k fd n room cancel
  by unfold_locales (use recv_start_inv recv_sys_inv in blast)+


definition one_message_kernel :: kernel where
  "one_message_kernel = calm_kernel\<lparr>k_recvmsg := (\<lambda>t _ _. if length t < 2 then Inr \<lparr>rc_data = [1, 2, 3, 4, 5],
     rc_name = Sockaddr_In [127, 0, 0, 1] [0, 53], rc_control = [\<lparr>cmsg_level = SOL_UDP, cmsg_type = UDP_GRO, cmsg_data = 2\<rparr>]\<rparr> else Inl EAGAIN)\<rparr>"


end
