(* ===== verification/Portable.thy ===== *)
theory Portable
  imports Reload
begin

text \<open>
  The parts that differ on systems other than Linux (\<^verbatim>\<open>cfg(not(target_os = "linux"))\<close> in \<^verbatim>\<open>src/src/io.rs\<close>,
  \<^verbatim>\<open>src/src/server.rs\<close> and \<^verbatim>\<open>src/src/reload.rs\<close>): sending without segmentation, receiving without coalescing, rules that
  need Linux, and no hot reload.  Error
  numbers keep the values of \<^verbatim>\<open>Kernel\<close>; nothing below depends on them.
\<close>

section \<open>Definitions\<close>

definition send_packets_other :: "kernel \<Rightarrow> fd \<Rightarrow> socket_addr \<Rightarrow> nat \<Rightarrow> bytes list \<Rightarrow> trace \<Rightarrow>
    ((io_error + unit) \<times> trace) option" where
  "send_packets_other k fd dst segment_size packets t =
     (if 1 < length packets then send_each k fd dst packets t
      else do {
        let payload = concat packets;
        (r, t) \<leftarrow> send_payload k fd dst payload None t;
        (case r of Inr _ \<Rightarrow> Some (Inr (), t) | Inl e \<Rightarrow> Some (Inl e, t))
      })"

definition recv_gro_segment_size_other :: "cmsg list \<Rightarrow> nat option" where
  "recv_gro_segment_size_other control = None"

datatype other_error = Needs_Linux string | Other_Target target_error

definition bind_target_transparent_other :: "socket_addr \<Rightarrow> socket_addr \<Rightarrow> u32 option \<Rightarrow> trace \<Rightarrow> (other_error + fd) \<times> trace" where
  "bind_target_transparent_other target client_addr fwmark t = (Inl (Needs_Linux ''transparent''), t)"

definition bind_target_other :: "kernel \<Rightarrow> socket_addr \<Rightarrow> socket_addr \<Rightarrow> bool \<Rightarrow> u32 option \<Rightarrow> trace \<Rightarrow>
    (other_error + fd) \<times> trace" where
  "bind_target_other k target client_addr transparent fwmark t =
     (if transparent then bind_target_transparent_other target client_addr fwmark t
      else if fwmark \<noteq> None then (Inl (Needs_Linux ''fwmark''), t)
      else
        case sys k (Udp_Bind (if addr_is_ipv4 target then any_v4 else any_v6)) t of
          (Inl e, t) \<Rightarrow> (Inl (Other_Target (Target_Os (last_os_error e))), t)
        | (Inr fd, t) \<Rightarrow>
            (case adopt k (or_close k fd (Connect fd target)
                    (or_close k fd (Set_Nonblocking fd) (\<lambda>t. (Inr fd, t))) (enlarge_udp_buffers k fd t)) of
               (r, t) \<Rightarrow> (map_err Other_Target r, t)))"

text \<open>No hot reload: SIGHUP is ignored, and no task is started.\<close>

definition sighup_blocked_new_other :: "kernel \<Rightarrow> trace \<Rightarrow> trace" where
  "sighup_blocked_new_other k t = snd (sys k Ignore_Sighup t)"

definition spawn_reload_other :: "trace \<Rightarrow> (io_error + unit) \<times> trace" where
  "spawn_reload_other t = (Inr (), t)"

section \<open>Rules that need Linux\<close>

text \<open>Where no rule asks for Linux the builds open the same socket; otherwise nothing is opened at all.\<close>

lemma bind_target_other_spec:
  "bind_target_other k target client_addr transparent fwmark t =
     (if transparent then (Inl (Needs_Linux ''transparent''), t)
      else if fwmark \<noteq> None then (Inl (Needs_Linux ''fwmark''), t)
      else apfst (map_err Other_Target) (bind_target k target client_addr False None t))"
  by (auto simp: bind_target_other_def bind_target_transparent_other_def bind_target_def set_so_mark_def split: prod.split sum.split)

section \<open>Segmentation is invisible\<close>

text \<open>A machine that takes every plain message whole.\<close>

definition takes_plain :: "kernel \<Rightarrow> bool" where
  "takes_plain k \<longleftrightarrow> (\<forall>t fd dst p. k_call k t (Sendmsg fd dst p None) = Inr (int (length p)))"

text \<open>It takes a segmented message whole as well, or says that it cannot segment.\<close>

definition segments_or_refuses :: "kernel \<Rightarrow> bool" where
  "segments_or_refuses k \<longleftrightarrow> (\<forall>t fd dst p g. k_call k t (Sendmsg fd dst p (Some g)) = Inr (int (length p))
     \<or> k_call k t (Sendmsg fd dst p (Some g)) \<in> {Inl EINVAL, Inl EIO, Inl ENOTSUP})"

lemma send_payload_plain:
  assumes "takes_plain k"
  shows "\<exists>t'. send_payload k fd dst p None t = Some (Inr (), t') \<and> wire t' = wire t @ [(fd, Some dst, p)]"
proof -
  have "k_call k t (Sendmsg fd (Some dst) p None) = Inr (int (length p))" using assms by (simp add: takes_plain_def)
  then show ?thesis
    by (subst send_payload.simps) (simp add: sendmsg_udp_def sys_eq gso_segments_def)
qed

lemma send_each_plain:
  assumes "takes_plain k"
  shows "\<exists>t'. send_each k fd dst ps t = Some (Inr (), t') \<and> wire t' = wire t @ map (\<lambda>p. (fd, Some dst, p)) ps"
proof (induction ps arbitrary: t)
  case (Cons p ps)
  obtain t1 where t1: "send_payload k fd dst p None t = Some (Inr (), t1)" "wire t1 = wire t @ [(fd, Some dst, p)]"
    using send_payload_plain [OF assms] by blast
  from Cons.IH [of t1] t1 show ?case by auto
qed simp

lemma send_packets_other_plain:
  assumes "takes_plain k" "ps \<noteq> []"
  shows "\<exists>t'. send_packets_other k fd dst n ps t = Some (Inr (), t') \<and> wire t' = wire t @ map (\<lambda>p. (fd, Some dst, p)) ps"
proof (cases "1 < length ps")
  case True
  with send_each_plain [OF assms(1)] show ?thesis by (simp add: send_packets_other_def)
next
  case False
  with assms(2) obtain p where "ps = [p]" by (cases ps) auto
  with send_payload_plain [OF assms(1), of fd dst p t] show ?thesis by (auto simp: send_packets_other_def)
qed

lemma send_packets_plain:
  assumes k: "takes_plain k" "segments_or_refuses k" and seg: "segmented n ps" "n < 2 ^ 16"
  shows "\<exists>t'. send_packets k fd dst n ps t = Some (Inr (), t') \<and> wire t' = wire t @ map (\<lambda>p. (fd, Some dst, p)) ps"
proof -
  have "\<exists>t'. send_packets k fd dst n ps t = Some (Inr (), t')"
  proof (cases "1 < length ps")
    case False
    obtain t1 where "send_payload k fd dst (concat ps) None t = Some (Inr (), t1)" using send_payload_plain [OF k(1)] by blast
    with False show ?thesis by (simp add: send_packets_def target_os_linux_def)
  next
    case True
    let ?s = "Sendmsg fd (Some dst) (concat ps) (Some (word_of_nat n))"
    let ?t = "t @ [Call ?s (k_call k t ?s)]"
    consider "k_call k t ?s = Inr (int (length (concat ps)))" | e where "k_call k t ?s = Inl e" "e \<in> {EINVAL, EIO, ENOTSUP}"
      using k(2) unfolding segments_or_refuses_def by blast
    then show ?thesis
    proof cases
      case 1
      then have "send_payload k fd dst (concat ps) (Some n) t = Some (Inr (), ?t)"
        by (subst send_payload.simps) (simp add: sendmsg_udp_def sys_eq)
      with True show ?thesis by (simp add: send_packets_def target_os_linux_def)
    next
      case 2
      then have "e \<noteq> EAGAIN" by (auto simp: EINVAL_def EIO_def ENOTSUP_def EAGAIN_def)
      with 2 have "send_payload k fd dst (concat ps) (Some n) t = Some (Inl (last_os_error e), ?t)"
        by (subst send_payload.simps) (simp add: sendmsg_udp_def sys_eq)
      moreover have "is_gso_unsupported (last_os_error e)" using 2 by (auto simp: is_gso_unsupported_def)
      ultimately show ?thesis using True send_each_plain [OF k(1), of fd dst ps ?t] by (auto simp: send_packets_def target_os_linux_def)
    qed
  qed
  then obtain t' where t': "send_packets k fd dst n ps t = Some (Inr (), t')" ..
  from send_packets_upto [OF seg t'] t' show ?thesis by (auto simp: sent_upto_def)
qed

text \<open>C31. Segmentation offload cannot be told from the outside: for a batch with one segment size, the Linux build,
  whether its kernel segments or refuses to, and the build without segmentation both succeed and put the same
  datagrams on the wire, the packets of the batch in order.\<close>

theorem segmentation_invisible:
  assumes "takes_plain k" and "segments_or_refuses k" and "segmented n ps" and "n < 2 ^ 16"
  shows "\<exists>t1 t2. send_packets k fd dst n ps t = Some (Inr (), t1) \<and> send_packets_other k fd dst n ps t = Some (Inr (), t2)
     \<and> wire t1 = wire t @ map (\<lambda>p. (fd, Some dst, p)) ps \<and> wire t2 = wire t1"
proof -
  have "ps \<noteq> []" using assms(3) by (simp add: segmented_def)
  with send_packets_plain [OF assms, of fd dst t] send_packets_other_plain [OF assms(1), of ps fd dst n t] show ?thesis by auto
qed

theorem segmentation_invisible_witness:
  "\<exists>t1. send_packets (calm_kernel\<lparr>k_call := (\<lambda>_ s. case s of Sendmsg _ _ _ (Some _) \<Rightarrow> Inl EINVAL | _ \<Rightarrow> calm_call s)\<rparr>)
       3 (SocketV4 1 53) 2 [[1, 2], [3, 4], [5]] [] = Some (Inr (), t1)
     \<and> wire t1 = [(3, Some (SocketV4 1 53), [1, 2]), (3, Some (SocketV4 1 53), [3, 4]), (3, Some (SocketV4 1 53), [5])]"
proof -
  let ?k = "calm_kernel\<lparr>k_call := (\<lambda>_ s. case s of Sendmsg _ _ _ (Some _) \<Rightarrow> Inl EINVAL | _ \<Rightarrow> calm_call s)\<rparr>"
  have "takes_plain ?k" "segments_or_refuses ?k" by (simp_all add: takes_plain_def segments_or_refuses_def)
  moreover have "segmented 2 [[1, 2], [3, 4], [5 :: u8]]" by (simp add: segmented_def)
  ultimately show ?thesis
    using segmentation_invisible [of ?k 2 "[[1, 2], [3, 4], [5]]" 3 "SocketV4 1 53" "[]"] by auto
qed

end
