(* ===== verification/Source_Tests.thy ===== *)
theory Source_Tests
  imports Connect_Udp Dgram Ech_Key
begin

text \<open>
  The unit tests of the sources, as predicates over the definitions that model the tested functions, in the order of
  the files; each is shown to hold.  They tie the definitions to the behaviour the authors fixed.  Test files and
  their JSON text are replaced by what reading and parsing them yields; the base64 codec is a parameter.
\<close>

section \<open>client.rs\<close>

definition host_of_strips_port_and_brackets :: bool where
  "host_of_strips_port_and_brackets \<longleftrightarrow>
     host_of ''localhost:4433'' = ''localhost'' \<and> host_of ''example.com'' = ''example.com''
     \<and> host_of ''[2001:db8::1]:443'' = ''2001:db8::1''"

section \<open>dgram.rs\<close>

definition encode_decode_roundtrip :: bool where
  "encode_decode_roundtrip \<longleftrightarrow>
     (case dgram_decode (dgram_encode 0 (as_bytes ''hello'')) of
        None \<Rightarrow> False
      | Some p \<Rightarrow> p_flow_id p = 0 \<and> p_context_id p = CONTEXT_ID_UDP \<and> p_payload p = as_bytes ''hello'')"

definition nonzero_flow_and_context :: bool where
  "nonzero_flow_and_context \<longleftrightarrow>
     (case dgram_decode (dgram_encode 7 (as_bytes ''x'')) of
        None \<Rightarrow> False
      | Some p \<Rightarrow> p_flow_id p = 7 \<and> p_context_id p = 0 \<and> p_payload p = as_bytes ''x'')"

section \<open>endpoint.rs\<close>

definition parses_authority_and_path :: bool where
  "parses_authority_and_path \<longleftrightarrow>
     (case endpoint_parse ''https://localhost:4433/connect'' of
        Inl _ \<Rightarrow> False
      | Inr e \<Rightarrow> ep_authority e = ''localhost:4433'' \<and> ep_path e = ''/connect''
          \<and> endpoint_matches e ''/connect'' \<and> endpoint_matches e ''/connect?x=1'' \<and> \<not> endpoint_matches e ''/other'')"

definition query_is_ignored_when_matching :: bool where
  "query_is_ignored_when_matching \<longleftrightarrow>
     (case endpoint_parse ''https://proxy:4433/masque'' of
        Inl _ \<Rightarrow> False
      | Inr e \<Rightarrow> endpoint_matches e ''/masque?h=127.0.0.1&p=53'' \<and> endpoint_matches e ''/masque''
          \<and> \<not> endpoint_matches e ''/other?h=127.0.0.1&p=53'')
     \<and> (case endpoint_parse ''https://proxy:4433/masque?ignored=1'' of
        Inl _ \<Rightarrow> False
      | Inr e2 \<Rightarrow> endpoint_matches e2 ''/masque?h=1&p=2'' \<and> endpoint_matches e2 ''/masque'')"

definition defaults_path_when_absent :: bool where
  "defaults_path_when_absent \<longleftrightarrow>
     (case endpoint_parse ''https://proxy:4433'' of
        Inl _ \<Rightarrow> False
      | Inr e \<Rightarrow> ep_authority e = ''proxy:4433'' \<and> ep_path e = ''/'')"

definition rejects_relative_uri :: bool where
  "rejects_relative_uri \<longleftrightarrow> isl (endpoint_parse ''/connect'')"

section \<open>rules.rs\<close>

text \<open>A rule of a test file, and an address of the loopback network; the tests resolve nothing else.\<close>

definition raw :: "string \<Rightarrow> string \<Rightarrow> raw_rule" where
  "raw ep target = \<lparr>raw_endpoint = ep, raw_target = target, raw_transparent = None, raw_fwmark = None, raw_idle_timeout = None\<rparr>"

definition loopback :: "u16 \<Rightarrow> socket_addr" where
  "loopback port = SocketV4 0x7f000001 port"

definition test_addrs :: "string \<Rightarrow> socket_addr list option" where
  "test_addrs s = map_of [(''127.0.0.1:1'', [loopback 1]), (''127.0.0.1:2'', [loopback 2]), (''127.0.0.1:3'', [loopback 3]),
     (''127.0.0.1:1234'', [loopback 1234]), (''127.0.0.1:5678'', [loopback 5678])] s"

definition test_load :: "raw_rule list \<Rightarrow> load_error + rule_table" where
  "test_load specs = rule_table_load (\<lambda>_. Some []) (\<lambda>_. Some specs) test_addrs ''rules.json''"

definition test_target :: "rule_table \<Rightarrow> string \<Rightarrow> string \<Rightarrow> socket_addr option" where
  "test_target t authority path = map_option m_target (match_target t authority path)"

definition matches_authority_and_path_ignoring_query :: bool where
  "matches_authority_and_path_ignoring_query \<longleftrightarrow>
     (case test_load [raw ''https://a.example.com/masque'' ''127.0.0.1:1234'', raw ''https://b.example.com/connect'' ''127.0.0.1:5678''] of
        Inl _ \<Rightarrow> False
      | Inr t \<Rightarrow> rule_table_len t = 2
          \<and> test_target t ''a.example.com'' ''/masque'' = Some (loopback 1234)
          \<and> test_target t ''a.example.com'' ''/masque?h=1.2.3.4&p=53'' = Some (loopback 1234)
          \<and> test_target t ''b.example.com'' ''/connect'' = Some (loopback 5678)
          \<and> allowed_sni_hosts t = [''a.example.com'', ''b.example.com'']
          \<and> test_target t ''b.example.com'' ''/masque'' = None
          \<and> test_target t ''a.example.com'' ''/other'' = None)"

definition transparent_fwmark_and_idle_timeout_parse :: bool where
  "transparent_fwmark_and_idle_timeout_parse \<longleftrightarrow>
     (case test_load [(raw ''https://a/x'' ''127.0.0.1:1'')\<lparr>raw_transparent := Some True, raw_fwmark := Some 7, raw_idle_timeout := Some 90\<rparr>,
          raw ''https://b/y'' ''127.0.0.1:2'', (raw ''https://c/z'' ''127.0.0.1:3'')\<lparr>raw_idle_timeout := Some 0\<rparr>] of
        Inl _ \<Rightarrow> False
      | Inr t \<Rightarrow>
          (case (match_target t ''a'' ''/x'', match_target t ''b'' ''/y'', match_target t ''c'' ''/z'') of
             (Some a, Some b, Some c) \<Rightarrow>
               m_transparent a \<and> m_fwmark a = Some 7 \<and> m_idle_timeout a = Some (from_secs 90)
               \<and> \<not> m_transparent b \<and> m_fwmark b = None \<and> m_idle_timeout b = Some (from_secs 35)
               \<and> m_idle_timeout c = None \<and> privileged_count t = 1
           | _ \<Rightarrow> False))"

definition allowed_sni_hosts_strip_ports_and_brackets :: bool where
  "allowed_sni_hosts_strip_ports_and_brackets \<longleftrightarrow>
     (case test_load [raw ''https://Example.com:4433/x'' ''127.0.0.1:1'', raw ''https://example.com:8443/y'' ''127.0.0.1:2'',
          raw ''https://[::1]:443/z'' ''127.0.0.1:3''] of
        Inl _ \<Rightarrow> False
      | Inr t \<Rightarrow> allowed_sni_hosts t = [''example.com'', ''::1''])"

definition rejects_empty_table :: bool where
  "rejects_empty_table \<longleftrightarrow> isl (test_load [])"

section \<open>varint.rs\<close>

definition roundtrip_boundaries :: bool where
  "roundtrip_boundaries \<longleftrightarrow>
     list_all (\<lambda>v. let out = varint_encode v [] in length out = encoded_len v \<and> varint_decode out = Some (v, length out))
       [0, 63, 64, 16383, 16384, 1073741823, 1073741824, drop_bit 2 (- 1)]"

definition decode_short_buffer_is_none :: bool where
  "decode_short_buffer_is_none \<longleftrightarrow> varint_decode [0x80, 0x00] = None \<and> varint_decode [] = None"

definition known_vectors :: bool where
  "known_vectors \<longleftrightarrow> map_option fst (varint_decode [0x25]) = Some 37 \<and> map_option fst (varint_decode [0x7b, 0xbd]) = Some 15293"

section \<open>ech/config.rs and ech/key.rs\<close>

definition test_config :: "u8 \<Rightarrow> u8 \<Rightarrow> ech_config" where
  "test_config cid key_byte = \<lparr>config_id = cid, kem_id = HPKE_KEM_DHKEM_X25519, public_key = replicate 32 key_byte,
     cipher_suites = [\<lparr>kdf_id = HPKE_KDF_HKDF_SHA256, aead_id = HPKE_AEAD_AES_128_GCM\<rparr>],
     maximum_name_length = 0, public_name = ''example.com''\<rparr>"

definition roundtrip_minimal :: bool where
  "roundtrip_minimal \<longleftrightarrow>
     (case map_option ech_config_decode (ech_config_encode (test_config 42 0x11)) of
        Some (Inr parsed) \<Rightarrow> config_id parsed = 42 \<and> kem_id parsed = HPKE_KEM_DHKEM_X25519
          \<and> public_key parsed = replicate 32 0x11 \<and> length (cipher_suites parsed) = 1 \<and> public_name parsed = ''example.com''
      | _ \<Rightarrow> False)"

definition list_roundtrip :: bool where
  "list_roundtrip \<longleftrightarrow>
     (case encode_list [test_config 1 0x22, test_config 1 0x22] of
        None \<Rightarrow> False
      | Some list \<Rightarrow>
          (case and_then (read_u16 (reader_new list)) (\<lambda>(list_len, r). and_then (read_slice r (unat list_len)) (\<lambda>(body, _).
              and_then (ech_config_decode_from (reader_new body)) (\<lambda>(a, br).
              and_then (ech_config_decode_from br) (\<lambda>(b, br). Inr (list_len, a, b, br))))) of
             Inl _ \<Rightarrow> False
           | Inr (list_len, a, b, br) \<Rightarrow>
               unat list_len = length list - 2 \<and> is_empty br \<and> config_id a = 1 \<and> config_id b = 1))"

definition pem_roundtrip_single_pair :: "(bytes \<Rightarrow> string) \<Rightarrow> (string \<Rightarrow> bytes option) \<Rightarrow> bool" where
  "pem_roundtrip_single_pair b64_enc b64_dec \<longleftrightarrow>
     (case encode_pair_pem b64_enc (replicate 32 0x55) (test_config 7 0xab) of
        None \<Rightarrow> False
      | Some pem \<Rightarrow>
          (case parse_pem_bundle b64_dec (as_bytes pem) of
             Inr [pair] \<Rightarrow> private_key pair = replicate 32 0x55 \<and> config_id (kp_config pair) = 7
           | _ \<Rightarrow> False))"

definition pem_roundtrip_multiple_pairs :: "(bytes \<Rightarrow> string) \<Rightarrow> (string \<Rightarrow> bytes option) \<Rightarrow> bool" where
  "pem_roundtrip_multiple_pairs b64_enc b64_dec \<longleftrightarrow>
     (case (encode_pair_pem b64_enc (replicate 32 0x01) (test_config 1 0xab), encode_pair_pem b64_enc (replicate 32 0x02) (test_config 2 0xab)) of
        (Some a, Some b) \<Rightarrow>
          (case parse_pem_bundle b64_dec (as_bytes (a @ [newline] @ b)) of
             Inr [p1, p2] \<Rightarrow> config_id (kp_config p1) = 1 \<and> config_id (kp_config p2) = 2
           | _ \<Rightarrow> False)
      | _ \<Rightarrow> False)"

section \<open>They pass\<close>

lemma client_tests: "host_of_strips_port_and_brackets"
  by code_simp

lemma dgram_tests: "encode_decode_roundtrip" "nonzero_flow_and_context"
  by code_simp+

lemma endpoint_tests: "parses_authority_and_path" "query_is_ignored_when_matching" "defaults_path_when_absent" "rejects_relative_uri"
  by code_simp+

lemma rejects_empty_table_test: "rejects_empty_table"
  by (simp add: rejects_empty_table_def test_load_def rule_table_load_def)

lemma test_load_simps:
  "test_load (r # rs) = and_then (load_rules test_addrs (map rule_spec_of (r # rs)) []) (\<lambda>rs. Inr \<lparr>rules = rs\<rparr>)"
  by (simp add: test_load_def rule_table_load_def)

lemmas test_rules = test_load_simps raw_def rule_spec_of_def load_rule_def resolve_def test_addrs_def default_idle_secs_def

lemma matches_authority_and_path_test: "matches_authority_and_path_ignoring_query"
proof -
  have "endpoint_parse ''https://a.example.com/masque'' = Inr \<lparr>ep_authority = ''a.example.com'', ep_path = ''/masque''\<rparr>"
    "endpoint_parse ''https://b.example.com/connect'' = Inr \<lparr>ep_authority = ''b.example.com'', ep_path = ''/connect''\<rparr>"
    by code_simp+
  moreover have "path_only ''/masque'' = ''/masque''" "path_only ''/masque?h=1.2.3.4&p=53'' = ''/masque''"
    "path_only ''/connect'' = ''/connect''" "path_only ''/other'' = ''/other''"
    "to_ascii_lowercase (host_of_authority ''a.example.com'') = ''a.example.com''"
    "to_ascii_lowercase (host_of_authority ''b.example.com'') = ''b.example.com''"
    by code_simp+
  ultimately show ?thesis
    by (simp add: matches_authority_and_path_ignoring_query_def test_rules rule_table_len_def test_target_def match_target_def rule_applies_def
        endpoint_matches_def rule_decision_def allowed_sni_hosts_def Let_def)
qed

lemma allowed_sni_hosts_test: "allowed_sni_hosts_strip_ports_and_brackets"
proof -
  have "endpoint_parse ''https://Example.com:4433/x'' = Inr \<lparr>ep_authority = ''Example.com:4433'', ep_path = ''/x''\<rparr>"
    "endpoint_parse ''https://example.com:8443/y'' = Inr \<lparr>ep_authority = ''example.com:8443'', ep_path = ''/y''\<rparr>"
    "endpoint_parse ''https://[::1]:443/z'' = Inr \<lparr>ep_authority = ''[::1]:443'', ep_path = ''/z''\<rparr>"
    by code_simp+
  moreover have "to_ascii_lowercase (host_of_authority ''Example.com:4433'') = ''example.com''"
    "to_ascii_lowercase (host_of_authority ''example.com:8443'') = ''example.com''"
    "to_ascii_lowercase (host_of_authority ''[::1]:443'') = ''::1''"
    by code_simp+
  ultimately show ?thesis
    by (simp add: allowed_sni_hosts_strip_ports_and_brackets_def test_rules allowed_sni_hosts_def Let_def)
qed

lemma rules_flags_test: "transparent_fwmark_and_idle_timeout_parse"
proof -
  have "endpoint_parse ''https://a/x'' = Inr \<lparr>ep_authority = ''a'', ep_path = ''/x''\<rparr>"
    "endpoint_parse ''https://b/y'' = Inr \<lparr>ep_authority = ''b'', ep_path = ''/y''\<rparr>"
    "endpoint_parse ''https://c/z'' = Inr \<lparr>ep_authority = ''c'', ep_path = ''/z''\<rparr>"
    by code_simp+
  then show ?thesis
    by (simp add: transparent_fwmark_and_idle_timeout_parse_def test_rules match_target_def rule_applies_def endpoint_matches_def
        rule_decision_def privileged_count_def)
qed

lemma varint_tests: "roundtrip_boundaries" "decode_short_buffer_is_none" "known_vectors"
  by code_simp+

lemma test_config_ok: "ech_config_encode (test_config i x) \<noteq> None" "ech_wf (test_config i x)"
  by (simp_all add: test_config_def ech_config_encode_eq ech_fits_def ech_wf_def utf8_valid_as_bytes)

lemma roundtrip_minimal_test: "roundtrip_minimal"
proof -
  obtain b where "ech_config_encode (test_config 42 0x11) = Some b" using test_config_ok(1) by blast
  with ech_decode_encode [OF this] test_config_ok(2) show ?thesis
    by (simp add: roundtrip_minimal_def ech_wf_def) (simp add: test_config_def)
qed

lemma list_roundtrip_test: "list_roundtrip"
proof -
  let ?c = "test_config 1 0x22"
  obtain body where body: "encode_configs [?c, ?c] [] = Some body" using test_config_ok(1) [of 1 "0x22"] by auto
  have "length body < 2 ^ 16" using encode_configs_length [OF body] by (simp add: ech_encoded_len_def test_config_def)
  then have len: "unat (word_of_nat (length body) :: u16) = length body" by (simp add: unat_of_nat)
  let ?list = "to_be_bytes 2 (word_of_nat (length body) :: u16) @ body"
  have enc: "encode_list [?c, ?c] = Some ?list"
    using body \<open>length body < 2 ^ 16\<close> by (simp add: encode_list_def try_from_len_def)
  note r = rd.get16_be [of "reader_new ?list" "word_of_nat (length body)" body, unfolded rd_view_new, OF refl]
  have sl: "read_slice (rd_adv 2 (reader_new ?list)) (length body) = Inr (body, rd_adv (length body) (rd_adv 2 (reader_new ?list)))"
    using rd.getn_append [of "rd_adv 2 (reader_new ?list)" body "[]"] r by simp
  obtain r' where "decode_many 2 (reader_new body) = Inr ([?c, ?c], r')" "rd_view r' = []"
    using decode_many_encode [OF body, of "reader_new body" "[]"] test_config_ok(2) by (auto simp: numeral_2_eq_2)
  then obtain r1 where "ech_config_decode_from (reader_new body) = Inr (?c, r1)" "ech_config_decode_from r1 = Inr (?c, r')"
    by (auto simp: numeral_2_eq_2 result_iffs)
  with enc r sl len \<open>rd_view r' = []\<close> show ?thesis
    by (simp add: list_roundtrip_def is_empty_view) (simp add: test_config_def)
qed

lemma pem_roundtrip_single_test:
  assumes "base64_codec enc dec"
  shows "pem_roundtrip_single_pair enc dec"
proof -
  let ?pair = "\<lparr>private_key = replicate 32 0x55, kp_config = test_config 7 0xab\<rparr>"
  obtain s where s: "encode_pair_pem enc (private_key ?pair) (kp_config ?pair) = Some s"
    using test_config_ok(1) unfolding encode_pair_pem_Some by fastforce
  have "parse_pem_bundle dec (as_bytes (concat [s])) = Inr [?pair]"
    using parse_pem_pairs [OF assms, of "[?pair]" "[s]"] s test_config_ok(2) by simp
  with s show ?thesis by (simp add: pem_roundtrip_single_pair_def) (simp add: test_config_def)
qed

lemma pem_roundtrip_multiple_test:
  assumes b64: "base64_codec enc dec"
  shows "pem_roundtrip_multiple_pairs enc dec"
proof -
  let ?a = "\<lparr>private_key = replicate 32 0x01, kp_config = test_config 1 0xab\<rparr>"
  let ?b = "\<lparr>private_key = replicate 32 0x02, kp_config = test_config 2 0xab\<rparr>"
  obtain ba bb where e: "ech_config_encode (kp_config ?a) = Some ba" "ech_config_encode (kp_config ?b) = Some bb"
    using test_config_ok(1) by fastforce
  let ?text = "\<lambda>ls. concat (map (\<lambda>l. l @ [newline]) ls)"
  have s: "encode_pair_pem enc (private_key ?a) (kp_config ?a) = Some (?text (pair_lines enc ?a ba))"
    "encode_pair_pem enc (private_key ?b) (kp_config ?b) = Some (?text (pair_lines enc ?b bb))"
    using e unfolding encode_pair_pem_Some by auto
  let ?ls = "pair_lines enc ?a ba @ [[]] @ pair_lines enc ?b bb"
  have clean: "\<forall>l \<in> set ?ls. clean_line l" using pair_lines_clean [OF b64] by (auto simp only: set_append set_simps)
  have t: "?text (pair_lines enc ?a ba) @ [newline] @ ?text (pair_lines enc ?b bb) = ?text ?ls" by simp
  define pem where "pem = ?text ?ls"
  have "lines pem = ?ls" using lines_concat [of ?ls "[]"] clean by (simp add: pem_def)
  moreover have "utf8_valid (as_bytes pem)" unfolding pem_def using clean by (intro utf8_valid_as_bytes) (auto simp: newline_def)
  moreover have "pem_blocks_loop dec ?ls [] = Inr (pair_blocks ?a ba @ pair_blocks ?b bb)"
    using pem_blocks_loop_lines [OF b64, of _ _ "[]"] trim_graphic [of "[]"]
    by (simp add: pair_lines_def pair_blocks_def pem_blocks_loop_lines [OF b64])
  moreover have "bundle_loop (pair_blocks ?a ba @ pair_blocks ?b bb) [] = Inr [?a, ?b]"
    using bundle_loop_pairs [of "[?a, ?b]" "[ba, bb]" "[]"] ech_decode_encode [OF e(1)] ech_decode_encode [OF e(2)] test_config_ok(2)
    by (simp add: ech_wf_def)
  ultimately have "parse_pem_bundle dec (as_bytes pem) = Inr [?a, ?b]"
    by (simp add: parse_pem_bundle_def parse_pem_blocks_def from_utf8_def)
  then have "parse_pem_bundle dec (as_bytes (?text (pair_lines enc ?a ba) @ [newline] @ ?text (pair_lines enc ?b bb))) = Inr [?a, ?b]"
    unfolding pem_def t .
  moreover have "config_id (kp_config ?a) = 1" "config_id (kp_config ?b) = 2" by (simp_all add: test_config_def)
  ultimately show ?thesis using s unfolding pem_roundtrip_multiple_pairs_def by (simp del: as_bytes_append)
qed

end
