(* ===== verification/Program.thy ===== *)
theory Program
  imports End_To_End Reload Ech_Keygen Recv_Task Portable Source_Tests
begin

text \<open>
  The program around the components (\<^verbatim>\<open>src/src/main.rs\<close> with the arguments of \<^verbatim>\<open>src/src/cli.rs\<close>): starting the server,
  starting the client and generating keys.  Parsing the command line is the work of \<^verbatim>\<open>clap\<close>; the definitions start
  from its result.  A process that stops on an error closes its descriptors by ending, which is not spelled out.
\<close>

section \<open>Arguments\<close>

record serve_args =
  sa_addr :: socket_addr
  sa_rules :: string
  sa_cert :: path
  sa_key :: path
  sa_ech_key :: "fs_path option"

record client_args =
  ca_endpoint :: string
  ca_listen :: socket_addr
  ca_proxy_addr :: "socket_addr option"
  ca_insecure :: bool
  ca_ca :: "path option"
  ca_ech_config :: "string option"
  ca_ech_config_file :: "string option"

record gen_ech_args =
  ga_public_name :: string

section \<open>Starting the server\<close>

definition reload_paths_of :: "serve_args \<Rightarrow> reload_paths" where
  "reload_paths_of args = \<lparr>rp_cert = sa_cert args, rp_key = sa_key args, rp_ech_key = sa_ech_key args, rp_rules = sa_rules args\<rparr>"

text \<open>What \<^verbatim>\<open>serve\<close> has before the runtime starts: the configuration, and what it tells the operator.\<close>

record startup =
  st_config :: quic_config
  st_rules :: rule_table
  st_loaded :: nat
  st_privileged :: nat
  st_published :: "string option"

definition publish :: "(bytes \<Rightarrow> string) \<Rightarrow> ech_key_set option \<Rightarrow> string option option" where
  "publish b64_enc ech =
     (case ech of None \<Rightarrow> Some None | Some ks \<Rightarrow> map_option (\<lambda>l. Some (b64_enc l)) (config_list_bytes ks))"

definition serve_load :: "env \<Rightarrow> (bytes \<Rightarrow> string) \<Rightarrow> serve_args \<Rightarrow> (reload_error + startup) option" where
  "serve_load env b64_enc args =
     (case load_rules_file env (sa_rules args) of
        Inl e \<Rightarrow> Some (Inl e)
      | Inr tbl \<Rightarrow>
          (case load_ech env (sa_ech_key args) of
             Inl e \<Rightarrow> Some (Inl e)
           | Inr ech \<Rightarrow> do {
               published \<leftarrow> publish b64_enc ech;
               r \<leftarrow> server_config_for env (reload_paths_of args) ech tbl;
               Some (and_then r (\<lambda>cfg. Inr \<lparr>st_config = cfg, st_rules = tbl, st_loaded = rule_table_len tbl,
                 st_privileged = privileged_count tbl, st_published = published\<rparr>))
             }))"

datatype serve_error =
    Serve_Load reload_error
  | Serve_Bind bind_error
  | Serve_Reload io_error
  | Serve_Local_Addr io_error
  | Serve_H3 string

text \<open>\<^verbatim>\<open>Server::new\<close>.\<close>

definition server_start :: "kernel \<Rightarrow> (int \<Rightarrow> socket_addr) \<Rightarrow> (string + h3_config) \<Rightarrow> fd \<Rightarrow> quic_config \<Rightarrow> rule_table \<Rightarrow> trace \<Rightarrow>
    (serve_error + ('c, 'h, quic_config) server) \<times> trace" where
  "server_start k addr_of h3_config_new fd cfg tbl t =
     (case sys k (Local_Addr fd) t of
        (Inl e, t) \<Rightarrow> (Inl (Serve_Local_Addr (last_os_error e)), t)
      | (Inr n, t) \<Rightarrow>
          (case build_h3_config h3_config_new of
             Inl e \<Rightarrow> (Inl (Serve_H3 e), t)
           | Inr _ \<Rightarrow> (Inr (server_new fd (addr_of n) cfg tbl t), t)))"

text \<open>\<^verbatim>\<open>serve\<close> up to the call of \<^verbatim>\<open>Server::run\<close>.\<close>

definition serve :: "kernel \<Rightarrow> env \<Rightarrow> (bytes \<Rightarrow> string) \<Rightarrow> (int \<Rightarrow> socket_addr) \<Rightarrow> (string + h3_config) \<Rightarrow> serve_args \<Rightarrow> trace \<Rightarrow>
    ((serve_error + ('c, 'h, quic_config) server) \<times> trace) option" where
  "serve k env b64_enc addr_of h3_config_new args t = do {
     r \<leftarrow> serve_load env b64_enc args;
     (case r of
        Inl e \<Rightarrow> Some (Inl (Serve_Load e), t)
      | Inr st \<Rightarrow>
          (case bind_udp k (sa_addr args) (sighup_blocked_new k t) of
             (Inl e, t) \<Rightarrow> Some (Inl (Serve_Bind e), t)
           | (Inr fd, t) \<Rightarrow>
               (case spawn_reload k (enlarge_udp_buffers k fd t) of
                  (Inl e, t) \<Rightarrow> Some (Inl (Serve_Reload e), t)
                | (Inr sfd, t) \<Rightarrow> Some (server_start k addr_of h3_config_new fd (st_config st) (st_rules st) t))))
   }"

section \<open>Starting the client\<close>

datatype client_error =
    Client_Endpoint endpoint_error
  | Client_Read_Ech string
  | Client_Bad_Base64
  | Client_Bind bind_error

definition load_ech_config :: "(string \<Rightarrow> string option) \<Rightarrow> (string \<Rightarrow> bytes option) \<Rightarrow> client_args \<Rightarrow> client_error + bytes option" where
  "load_ech_config read_to_string b64_dec args =
     (let decode = (\<lambda>b64. case b64_dec b64 of None \<Rightarrow> Inl Client_Bad_Base64 | Some l \<Rightarrow> Inr (Some l)) in
      case (ca_ech_config args, ca_ech_config_file args) of
        (Some s, _) \<Rightarrow> decode (trim s)
      | (None, Some path) \<Rightarrow>
          (case read_to_string path of None \<Rightarrow> Inl (Client_Read_Ech path) | Some s \<Rightarrow> decode (trim s))
      | (None, None) \<Rightarrow> Inr None)"

definition client_options :: "(string \<Rightarrow> string option) \<Rightarrow> (string \<Rightarrow> bytes option) \<Rightarrow> client_args \<Rightarrow> client_error + proxy_options" where
  "client_options read_to_string b64_dec args =
     and_then (map_err Client_Endpoint (endpoint_parse (ca_endpoint args))) (\<lambda>ep.
     and_then (load_ech_config read_to_string b64_dec args) (\<lambda>ech.
     Inr \<lparr>po_conn = \<lparr>cp_endpoint = ep, cp_proxy_addr = ca_proxy_addr args,
            cp_verify = (if ca_insecure args then Insecure else Roots (ca_ca args)), cp_ech_config_list = ech\<rparr>,
          po_listen = ca_listen args\<rparr>))"

definition client_main :: "kernel \<Rightarrow> ('c, 'h, quic_config) quiche \<Rightarrow> client_env \<Rightarrow> (string \<Rightarrow> string option) \<Rightarrow> (string \<Rightarrow> bytes option) \<Rightarrow>
    client_args \<Rightarrow> (bytes \<times> session_input list) list \<Rightarrow> trace \<Rightarrow> (client_error + duration list \<times> trace) option" where
  "client_main k q env read_to_string b64_dec args sessions t =
     (case client_options read_to_string b64_dec args of
        Inl e \<Rightarrow> Some (Inl e)
      | Inr opts \<Rightarrow> map_option (map_err Client_Bind) (run_proxy k q env opts sessions t))"

definition gen_ech_key :: "hpke_ffi \<Rightarrow> u8 \<Rightarrow> (bytes \<Rightarrow> string) \<Rightarrow> (string \<Rightarrow> bool) \<Rightarrow> (string \<Rightarrow> bool) \<Rightarrow> gen_ech_args \<Rightarrow> console \<Rightarrow>
    ((keygen_error + unit) \<times> console) option" where
  "gen_ech_key ffi random_id b64_enc out_ok err_ok args con = keygen_run ffi random_id b64_enc out_ok err_ok (ga_public_name args) con"

section \<open>Dispatch\<close>

datatype command = Serve serve_args | Client client_args | Gen_Ech_Key gen_ech_args

datatype level_filter = Level_Off | Level_Error | Level_Warn | Level_Info | Level_Debug | Level_Trace

text \<open>The filter for a value of \<^verbatim>\<open>RUST_LOG\<close>; installing the logger has no effect on anything modelled.\<close>

definition init_logging :: "string option \<Rightarrow> level_filter" where
  "init_logging level =
     (if level = Some ''off'' then Level_Off
      else if level = Some ''error'' then Level_Error
      else if level = Some ''warn'' then Level_Warn
      else if level = Some ''debug'' then Level_Debug
      else if level = Some ''trace'' then Level_Trace
      else Level_Info)"

text \<open>\<^verbatim>\<open>main\<close> over what the three commands do.\<close>

definition main_program :: "(serve_args \<Rightarrow> 'r) \<Rightarrow> (client_args \<Rightarrow> 'r) \<Rightarrow> (gen_ech_args \<Rightarrow> 'r) \<Rightarrow> string option \<Rightarrow> command \<Rightarrow>
    level_filter \<times> 'r" where
  "main_program serve_cmd client_cmd gen_cmd rust_log cli =
     (init_logging rust_log,
      case cli of Serve args \<Rightarrow> serve_cmd args | Client args \<Rightarrow> client_cmd args | Gen_Ech_Key args \<Rightarrow> gen_cmd args)"

section \<open>What the server starts with\<close>

lemma load_ech_Some:
  "load_ech env p = Inr (Some ks) \<Longrightarrow> \<forall>pair \<in> set (key_pairs ks). ech_wf (kp_config pair)"
  using ech_key_set_wf decode_fits by (fastforce simp: load_ech_def result_iffs split: option.splits)

text \<open>C24. Starting and reloading agree: \<^verbatim>\<open>serve\<close> gets ready with a configuration and a rule table exactly when a
  reload of the same files would install them and the list of ECH configurations fits its 16-bit length; otherwise
  \<^verbatim>\<open>serve\<close> fails, or panics if only the list does not fit.\<close>

theorem serve_load_agrees:
  "(\<exists>st. serve_load env b64_enc args = Some (Inr st) \<and> st_config st = cfg \<and> st_rules st = tbl)
   \<longleftrightarrow> rebuild env (reload_paths_of args) = Some (Inr (cfg, tbl))
       \<and> (case load_ech env (sa_ech_key args) of Inr (Some ks) \<Rightarrow> config_list_bytes ks \<noteq> None | _ \<Rightarrow> True)"
proof (cases "load_rules_file env (sa_rules args)")
  case (Inl e)
  then show ?thesis
    by (cases "load_ech env (sa_ech_key args)") (simp_all add: serve_load_def rebuild_def reload_paths_of_def)
next
  case (Inr tbl')
  show ?thesis
  proof (cases "load_ech env (sa_ech_key args)")
    case (Inl e)
    with Inr show ?thesis by (simp add: serve_load_def rebuild_def reload_paths_of_def)
  next
    case (Inr ech)
    have "\<exists>b. ech_config_encode (kp_config pair) = Some b" if "ech = Some ks" "pair \<in> set (key_pairs ks)" for ks pair
      using load_ech_encodes Inr that by blast
    from build_server_config_total [OF this] have "\<exists>r. server_config_for env (reload_paths_of args) ech tbl' = Some r"
      by (simp add: server_config_for_def)
    then obtain r where r: "server_config_for env (reload_paths_of args) ech tbl' = Some r" ..
    have rb: "rebuild env (reload_paths_of args) = Some (and_then r (\<lambda>cfg. Inr (cfg, tbl')))"
      using Inr \<open>load_rules_file env (sa_rules args) = Inr tbl'\<close> r
      by (simp add: rebuild_def) (simp add: reload_paths_of_def)
    have sl: "serve_load env b64_enc args = map_option (\<lambda>published. and_then r (\<lambda>cfg. Inr \<lparr>st_config = cfg, st_rules = tbl',
        st_loaded = rule_table_len tbl', st_privileged = privileged_count tbl', st_published = published\<rparr>)) (publish b64_enc ech)"
      using Inr \<open>load_rules_file env (sa_rules args) = Inr tbl'\<close> r
      by (cases "publish b64_enc ech") (simp_all add: serve_load_def)
    have pb: "(case ech of Some ks \<Rightarrow> config_list_bytes ks \<noteq> None | None \<Rightarrow> True) \<longleftrightarrow> publish b64_enc ech \<noteq> None"
      by (cases ech) (simp_all add: publish_def)
    show ?thesis
      unfolding sl rb Inr sum.case pb by (cases r; cases "publish b64_enc ech") auto
  qed
qed

lemma serve_load_rebuild:
  assumes "serve_load env b64_enc args = Some (Inr st)"
  shows "rebuild env (reload_paths_of args) = Some (Inr (st_config st, st_rules st))"
  using assms
  by (auto simp: serve_load_def rebuild_def reload_paths_of_def bind_eq_Some_conv result_iffs split: sum.splits)

lemma serve_load_published:
  assumes "serve_load env b64_enc args = Some (Inr st)" "st_published st = Some b64"
  obtains ks l where "load_ech env (sa_ech_key args) = Inr (Some ks)" "config_list_bytes ks = Some l" "b64 = b64_enc l"
  using assms by (auto simp: serve_load_def bind_eq_Some_conv result_iffs publish_def split: sum.splits option.splits)

text \<open>A server that starts is a fresh server with what was loaded.\<close>

lemma serve_Inr:
  assumes "serve k env b64_enc addr_of h3 args t = Some (Inr s, t')"
  obtains fd addr u st where "serve_load env b64_enc args = Some (Inr st)" "s = server_new fd addr (st_config st) (st_rules st) u"
proof -
  obtain r where l: "serve_load env b64_enc args = Some r" using assms by (auto simp: serve_def bind_eq_Some_conv)
  show ?thesis
  proof (cases r)
    case (Inl e)
    with assms l show ?thesis by (simp add: serve_def)
  next
    case (Inr st)
    obtain b t1 where b: "bind_udp k (sa_addr args) (sighup_blocked_new k t) = (b, t1)" by force
    with assms l Inr obtain fd where fd: "b = Inr fd" by (cases b) (auto simp: serve_def)
    obtain w t2 where w: "spawn_reload k (enlarge_udp_buffers k fd t1) = (w, t2)" by force
    with assms l Inr b fd have "server_start k addr_of h3 fd (st_config st) (st_rules st) t2 = (Inr s, t')"
      by (cases w) (auto simp: serve_def)
    then obtain n u where "s = server_new fd (addr_of n) (st_config st) (st_rules st) u"
      by (cases "k_call k t2 (Local_Addr fd)"; cases "build_h3_config h3") (auto simp: server_start_def sys_eq)
    with l Inr that show ?thesis by blast
  qed
qed

text \<open>SIGHUP is blocked before anything else happens: until the signal descriptor exists, no signal can end a server
  whose configuration was accepted, and a rejected configuration touches nothing.\<close>

lemma start_extends:
  "\<exists>u. snd (bind_udp k a t) = t @ u" "\<exists>u. enlarge_udp_buffers k fd t = t @ u" "\<exists>u. snd (spawn_reload k t) = t @ u"
  by (auto simp: bind_udp_def enable_udp_gro_def enlarge_udp_buffers_def set_sockopt_int_def spawn_reload_def sys_eq Let_def split: sum.split prod.split)

lemma serve_blocks_first:
  assumes "serve k env b64_enc addr_of h3 args t = Some (r, t')"
  shows "t' = t \<or> (\<exists>x u. t' = t @ Call Block_Sighup x # u)"
proof -
  obtain l where l: "serve_load env b64_enc args = Some l" using assms by (auto simp: serve_def bind_eq_Some_conv)
  show ?thesis
  proof (cases l)
    case (Inl e)
    with assms l show ?thesis by (simp add: serve_def)
  next
    case (Inr st)
    obtain x where sig: "sighup_blocked_new k t = t @ [Call Block_Sighup x]" by (simp add: sighup_blocked_new_def)
    obtain b t1 where b: "bind_udp k (sa_addr args) (sighup_blocked_new k t) = (b, t1)" by force
    obtain u1 where u1: "t1 = t @ Call Block_Sighup x # u1" using start_extends(1) [of k "sa_addr args" "sighup_blocked_new k t"] b sig by auto
    show ?thesis
    proof (cases b)
      case (Inl e)
      with assms l Inr b u1 show ?thesis by (auto simp: serve_def)
    next
      case (Inr fd)
      obtain w t2 where w: "spawn_reload k (enlarge_udp_buffers k fd t1) = (w, t2)" by force
      obtain u2 where u2: "t2 = t1 @ u2"
        using start_extends(2) [of k fd t1] start_extends(3) [of k "enlarge_udp_buffers k fd t1"] w by auto
      have "\<exists>u3. t' = t2 @ u3"
        using assms l \<open>l = Inr st\<close> b Inr w
        by (cases w; cases "k_call k t2 (Local_Addr fd)"; cases "build_h3_config h3") (auto simp: serve_def server_start_def sys_eq)
      with u1 u2 show ?thesis by auto
    qed
  qed
qed

section \<open>What the client dials with\<close>

lemma dial_Inr:
  assumes "dial k q env cid p t = (Inr d, t')"
  obtains cfg paddr where "build_client_config (ce_ssl env) (ce_qc env) (ce_file_exists env) (cp_verify p) (cp_ech_config_list p) = Inr cfg"
    "q_connect q (host_of (d_authority d)) cid (d_local_addr d) paddr cfg = Inr (d_conn d)"
    "d_authority d = ep_authority (cp_endpoint p)" "d_path d = ep_path (cp_endpoint p)"
proof -
  let ?cfg = "map_err Dial_Config (build_client_config (ce_ssl env) (ce_qc env) (ce_file_exists env) (cp_verify p) (cp_ech_config_list p))"
  let ?addr = "case cp_proxy_addr p of Some addr \<Rightarrow> Inr addr | None \<Rightarrow> resolve_authority (ce_to_socket_addrs env) (ep_authority (cp_endpoint p))"
  obtain cfg addr where c: "and_then ?cfg (\<lambda>config. and_then ?addr (\<lambda>a. Inr (config, a))) = Inr (cfg, addr)"
    using assms by (cases "and_then ?cfg (\<lambda>config. and_then ?addr (\<lambda>a. Inr (config, a)))") (auto simp: dial_def Let_def)
  obtain b t1 where b: "bind_udp k (if addr_is_ipv4 addr then any_v4 else any_v6) t = (b, t1)" by force
  with assms c obtain fd where fd: "b = Inr fd" by (cases b) (auto simp: dial_def Let_def)
  let ?t = "enlarge_udp_buffers k fd t1"
  obtain n where n: "k_call k ?t (Local_Addr fd) = Inr n"
    using assms c b fd by (cases "k_call k ?t (Local_Addr fd)") (auto simp: dial_def Let_def sys_eq)
  obtain conn where "q_connect q (host_of (ep_authority (cp_endpoint p))) cid (ce_addr_of env n) addr cfg = Inr conn"
    using assms c b fd n
    by (cases "q_connect q (host_of (ep_authority (cp_endpoint p))) cid (ce_addr_of env n) addr cfg") (auto simp: dial_def Let_def sys_eq)
  with assms c b fd n that [of cfg addr] show ?thesis by (auto simp: dial_def Let_def sys_eq result_iffs)
qed

lemma client_options_Inr:
  assumes "client_options rd dec args = Inr opts"
  shows "endpoint_parse (ca_endpoint args) = Inr (cp_endpoint (po_conn opts))"
    "load_ech_config rd dec args = Inr (cp_ech_config_list (po_conn opts))"
    "cp_verify (po_conn opts) = (if ca_insecure args then Insecure else Roots (ca_ca args))"
  using assms by (auto simp: client_options_def result_iffs)

lemma load_ech_config_published:
  assumes "base64_codec enc dec" "ca_ech_config args = Some (enc l)"
  shows "load_ech_config rd dec args = Inr (Some l)"
proof -
  have "enc l = [] \<or> graphic (hd (enc l)) \<and> graphic (last (enc l))"
    using assms(1) base64_char_graphic hd_in_set last_in_set unfolding base64_codec_def by blast
  then have "trim (enc l) = enc l" by (rule trim_graphic)
  with assms show ?thesis by (simp add: load_ech_config_def base64_codec_def)
qed

end
