(* ===== verification/Spec2Isabelle.thy ===== *)
theory Spec2Isabelle
  imports Program
begin

text \<open>
  zeromasque: a CONNECT-UDP (MASQUE) proxy server and client over QUIC.

  \<^bold>\<open>The program.\<close>  The server (\<^verbatim>\<open>src/src/server.rs\<close>) accepts QUIC connections, reads HTTP/3 CONNECT requests, looks
  each up in a table of rules (\<^verbatim>\<open>rules.rs\<close>, \<^verbatim>\<open>endpoint.rs\<close>) and, for each one that matches, opens a UDP socket
  connected to the rule's target and spawns a task that relays datagrams.  Datagrams are framed by \<^verbatim>\<open>dgram.rs\<close> and
  \<^verbatim>\<open>varint.rs\<close>.  The client (\<^verbatim>\<open>client.rs\<close>) listens on a local UDP socket, keeps a connection to the proxy, opens one
  flow per local source address and reconnects for ever.  Both send and receive through \<^verbatim>\<open>io.rs\<close>, which batches
  packets for segmentation offload.  \<^verbatim>\<open>quic.rs\<close> builds TLS and transport configurations, \<^verbatim>\<open>reload.rs\<close> swaps them on
  SIGHUP, \<^verbatim>\<open>ech/\<close> holds the codec, the key files and the generator of Encrypted Client Hello keys, and \<^verbatim>\<open>main.rs\<close>
  puts the parts together.

  \<^bold>\<open>How it is modelled.\<close>  Results are sums, with the error on the left; a panic, or a loop that does not return, is
  \<^const>\<open>None\<close>.  Strings are lists of UTF-8 code units and bytes 8-bit words; identifiers and ports keep their width.
  The operating system is a parameter \<open>k\<close> (\<^verbatim>\<open>Kernel\<close>): any function that answers a system call from the trace of
  events so far; \<open>wire\<close> and \<open>open_fds\<close> read off the trace what was sent and which descriptors are open.  The \<^verbatim>\<open>quiche\<close>
  crate is a parameter \<open>q\<close> (\<^verbatim>\<open>Quiche\<close>), a record of its functions over opaque states; what a theorem needs of it is a
  named hypothesis (\<open>send_ok\<close>, \<open>sends_finite\<close>, \<open>drains\<close>, \<open>client_drains\<close>, \<open>fresh_streams\<close>, \<open>logs\<close>), and the scripted
  connection of \<^verbatim>\<open>Quiche\<close> satisfies each of them in the examples.  BoringSSL, base64, JSON, the file system and name
  resolution are parameters as well.  Random numbers, the order in which a hash map is iterated and channel
  capacities are arguments over which the theorems quantify.  The model is the Linux build.

  \<^bold>\<open>The theories.\<close>
  \<^item> \<^verbatim>\<open>Prelude\<close>, \<^verbatim>\<open>Net\<close>, \<^verbatim>\<open>Util\<close>: results, strings, addresses, durations, helpers; the interfaces \<open>prefix_codec\<close> (a code
    that can be read off the front of any input) and \<open>invariant_system\<close> (an invariant of a step relation).
  \<^item> \<^verbatim>\<open>Varint\<close>, \<^verbatim>\<open>Dgram\<close>: \<^verbatim>\<open>varint.rs\<close> and \<^verbatim>\<open>dgram.rs\<close>; codes invert each other.  \<^verbatim>\<open>Varint\<close> interprets \<open>prefix_codec\<close>.
  \<^item> \<^verbatim>\<open>Endpoint\<close>, \<^verbatim>\<open>Rules\<close>: parsing and matching of endpoints, loading of rule files, the first rule wins.
  \<^item> \<^verbatim>\<open>Ech_Config\<close>, \<^verbatim>\<open>Ech_Key\<close>, \<^verbatim>\<open>Ech_Keygen\<close>: ECH configurations over a reader given by the interface \<open>byte_source\<close>, PEM
    files and key sets, key generation; what is printed loads back.
  \<^item> \<^verbatim>\<open>Kernel\<close>, \<^verbatim>\<open>Quic_Socket\<close>, \<^verbatim>\<open>Udp_Io\<close>: system calls, socket options, and \<^verbatim>\<open>io.rs\<close>.  A flush ends and puts exactly the
    packets of the connection on the wire; coalesced receives are split back.
  \<^item> \<^verbatim>\<open>Quiche\<close>, \<^verbatim>\<open>Connect_Udp\<close>: the interface of the crate; the requests and responses of both sides agree.
  \<^item> \<^verbatim>\<open>Target\<close>, \<^verbatim>\<open>Server\<close>: target sockets, relay tasks, and every handler of the server's loop, one definition each.
  \<^item> \<^verbatim>\<open>Server_Flows\<close>, \<^verbatim>\<open>Server_System\<close>, \<^verbatim>\<open>Server_Run\<close>: a request is pinned to a rule or refused; the loop interleaved
    with relays and reloads as a step relation, its invariant (an interpretation of \<open>invariant_system\<close>), isolation of
    clients, delivery of answers, that every iteration returns, that relays end, and when sweeps do not happen.
  \<^item> \<^verbatim>\<open>Quic_Config\<close>, \<^verbatim>\<open>Reload\<close>: a builder is the list of calls made on it, and a setting the last call that made it;
    the guard on server names agrees with the rules, and a reload is all or nothing.
  \<^item> \<^verbatim>\<open>Client\<close>: dialing, one definition per step of \<^verbatim>\<open>run_session\<close>, and the reconnect loop.
  \<^item> \<^verbatim>\<open>Client_Session\<close>, \<^verbatim>\<open>Client_Run\<close>: the flow tables of every reachable session are inverse to each other (a second
    interpretation of \<open>invariant_system\<close>); sessions return; replies go to the source of their flow; pauses are bounded
    and no descriptor leaks.
  \<^item> \<^verbatim>\<open>Client_Refine\<close>: a specification with one phase per source and one queue per source; a session refines it.
  \<^item> \<^verbatim>\<open>Program\<close>: \<^verbatim>\<open>serve\<close>, \<^verbatim>\<open>client\<close>, \<^verbatim>\<open>gen_ech_key\<close> and \<^verbatim>\<open>load_ech_config\<close> of \<^verbatim>\<open>main.rs\<close>.
  \<^item> This theory: properties of the daemon as started, and of a client and a server together.

  \<^bold>\<open>Bounds and termination.\<close>  No definition takes fuel.  Loops that end only because the environment lets them are
  partial functions with value \<^const>\<open>None\<close> otherwise, and are proved to return when \<^verbatim>\<open>quiche\<close> has finitely much queued and
  a blocked socket becomes writable again after finitely many attempts (\<open>unblocks\<close>).  Sessions and schedules are lists
  of wake-ups of any length.

  \<^bold>\<open>Not modelled.\<close>  The inside of \<^verbatim>\<open>quiche\<close>, BoringSSL and the runtime; command-line parsing, which \<^verbatim>\<open>clap\<close> generates from
  the structures of \<^verbatim>\<open>cli.rs\<close>; the dispatch in \<^verbatim>\<open>main\<close>; logging and its levels; the log lines of the handlers;
  \<^verbatim>\<open>sigprocmask\<close>, which has no effect on the modelled state; the builds for other systems (in \<^verbatim>\<open>io.rs\<close>, \<^verbatim>\<open>quic.rs\<close> and
  \<^verbatim>\<open>reload.rs\<close>); and the tests, including \<^verbatim>\<open>ech_test.rs\<close>.  The receive tasks are modelled one wake-up at a time; that
  a full channel makes them wait is not.
\<close>

section \<open>The running daemon\<close>

text \<open>What the files of a command line can give at one moment or another.\<close>

definition loadable :: "reload_paths \<Rightarrow> (quic_config \<times> rule_table) set" where
  "loadable paths = {(cfg, tbl). \<exists>env. rebuild env paths = Some (Inr (cfg, tbl))}"

lemma serve_init:
  assumes "serve k env b64_enc addr_of h3 args t = Some (Inr s, t')"
  shows "server_init (loadable (reload_paths_of args)) s"
proof -
  from assms obtain fd addr u st where l: "serve_load env b64_enc args = Some (Inr st)"
    and s: "s = server_new fd addr (st_config st) (st_rules st) u" by (rule serve_Inr)
  have "(st_config st, st_rules st) \<in> loadable (reload_paths_of args)" using serve_load_rebuild [OF l] by (auto simp: loadable_def)
  then show ?thesis unfolding server_init_def s by blast
qed


definition sample_serve_args :: serve_args where
  "sample_serve_args = \<lparr>sa_addr = SocketV4 0 4433, sa_rules = ''rules.json'', sa_cert = ''cert.pem'', sa_key = ''key.pem'', sa_ech_key = None\<rparr>"

lemma sample_serve:
  "\<exists>(s :: (script, nat, quic_config) server) t'. serve calm_kernel sample_env hex (\<lambda>_. SocketV4 0 4433) (Inr \<lparr>extended_connect = False\<rparr>)
       sample_serve_args [] = Some (Inr s, t') \<and> s_rules s = \<lparr>rules = [dns_rule]\<rparr>"
proof -
  have p: "reload_paths_of sample_serve_args = sample_paths" by (simp add: reload_paths_of_def sample_serve_args_def sample_paths_def)
  have ech: "load_ech sample_env (sa_ech_key sample_serve_args) = Inr None" by (simp add: load_ech_def sample_serve_args_def)
  have rls: "load_rules_file sample_env (sa_rules sample_serve_args) = Inr \<lparr>rules = [dns_rule]\<rparr>"
    using sample_rules_file by (simp add: sample_serve_args_def sample_paths_def)
  from sample_rebuild obtain cfg where "server_config_for sample_env sample_paths None \<lparr>rules = [dns_rule]\<rparr> = Some (Inr cfg)"
    using sample_rules_file by (auto simp: rebuild_def load_ech_def sample_paths_def result_iffs)
  then obtain st where st: "serve_load sample_env hex sample_serve_args = Some (Inr st)" "st_rules st = \<lparr>rules = [dns_rule]\<rparr>"
    using p ech rls by (simp add: serve_load_def publish_def)
  obtain t1 where b: "bind_udp calm_kernel (sa_addr sample_serve_args) (sighup_blocked_new calm_kernel []) = (Inr 3, t1)"
    by (simp add: bind_udp_def calm_kernel_def sys_eq Let_def)
  let ?t = "enlarge_udp_buffers calm_kernel 3 t1"
  obtain t2 where w: "spawn_reload calm_kernel ?t = (Inr 4, t2)"
    by (simp add: spawn_reload_def calm_kernel_def sys_eq)
  have "k_call calm_kernel t2 (Local_Addr 3) = Inr 0" by (simp add: calm_kernel_def)
  with st b w show ?thesis by (simp add: serve_def server_start_def sys_eq build_h3_config_def server_new_def)
qed


section \<open>Client and server\<close>

text \<open>C12. A client started with the URI of a loaded rule gets through: the name it sends in the TLS handshake passes
  the server's guard, and its CONNECT request is parsed and matched to a rule.\<close>

theorem client_reaches_rule:
  assumes "rebuild env paths = Some (Inr (cfg, tbl))" and "r \<in> set (rules tbl)"
    and "client_options rd dec args = Inr opts" and "endpoint_parse (ca_endpoint args) = Inr (r_endpoint r)"
    and "dial k q cenv cid (po_conn opts) t = (Inr d, t')"
    and "utf8_valid (as_bytes (ep_authority (r_endpoint r)))" and "utf8_valid (as_bytes (ep_path (r_endpoint r)))"
  shows "\<exists>name ccfg paddr req m. q_connect q name cid (d_local_addr d) paddr ccfg = Inr (d_conn d) \<and> sni_admitted cfg (Some name)
     \<and> connect_request_parse (connect_headers (d_authority d) (d_path d)) = Inr req
     \<and> match_target tbl (cr_authority req) (cr_path req) = Some m"
proof -
  have ep: "cp_endpoint (po_conn opts) = r_endpoint r" using client_options_Inr(1) [OF assms(3)] assms(4) by simp
  from assms(5) obtain ccfg paddr where c: "q_connect q (host_of (d_authority d)) cid (d_local_addr d) paddr ccfg = Inr (d_conn d)"
    and d: "d_authority d = ep_authority (r_endpoint r)" "d_path d = ep_path (r_endpoint r)"
    unfolding ep [symmetric] by (rule dial_Inr)
  have "eq_ignore_ascii_case (host_of_authority (ep_authority (r_endpoint r))) (host_of (d_authority d))"
    by (simp add: d host_of_agrees eq_ignore_ascii_case_def)
  then have "sni_admitted cfg (Some (host_of (d_authority d)))"
    using rebuild_Inr(2) [OF assms(1)] assms(2) by (auto simp: guards_def)
  moreover have "connect_request_parse (connect_headers (d_authority d) (d_path d)) = Inr \<lparr>cr_authority = d_authority d, cr_path = d_path d\<rparr>"
    using assms(6,7) by (simp add: d connect_request_parse_def connect_headers_def header_new_def from_utf8_def)
  moreover have "find (rule_applies (d_authority d) (d_path d)) (rules tbl) \<noteq> None"
    using assms(2) endpoint_matches_query [of "r_endpoint r"] by (auto simp: find_None_iff rule_applies_def d)
  then have "\<exists>m. match_target tbl (d_authority d) (d_path d) = Some m" by (auto simp: match_target_def)
  ultimately show ?thesis using c by fastforce
qed

definition sample_client_args :: "string option \<Rightarrow> client_args" where
  "sample_client_args ech = \<lparr>ca_endpoint = ''https://a.b:443/p'', ca_listen = SocketV4 0 5353, ca_proxy_addr = None, ca_insecure = False,
     ca_ca = None, ca_ech_config = ech, ca_ech_config_file = None\<rparr>"

lemma sample_endpoint: "endpoint_parse (ca_endpoint (sample_client_args ech)) = Inr (r_endpoint dns_rule)"
proof -
  have "endpoint_parse ''https://a.b:443/p'' = Inr \<lparr>ep_authority = ''a.b:443'', ep_path = ''/p''\<rparr>" by code_simp
  then show ?thesis by (simp add: sample_client_args_def dns_rule_def)
qed

lemma sample_dial:
  "\<exists>d t'. dial calm_kernel (scripted_for idle_script :: (script, nat, quic_config) quiche) sample_client_env [7] p [] = (Inr d, t')"
proof -
  let ?c = "build_client_config (ce_ssl sample_client_env) (ce_qc sample_client_env) (ce_file_exists sample_client_env) (cp_verify p) (cp_ech_config_list p)"
  have "\<exists>cfg. ?c = Inr cfg"
  proof (cases "cp_verify p")
    case (Roots ca)
    then show ?thesis
      by (cases ca) (simp_all add: sample_client_env_def build_client_config_def ssl_try_def into_config_def apply_transport_params_def
        param_try_def Let_def)
  qed (simp add: sample_client_env_def build_client_config_def ssl_try_def into_config_def apply_transport_params_def param_try_def Let_def)
  then obtain cfg where cfg: "?c = Inr cfg" ..
  obtain a where a: "(case cp_proxy_addr p of Some addr \<Rightarrow> Inr addr
      | None \<Rightarrow> resolve_authority (ce_to_socket_addrs sample_client_env) (ep_authority (cp_endpoint p))) = Inr a"
    by (cases "cp_proxy_addr p") (simp_all add: sample_client_env_def resolve_authority_def)
  obtain t1 where b: "bind_udp calm_kernel (if addr_is_ipv4 a then any_v4 else any_v6) [] = (Inr 3, t1)"
    by (simp add: bind_udp_def calm_kernel_def sys_eq Let_def)
  have "k_call calm_kernel u (Local_Addr 3) = Inr 0" for u by (simp add: calm_kernel_def)
  with cfg a b show ?thesis by (simp add: dial_def Let_def sys_eq scripted_for_def)
qed

theorem client_reaches_rule_witness:
  "\<exists>cfg name m. rebuild sample_env sample_paths = Some (Inr (cfg, \<lparr>rules = [dns_rule]\<rparr>)) \<and> sni_admitted cfg (Some name)
     \<and> match_target \<lparr>rules = [dns_rule]\<rparr> ''a.b:443'' ''/p'' = Some m"
proof -
  obtain cfg where cfg: "rebuild sample_env sample_paths = Some (Inr (cfg, \<lparr>rules = [dns_rule]\<rparr>))" using sample_rebuild by blast
  obtain opts where opts: "client_options (\<lambda>_. None) unhex (sample_client_args None) = Inr opts"
    using sample_endpoint [of None] by (simp add: client_options_def load_ech_config_def) (simp add: sample_client_args_def)
  obtain d t' where d: "dial calm_kernel (scripted_for idle_script :: (script, nat, quic_config) quiche) sample_client_env [7] (po_conn opts) [] = (Inr d, t')"
    using sample_dial by blast
  have ep: "cp_endpoint (po_conn opts) = r_endpoint dns_rule" using client_options_Inr(1) [OF opts] sample_endpoint [of None] by simp
  have auth: "d_authority d = ''a.b:443''" "d_path d = ''/p''"
    using dial_Inr [OF d] ep by (auto simp: dns_rule_def)
  have utf8: "utf8_valid (as_bytes (ep_authority (r_endpoint dns_rule)))" "utf8_valid (as_bytes (ep_path (r_endpoint dns_rule)))"
    by (simp_all add: dns_rule_def utf8_valid_as_bytes)
  from client_reaches_rule [OF cfg _ opts sample_endpoint d utf8] obtain name req m where "sni_admitted cfg (Some name)"
    "connect_request_parse (connect_headers (d_authority d) (d_path d)) = Inr req"
    "match_target \<lparr>rules = [dns_rule]\<rparr> (cr_authority req) (cr_path req) = Some m" by auto
  with cfg auth utf8 show ?thesis
    by (auto simp: connect_request_parse_def connect_headers_def header_new_def from_utf8_def dns_rule_def)
qed

text \<open>C23. The ECH list that \<^verbatim>\<open>serve\<close> prints for publication, given to a client, is the list the client offers in its
  handshake, and it lists exactly the configurations of the keys the server has loaded.\<close>

theorem ech_published_is_offered:
  assumes "base64_codec b64_enc dec" and "serve_load env b64_enc sargs = Some (Inr st)" and "st_published st = Some b64"
    and "ca_ech_config cargs = Some b64" and "client_options rd dec cargs = Inr opts"
    and "dial k q cenv cid (po_conn opts) t = (Inr d, t')"
  shows "\<exists>ks list name ccfg paddr len r r'. load_ech env (sa_ech_key sargs) = Inr (Some ks) \<and> config_list_bytes ks = Some list
     \<and> q_connect q name cid (d_local_addr d) paddr ccfg = Inr (d_conn d) \<and> setting ech_offer_of (cfg_tls ccfg) = Some list
     \<and> read_u16 (reader_new list) = Inr (len, r) \<and> unat len = remaining r
     \<and> decode_many (length (key_pairs ks)) r = Inr (map kp_config (key_pairs ks), r') \<and> is_empty r'"
proof -
  from assms(2,3) obtain ks list where ks: "load_ech env (sa_ech_key sargs) = Inr (Some ks)" "config_list_bytes ks = Some list" "b64 = b64_enc list"
    by (rule serve_load_published)
  have offer: "cp_ech_config_list (po_conn opts) = Some list"
    using load_ech_config_published [OF assms(1), of cargs list rd] assms(4) ks(3) client_options_Inr(2) [OF assms(5)] by simp
  from assms(6) obtain ccfg paddr where c: "build_client_config (ce_ssl cenv) (ce_qc cenv) (ce_file_exists cenv) (cp_verify (po_conn opts))
      (cp_ech_config_list (po_conn opts)) = Inr ccfg" "q_connect q (host_of (d_authority d)) cid (d_local_addr d) paddr ccfg = Inr (d_conn d)"
    by (rule dial_Inr)
  have "setting ech_offer_of (cfg_tls ccfg) = Some list" using client_config_spec [OF c(1)] offer by simp
  moreover have "\<forall>c \<in> set (map kp_config (key_pairs ks)). ech_wf c" using load_ech_Some [OF ks(1)] by simp
  from encode_list_decodes [OF ks(2) [unfolded config_list_bytes_def] this] obtain len r r' where
    "read_u16 (reader_new list) = Inr (len, r)" "unat len = remaining r" "decode_many (length (key_pairs ks)) r = Inr (map kp_config (key_pairs ks), r')" "is_empty r'"
    by auto
  ultimately show ?thesis using ks(1,2) c(2) by blast
qed

text \<open>A server with two keys: the key file was printed by the key generator's own printer.\<close>

definition ech_env :: "bytes \<Rightarrow> env" where
  "ech_env b = sample_env\<lparr>e_fs := single_file [] b\<rparr>"

definition ech_serve_args :: serve_args where
  "ech_serve_args = sample_serve_args\<lparr>sa_ech_key := Some []\<rparr>"

lemma ech_sample:
  "\<exists>b st list. serve_load (ech_env b) hex ech_serve_args = Some (Inr st) \<and> st_published st = Some (hex list)"
proof -
  let ?ks = "\<lparr>key_pairs = [sample_pair 1, sample_pair 2]\<rparr>"
  obtain b where b: "ech_key_set_load (single_file [] b) unhex [] = Inr ?ks" using Ech_Key.sample_load by blast
  have ech: "load_ech (ech_env b) (sa_ech_key ech_serve_args) = Inr (Some ?ks)"
    using b by (simp add: load_ech_def ech_env_def sample_env_def ech_serve_args_def)
  have rls: "load_rules_file (ech_env b) (sa_rules ech_serve_args) = Inr \<lparr>rules = [dns_rule]\<rparr>"
    using sample_rules_file by (simp add: load_rules_file_def ech_env_def ech_serve_args_def sample_serve_args_def sample_paths_def)
  obtain list where l: "config_list_bytes ?ks = Some list"
    by (simp add: config_list_bytes_def sample_pair_def encode_list_def ech_config_encode_eq sample_config_ok try_from_len_def
        length_ech_contents) (simp add: sample_config_def)
  obtain e1 e2 where "ech_config_encode (kp_config (sample_pair 1)) = Some e1" "ech_config_encode (kp_config (sample_pair 2)) = Some e2"
    by (simp add: sample_pair_def ech_config_encode_eq sample_config_ok)
  then obtain cfg where "server_config_for (ech_env b) (reload_paths_of ech_serve_args) (Some ?ks) \<lparr>rules = [dns_rule]\<rparr> = Some (Inr cfg)"
    by (simp add: server_config_for_def build_server_config_def ssl_try_def into_config_def apply_transport_params_def
        param_try_def ech_env_def sample_env_def install_ech_keys_def)
  with ech rls l have "\<exists>st. serve_load (ech_env b) hex ech_serve_args = Some (Inr st) \<and> st_published st = Some (hex list)"
    by (simp add: serve_load_def publish_def)
  then show ?thesis by blast
qed

theorem ech_published_is_offered_witness:
  "\<exists>b st list (cargs :: client_args) (ccfg :: quic_config). serve_load (ech_env b) hex ech_serve_args = Some (Inr st) \<and> st_published st = Some (hex list)
     \<and> ca_ech_config cargs = Some (hex list) \<and> setting ech_offer_of (cfg_tls ccfg) = Some list"
proof -
  obtain b st list where s: "serve_load (ech_env b) hex ech_serve_args = Some (Inr st)" "st_published st = Some (hex list)"
    using ech_sample by blast
  let ?args = "sample_client_args (Some (hex list))"
  have a: "ca_ech_config ?args = Some (hex list)" by (simp add: sample_client_args_def)
  obtain opts where opts: "client_options (\<lambda>_. None) unhex ?args = Inr opts"
    using sample_endpoint load_ech_config_published [OF base64_codec_hex a] by (simp add: client_options_def)
  obtain d t' where d: "dial calm_kernel (scripted_for idle_script :: (script, nat, quic_config) quiche) sample_client_env [7] (po_conn opts) [] = (Inr d, t')"
    using sample_dial by blast
  from ech_published_is_offered [OF base64_codec_hex s a opts d] obtain ks list' and ccfg :: quic_config where
    l: "load_ech (ech_env b) (sa_ech_key ech_serve_args) = Inr (Some ks)" "config_list_bytes ks = Some list'"
      "setting ech_offer_of (cfg_tls ccfg) = Some list'" by (elim exE conjE) (rule that)
  have "hex list = hex list'" using serve_load_published [OF s] l(1,2) by fastforce
  then have "list' = list" by (metis option.inject unhex_hex)
  with s a l(3) show ?thesis by blast
qed

end
